(* ===== verification/Diem_Prelude.thy ===== *)
theory Diem_Prelude
  imports Main "HOL-Library.Word"
begin

text \<open>
  Shared vocabulary of the development: machine integers, the outcome of a fallible Rust
  computation, its state-passing variant, checked arithmetic on \<open>u64\<close>, and \<open>BTreeMap\<close> as a
  strictly sorted association list behind the locale \<open>ordered_map\<close>.

  Arithmetic follows the release profile of the workspace (\<^verbatim>\<open>Cargo.toml\<close> sets no
  \<^verbatim>\<open>overflow-checks\<close>), so plain \<open>+\<close>, \<open>-\<close> and \<open>*\<close> on \<open>u64\<close> wrap around; \<open>assert!\<close>,
  \<open>expect\<close> and \<open>unwrap\<close> on a failing value are the outcome \<open>Panic\<close>; \<open>debug_assert!\<close> and the
  annotations \<open>assume!\<close> and \<open>precondition!\<close> do nothing at run time.
\<close>

section \<open>Machine integers and opaque byte strings\<close>

type_synonym u8 = "8 word"
type_synonym u32 = "32 word"
type_synonym u64 = "64 word"

text \<open>32-byte hashes, 16-byte addresses, Ed25519 keys and signatures, read as big-endian words.\<close>

type_synonym hash_value = "256 word"
type_synonym account_address = "128 word"
type_synonym public_key = "256 word"
type_synonym private_key = "256 word"
type_synonym signature = "512 word"

section \<open>Outcomes\<close>

text \<open>\<open>Result<T, E>\<close> together with the third thing a Rust call can do: unwind.\<close>

datatype ('e, 'a) result = Ok 'a | Err 'e | Panic

named_theorems outcome_simps \<open>inversion of successful outcomes\<close>

fun bind_res :: "('e, 'a) result \<Rightarrow> ('a \<Rightarrow> ('e, 'b) result) \<Rightarrow> ('e, 'b) result" where
  "bind_res (Ok a) f = f a"
| "bind_res (Err e) f = Err e"
| "bind_res Panic f = Panic"

fun map_err :: "('e \<Rightarrow> 'f) \<Rightarrow> ('e, 'a) result \<Rightarrow> ('f, 'a) result" where
  "map_err g (Ok a) = Ok a"
| "map_err g (Err e) = Err (g e)"
| "map_err g Panic = Panic"

definition ensure :: "bool \<Rightarrow> 'e \<Rightarrow> ('e, unit) result" where
  "ensure b e = (if b then Ok () else Err e)"

definition assert_that :: "bool \<Rightarrow> ('e, unit) result" where
  "assert_that b = (if b then Ok () else Panic)"

definition ok_or :: "'a option \<Rightarrow> 'e \<Rightarrow> ('e, 'a) result" where
  "ok_or opt e = (case opt of Some a \<Rightarrow> Ok a | None \<Rightarrow> Err e)"

definition expect :: "'a option \<Rightarrow> ('e, 'a) result" where
  "expect opt = (case opt of Some a \<Rightarrow> Ok a | None \<Rightarrow> Panic)"

fun is_ok :: "('e, 'a) result \<Rightarrow> bool" where
  "is_ok (Ok a) = True"
| "is_ok (Err e) = False"
| "is_ok Panic = False"

text \<open>A check that is only made when an optional value is present (\<open>if let Some(x) = ...\<close>).\<close>

definition when_some :: "'a option \<Rightarrow> ('a \<Rightarrow> ('e, unit) result) \<Rightarrow> ('e, unit) result" where
  "when_some opt f = (case opt of None \<Rightarrow> Ok () | Some a \<Rightarrow> f a)"

lemma bind_res_Ok_iff [outcome_simps]:
  "bind_res m f = Ok b \<longleftrightarrow> (\<exists>a. m = Ok a \<and> f a = Ok b)"
  by (cases m) auto

lemma map_err_Ok_iff [outcome_simps, simp]: "map_err g m = Ok a \<longleftrightarrow> m = Ok a"
  by (cases m) auto

lemma ensure_Ok_iff [outcome_simps, simp]: "ensure b e = Ok u \<longleftrightarrow> b"
  by (simp add: ensure_def)

lemma assert_that_Ok_iff [outcome_simps, simp]: "assert_that b = Ok u \<longleftrightarrow> b"
  by (simp add: assert_that_def)

lemma ok_or_Ok_iff [outcome_simps, simp]: "ok_or opt e = Ok a \<longleftrightarrow> opt = Some a"
  by (simp add: ok_or_def split: option.split)

lemma expect_Ok_iff [outcome_simps, simp]: "expect opt = Ok a \<longleftrightarrow> opt = Some a"
  by (simp add: expect_def split: option.split)

lemma when_some_Ok_iff [outcome_simps]:
  "when_some opt f = Ok () \<longleftrightarrow> (\<forall>a. opt = Some a \<longrightarrow> f a = Ok ())"
  by (simp add: when_some_def split: option.split)

lemma is_ok_iff: "is_ok r \<longleftrightarrow> (\<exists>a. r = Ok a)"
  by (cases r) auto

lemma when_some_simps [simp]:
  "when_some None f = Ok ()"
  "when_some (Some a) f = f a"
  by (simp_all add: when_some_def)

lemma ensure_simps [simp]: "ensure True e = Ok ()" "ensure False e = Err e"
  by (simp_all add: ensure_def)

lemma assert_that_simps [simp]: "assert_that True = Ok ()" "assert_that False = Panic"
  by (simp_all add: assert_that_def)

lemma ok_or_simps [simp]: "ok_or (Some a) e = Ok a" "ok_or None e = Err e"
  by (simp_all add: ok_or_def)

lemma expect_simps [simp]: "expect (Some a) = Ok a" "expect None = Panic"
  by (simp_all add: expect_def)

lemma bind_res_no_Panic: "m \<noteq> Panic \<Longrightarrow> (\<And>a. m = Ok a \<Longrightarrow> f a \<noteq> Panic) \<Longrightarrow> bind_res m f \<noteq> Panic"
  by (cases m) auto

lemma ensure_no_Panic [simp]: "ensure b e \<noteq> Panic"
  by (simp add: ensure_def)

lemma map_err_no_Panic [simp]: "map_err g m = Panic \<longleftrightarrow> m = Panic"
  by (cases m) auto

section \<open>State-passing outcomes\<close>

text \<open>
  A \<open>&mut self\<close> method that returns a \<open>Result\<close>: it yields the outcome and the state it leaves
  behind, which an early return keeps.
\<close>

type_synonym ('s, 'e, 'a) action = "'s \<Rightarrow> ('e, 'a) result \<times> 's"

definition ret :: "'a \<Rightarrow> ('s, 'e, 'a) action" where
  "ret a s = (Ok a, s)"

definition lift_res :: "('e, 'a) result \<Rightarrow> ('s, 'e, 'a) action" where
  "lift_res r s = (r, s)"

definition get_state :: "('s, 'e, 's) action" where
  "get_state s = (Ok s, s)"

definition bindS :: "('s, 'e, 'a) action \<Rightarrow> ('a \<Rightarrow> ('s, 'e, 'b) action) \<Rightarrow> ('s, 'e, 'b) action" where
  "bindS m f s =
     (case m s of
        (Ok a, s') \<Rightarrow> f a s'
      | (Err e, s') \<Rightarrow> (Err e, s')
      | (Panic, s') \<Rightarrow> (Panic, s'))"

lemma bindS_Ok_iff [outcome_simps]:
  "bindS m f s = (Ok b, t) \<longleftrightarrow> (\<exists>a u. m s = (Ok a, u) \<and> f a u = (Ok b, t))"
  by (auto simp: bindS_def split: prod.splits result.splits)

lemma lift_res_Ok_iff [outcome_simps, simp]: "lift_res r s = (Ok a, t) \<longleftrightarrow> r = Ok a \<and> t = s"
  by (auto simp: lift_res_def)

lemma ret_iff [outcome_simps, simp]: "ret a s = (r, t) \<longleftrightarrow> r = Ok a \<and> t = s"
  by (auto simp: ret_def)

lemma get_state_iff [outcome_simps, simp]: "get_state s = (r, t) \<longleftrightarrow> r = Ok s \<and> t = s"
  by (auto simp: get_state_def)

text \<open>
  A state predicate that every step of a sequence keeps is kept by the sequence, whatever the
  outcome: the rule behind the frame properties of the handlers.
\<close>

lemma bindS_keeps:
  assumes "P (snd (m s))" and "\<And>a. m s = (Ok a, snd (m s)) \<Longrightarrow> P (snd (f a (snd (m s))))"
  shows "P (snd (bindS m f s))"
  using assms by (auto simp: bindS_def split: prod.splits result.splits)

lemma lift_res_snd [simp]: "snd (lift_res r s) = s"
  by (simp add: lift_res_def)

lemma ret_snd [simp]: "snd (ret a s) = s"
  by (simp add: ret_def)

lemma get_state_snd [simp]: "snd (get_state s) = s"
  by (simp add: get_state_def)

section \<open>Checked and saturating arithmetic\<close>

definition u64_max :: u64 where
  "u64_max = - 1"

definition checked_add :: "u64 \<Rightarrow> u64 \<Rightarrow> u64 option" where
  "checked_add a b = (if unat a + unat b < 2 ^ 64 then Some (a + b) else None)"

definition checked_sub :: "u64 \<Rightarrow> u64 \<Rightarrow> u64 option" where
  "checked_sub a b = (if b \<le> a then Some (a - b) else None)"

definition saturating_add :: "u64 \<Rightarrow> u64 \<Rightarrow> u64" where
  "saturating_add a b = (if unat a + unat b < 2 ^ 64 then a + b else u64_max)"

definition saturating_sub :: "u64 \<Rightarrow> u64 \<Rightarrow> u64" where
  "saturating_sub a b = (if b \<le> a then a - b else 0)"

lemma unat_u64_less: "unat (a :: u64) < 2 ^ 64"
  using unsigned_less [of a] by simp

lemma unat_u64_max [simp]: "unat u64_max = 2 ^ 64 - 1"
  by (simp add: u64_max_def unsigned_minus_1_eq_mask mask_eq_exp_minus_1)

lemma unat_add_no_wrap:
  "unat (a :: u64) + unat b < 2 ^ 64 \<Longrightarrow> unat (a + b) = unat a + unat b"
  by (simp add: unat_word_ariths)

lemma checked_add_Some:
  "checked_add a b = Some c \<Longrightarrow> unat c = unat a + unat b"
  by (auto simp: checked_add_def unat_add_no_wrap split: if_splits)

lemma checked_add_Some_iff:
  "checked_add a b = Some c \<longleftrightarrow> unat c = unat a + unat b"
  using checked_add_Some [of a b c] unat_u64_less [of c]
  by (auto simp: checked_add_def unat_add_no_wrap intro: word_unat_eq_iff [THEN iffD2])

lemma checked_add_one_Some:
  "checked_add r 1 = Some r' \<Longrightarrow> unat r' = Suc (unat r)"
  by (drule checked_add_Some) simp

lemma checked_sub_Some:
  "checked_sub a b = Some c \<Longrightarrow> unat c + unat b = unat a"
  by (auto simp: checked_sub_def unat_sub word_le_nat_alt split: if_splits)

lemma unat_saturating_sub: "unat (saturating_sub a b) = unat a - unat b"
  by (auto simp: saturating_sub_def unat_sub word_le_nat_alt)

lemma unat_saturating_add: "unat (saturating_add a b) = min (unat a + unat b) (2 ^ 64 - 1)"
  by (auto simp: saturating_add_def unat_add_no_wrap)

section \<open>Ordered maps\<close>

text \<open>
  What the clients of a \<open>BTreeMap\<close> rely on: look-up after each operation, and that iteration
  visits the keys in strictly increasing order.
\<close>

locale ordered_map =
  fixes empty :: "'m"
    and get :: "'m \<Rightarrow> 'k :: linorder \<Rightarrow> 'v option"
    and insert :: "'k \<Rightarrow> 'v \<Rightarrow> 'm \<Rightarrow> 'm"
    and remove :: "'k \<Rightarrow> 'm \<Rightarrow> 'm"
    and keys :: "'m \<Rightarrow> 'k list"
    and wf :: "'m \<Rightarrow> bool"
  assumes wf_empty: "wf empty"
    and wf_insert: "wf m \<Longrightarrow> wf (insert k v m)"
    and wf_remove: "wf m \<Longrightarrow> wf (remove k m)"
    and get_empty: "get empty k = None"
    and get_insert: "wf m \<Longrightarrow> get (insert k v m) k' = (if k' = k then Some v else get m k')"
    and get_remove: "wf m \<Longrightarrow> get (remove k m) k' = (if k' = k then None else get m k')"
    and keys_sorted: "wf m \<Longrightarrow> sorted_wrt (<) (keys m)"
    and keys_get: "wf m \<Longrightarrow> k \<in> set (keys m) \<longleftrightarrow> get m k \<noteq> None"
begin

lemma keys_distinct: "wf m \<Longrightarrow> distinct (keys m)"
  using keys_sorted strict_sorted_iff by blast

lemma set_keys_insert: "wf m \<Longrightarrow> set (keys (insert k v m)) = Set.insert k (set (keys m))"
  by (auto simp: keys_get wf_insert get_insert split: if_splits)

lemma set_keys_remove: "wf m \<Longrightarrow> set (keys (remove k m)) = set (keys m) - {k}"
  by (auto simp: keys_get wf_remove get_remove split: if_splits)

lemma length_keys_insert:
  assumes "wf m"
  shows "length (keys (insert k v m)) = (if get m k = None then Suc (length (keys m)) else length (keys m))"
proof -
  have "length (keys (insert k v m)) = card (Set.insert k (set (keys m)))"
    using assms by (metis distinct_card keys_distinct set_keys_insert wf_insert)
  then show ?thesis
    using assms by (auto simp: card_insert_if keys_get distinct_card keys_distinct)
qed

end

type_synonym ('k, 'v) btree_map = "('k \<times> 'v) list"

definition bt_wf :: "('k :: linorder, 'v) btree_map \<Rightarrow> bool" where
  "bt_wf m \<longleftrightarrow> sorted_wrt (<) (map fst m)"

abbreviation bt_get :: "('k, 'v) btree_map \<Rightarrow> 'k \<Rightarrow> 'v option" where
  "bt_get \<equiv> map_of"

abbreviation bt_keys :: "('k, 'v) btree_map \<Rightarrow> 'k list" where
  "bt_keys m \<equiv> map fst m"

abbreviation bt_values :: "('k, 'v) btree_map \<Rightarrow> 'v list" where
  "bt_values m \<equiv> map snd m"

fun bt_insert :: "'k :: linorder \<Rightarrow> 'v \<Rightarrow> ('k, 'v) btree_map \<Rightarrow> ('k, 'v) btree_map" where
  "bt_insert k v [] = [(k, v)]"
| "bt_insert k v ((a, b) # m) =
     (if k < a then (k, v) # (a, b) # m
      else if k = a then (k, v) # m
      else (a, b) # bt_insert k v m)"

text \<open>\<open>map.entry(k).or_insert(v)\<close> keeps the value that is already there.\<close>

definition bt_or_insert :: "'k :: linorder \<Rightarrow> 'v \<Rightarrow> ('k, 'v) btree_map \<Rightarrow> ('k, 'v) btree_map" where
  "bt_or_insert k v m = (case bt_get m k of None \<Rightarrow> bt_insert k v m | Some _ \<Rightarrow> m)"

definition bt_remove :: "'k \<Rightarrow> ('k, 'v) btree_map \<Rightarrow> ('k, 'v) btree_map" where
  "bt_remove k m = filter (\<lambda>p. fst p \<noteq> k) m"

lemma set_bt_keys_insert: "set (bt_keys (bt_insert k v m)) = insert k (set (bt_keys m))"
  by (induction k v m rule: bt_insert.induct) auto

lemma set_bt_insert_fresh: "k \<notin> set (bt_keys m) \<Longrightarrow> set (bt_insert k v m) = insert (k, v) (set m)"
  by (induction k v m rule: bt_insert.induct) auto

lemma bt_wf_insert: "bt_wf m \<Longrightarrow> bt_wf (bt_insert k v m)"
proof (induction k v m rule: bt_insert.induct)
  case (1 k v)
  then show ?case by (simp add: bt_wf_def)
next
  case (2 k v a b m)
  have keys: "set (bt_keys (bt_insert k v m)) = insert k (set (bt_keys m))"
    by (rule set_bt_keys_insert)
  consider "k < a" | "k = a" | "a < k"
    by (rule linorder_cases)
  then show ?case
  proof cases
    case 1
    then show ?thesis
      using "2.prems" by (auto simp: bt_wf_def intro: order.strict_trans)
  next
    case 2
    then show ?thesis
      using "2.prems" by (auto simp: bt_wf_def)
  next
    case 3
    then have tail: "bt_wf (bt_insert k v m)"
      using 2 by (auto simp: bt_wf_def)
    have "a < x" if "x \<in> set (bt_keys (bt_insert k v m))" for x
      using that 3 "2.prems" keys by (auto simp: bt_wf_def)
    then show ?thesis
      using tail 3 by (auto simp: bt_wf_def dest: order.asym)
  qed
qed

lemma bt_get_insert [simp]:
  "bt_get (bt_insert k v m) k' = (if k' = k then Some v else bt_get m k')"
  by (induction k v m rule: bt_insert.induct) auto

lemma bt_get_remove [simp]: "bt_get (bt_remove k m) k' = (if k' = k then None else bt_get m k')"
  by (induction m) (auto simp: bt_remove_def)

lemma bt_wf_remove: "bt_wf m \<Longrightarrow> bt_wf (bt_remove k m)"
  by (induction m) (auto simp: bt_wf_def bt_remove_def)

lemma bt_wf_distinct: "bt_wf m \<Longrightarrow> distinct (bt_keys m)"
  using strict_sorted_iff by (auto simp: bt_wf_def)

lemma bt_wf_empty [simp]: "bt_wf []"
  by (simp add: bt_wf_def)

interpretation bt: ordered_map "[] :: ('k :: linorder, 'v) btree_map"
  bt_get bt_insert bt_remove bt_keys bt_wf
  by unfold_locales
    (auto simp: bt_wf_insert bt_wf_remove map_of_eq_None_iff, simp add: bt_wf_def)

lemma bt_wf_or_insert: "bt_wf m \<Longrightarrow> bt_wf (bt_or_insert k v m)"
  by (simp add: bt_or_insert_def bt_wf_insert split: option.split)

lemma bt_get_or_insert [simp]:
  "bt_get (bt_or_insert k v m) k' =
     (if k' = k \<and> bt_get m k = None then Some v else bt_get m k')"
  by (simp add: bt_or_insert_def split: option.split)

lemma set_bt_keys_or_insert: "set (bt_keys (bt_or_insert k v m)) = insert k (set (bt_keys m))"
proof (cases "bt_get m k")
  case None
  then show ?thesis
    using set_bt_keys_insert [of k v m] by (simp add: bt_or_insert_def)
next
  case (Some w)
  then have "k \<in> set (bt_keys m)"
    by (force dest: map_of_SomeD)
  with Some show ?thesis by (auto simp: bt_or_insert_def)
qed

end
