(* ===== verification/Validator_Verifier.thy ===== *)
theory Validator_Verifier
  imports Diem_Prelude
begin

text \<open>
  The validator set of an epoch and the verification of (aggregated) signatures against it:
  \<^verbatim>\<open>types/src/validator_verifier.rs\<close>.

  Ed25519 itself (\<open>verify_struct_signature\<close> and \<open>batch_verify\<close>, which end in the dalek
  crate) is the parameter \<open>sig_ops\<close>, one per type of signed message. Two facts carry the rest
  of the development: what a successful \<open>check_voting_power\<close> means, and that two quorums
  of a verifier share an author outside every set of less than a third of the voting power.
\<close>

section \<open>Signatures\<close>

record 'm sig_ops =
  sig_verify :: "public_key \<Rightarrow> 'm \<Rightarrow> signature \<Rightarrow> bool"
  sig_batch :: "'m \<Rightarrow> (public_key \<times> signature) list \<Rightarrow> bool"

text \<open>
  Documented behaviour of batch verification: it accepts only if every signature of the batch
  is valid (\<open>batch_sound\<close>), and it accepts a batch of valid signatures (\<open>batch_complete\<close>).
\<close>

definition batch_sound :: "'m sig_ops \<Rightarrow> bool" where
  "batch_sound ops \<longleftrightarrow>
     (\<forall>m ks. sig_batch ops m ks \<longrightarrow> (\<forall>(pk, sg) \<in> set ks. sig_verify ops pk m sg))"

definition batch_complete :: "'m sig_ops \<Rightarrow> bool" where
  "batch_complete ops \<longleftrightarrow>
     (\<forall>m ks. (\<forall>(pk, sg) \<in> set ks. sig_verify ops pk m sg) \<longrightarrow> sig_batch ops m ks)"

section \<open>Data\<close>

datatype verify_error =
    UnknownAuthor
  | TooLittleVotingPower u64 u64
  | TooManySignatures nat nat
  | InvalidSignature
  | InconsistentBlockInfo

record validator_consensus_info =
  vci_public_key :: public_key
  vci_voting_power :: u64

record validator_verifier =
  address_to_validator_info :: "(account_address, validator_consensus_info) btree_map"
  quorum_voting_power :: u64
  total_voting_power :: u64

section \<open>Operations\<close>

fun sum_voting_power_from :: "u64 \<Rightarrow> validator_consensus_info list \<Rightarrow> ('e, u64) result" where
  "sum_voting_power_from acc [] = Ok acc"
| "sum_voting_power_from acc (x # xs) =
     bind_res (expect (checked_add acc (vci_voting_power x))) (\<lambda>acc'. sum_voting_power_from acc' xs)"

definition sum_voting_power ::
    "(account_address, validator_consensus_info) btree_map \<Rightarrow> ('e, u64) result" where
  "sum_voting_power m = sum_voting_power_from 0 (bt_values m)"

definition validator_verifier_new ::
    "(account_address, validator_consensus_info) btree_map \<Rightarrow> ('e, validator_verifier) result" where
  "validator_verifier_new m =
     bind_res (sum_voting_power m) (\<lambda>total.
       Ok \<lparr>address_to_validator_info = m,
           quorum_voting_power = (if m = [] then 0 else total * 2 div 3 + 1),
           total_voting_power = total\<rparr>)"

definition validator_verifier_new_single ::
    "account_address \<Rightarrow> public_key \<Rightarrow> ('e, validator_verifier) result" where
  "validator_verifier_new_single author pk =
     validator_verifier_new (bt_insert author \<lparr>vci_public_key = pk, vci_voting_power = 1\<rparr> [])"

definition get_public_key :: "validator_verifier \<Rightarrow> account_address \<Rightarrow> public_key option" where
  "get_public_key v author =
     map_option vci_public_key (bt_get (address_to_validator_info v) author)"

definition get_voting_power :: "validator_verifier \<Rightarrow> account_address \<Rightarrow> u64 option" where
  "get_voting_power v author =
     map_option vci_voting_power (bt_get (address_to_validator_info v) author)"

definition get_ordered_account_addresses :: "validator_verifier \<Rightarrow> account_address list" where
  "get_ordered_account_addresses v = bt_keys (address_to_validator_info v)"

definition verifier_len :: "validator_verifier \<Rightarrow> nat" where
  "verifier_len v = length (address_to_validator_info v)"

definition verifier_is_empty :: "validator_verifier \<Rightarrow> bool" where
  "verifier_is_empty v \<longleftrightarrow> verifier_len v = 0"

definition verify ::
    "'m sig_ops \<Rightarrow> validator_verifier \<Rightarrow> account_address \<Rightarrow> 'm \<Rightarrow> signature
      \<Rightarrow> (verify_error, unit) result" where
  "verify ops v author message sg =
     (case get_public_key v author of
        Some pk \<Rightarrow> (if \<not> sig_verify ops pk message sg then Err InvalidSignature else Ok ())
      | None \<Rightarrow> Err UnknownAuthor)"

definition check_num_of_signatures ::
    "validator_verifier \<Rightarrow> (account_address, signature) btree_map \<Rightarrow> (verify_error, unit) result" where
  "check_num_of_signatures v sigs =
     (let num_of_signatures = length sigs
      in if num_of_signatures > verifier_len v
         then Err (TooManySignatures num_of_signatures (verifier_len v)) else Ok ())"

text \<open>The loop adds with wrap-around; \<open>check_voting_power_iff\<close> below shows that it never wraps.\<close>

fun aggregate_voting_power ::
    "validator_verifier \<Rightarrow> u64 \<Rightarrow> account_address list \<Rightarrow> (verify_error, u64) result" where
  "aggregate_voting_power v acc [] = Ok acc"
| "aggregate_voting_power v acc (a # as) =
     (case get_voting_power v a of
        Some p \<Rightarrow> aggregate_voting_power v (acc + p) as
      | None \<Rightarrow> Err UnknownAuthor)"

definition check_voting_power ::
    "validator_verifier \<Rightarrow> account_address list \<Rightarrow> (verify_error, unit) result" where
  "check_voting_power v authors =
     bind_res (aggregate_voting_power v 0 authors) (\<lambda>aggregated.
       if aggregated < quorum_voting_power v
       then Err (TooLittleVotingPower aggregated (quorum_voting_power v)) else Ok ())"

fun verify_each ::
    "'m sig_ops \<Rightarrow> validator_verifier \<Rightarrow> 'm \<Rightarrow> (account_address \<times> signature) list
      \<Rightarrow> (verify_error, unit) result" where
  "verify_each ops v message [] = Ok ()"
| "verify_each ops v message ((author, sg) # rest) =
     bind_res (verify ops v author message sg) (\<lambda>_. verify_each ops v message rest)"

definition verify_aggregated_struct_signature ::
    "'m sig_ops \<Rightarrow> validator_verifier \<Rightarrow> 'm \<Rightarrow> (account_address, signature) btree_map
      \<Rightarrow> (verify_error, unit) result" where
  "verify_aggregated_struct_signature ops v message sigs =
     bind_res (check_num_of_signatures v sigs) (\<lambda>_.
     bind_res (check_voting_power v (bt_keys sigs)) (\<lambda>_.
     verify_each ops v message sigs))"

fun keys_and_signatures ::
    "validator_verifier \<Rightarrow> (account_address \<times> signature) list \<Rightarrow> (public_key \<times> signature) list" where
  "keys_and_signatures v [] = []"
| "keys_and_signatures v ((a, sg) # rest) =
     (case get_public_key v a of
        Some pk \<Rightarrow> (pk, sg) # keys_and_signatures v rest
      | None \<Rightarrow> keys_and_signatures v rest)"

definition batch_verify_aggregated_signatures ::
    "'m sig_ops \<Rightarrow> validator_verifier \<Rightarrow> 'm \<Rightarrow> (account_address, signature) btree_map
      \<Rightarrow> (verify_error, unit) result" where
  "batch_verify_aggregated_signatures ops v message sigs =
     bind_res (check_num_of_signatures v sigs) (\<lambda>_.
     bind_res (check_voting_power v (bt_keys sigs)) (\<lambda>_.
     if \<not> sig_batch ops message (keys_and_signatures v sigs)
     then verify_aggregated_struct_signature ops v message sigs else Ok ()))"

section \<open>Specification: voting power of a set of authors\<close>

definition author_power :: "validator_verifier \<Rightarrow> account_address \<Rightarrow> nat" where
  "author_power v a = (case get_voting_power v a of Some p \<Rightarrow> unat p | None \<Rightarrow> 0)"

definition power_of :: "validator_verifier \<Rightarrow> account_address set \<Rightarrow> nat" where
  "power_of v A = (\<Sum>a\<in>A. author_power v a)"

text \<open>What \<open>validator_verifier_new\<close> establishes.\<close>

definition wf_verifier :: "validator_verifier \<Rightarrow> bool" where
  "wf_verifier v \<longleftrightarrow>
     bt_wf (address_to_validator_info v) \<and>
     unat (total_voting_power v) = (\<Sum>x\<leftarrow>bt_values (address_to_validator_info v). unat (vci_voting_power x)) \<and>
     quorum_voting_power v =
       (if address_to_validator_info v = [] then 0 else total_voting_power v * 2 div 3 + 1)"

text \<open>The multiplication \<open>total_voting_power * 2\<close> of the constructor does not wrap around.\<close>

definition quorum_fits :: "validator_verifier \<Rightarrow> bool" where
  "quorum_fits v \<longleftrightarrow> 2 * unat (total_voting_power v) < 2 ^ 64"

lemma sum_voting_power_from_Ok:
  "sum_voting_power_from acc xs = (Ok t :: ('e, u64) result) \<Longrightarrow>
     unat t = unat acc + (\<Sum>x\<leftarrow>xs. unat (vci_voting_power x))"
proof (induction xs arbitrary: acc)
  case Nil
  then show ?case by simp
next
  case (Cons x xs)
  from Cons.prems obtain acc' where "checked_add acc (vci_voting_power x) = Some acc'"
    and "sum_voting_power_from acc' xs = (Ok t :: ('e, u64) result)"
    by (auto simp: outcome_simps)
  then show ?case
    using Cons.IH [of acc'] checked_add_Some by fastforce
qed

lemma validator_verifier_new_wf:
  assumes "validator_verifier_new m = (Ok v :: ('e, validator_verifier) result)" and "bt_wf m"
  shows "wf_verifier v"
proof -
  from assms(1) obtain t where t: "sum_voting_power_from 0 (bt_values m) = (Ok t :: ('e, u64) result)"
    and v: "v = \<lparr>address_to_validator_info = m,
           quorum_voting_power = (if m = [] then 0 else t * 2 div 3 + 1), total_voting_power = t\<rparr>"
    by (auto simp: validator_verifier_new_def sum_voting_power_def bind_res_Ok_iff)
  show ?thesis
    using sum_voting_power_from_Ok [OF t] assms(2) by (simp add: wf_verifier_def v)
qed

lemma power_of_all:
  assumes "wf_verifier v"
  shows "power_of v (set (bt_keys (address_to_validator_info v))) = unat (total_voting_power v)"
proof -
  let ?m = "address_to_validator_info v"
  have dist: "distinct (bt_keys ?m)"
    using assms bt_wf_distinct by (auto simp: wf_verifier_def)
  have "author_power v (fst p) = unat (vci_voting_power (snd p))" if "p \<in> set ?m" for p
    using that dist by (cases p rule: prod.exhaust) (simp add: author_power_def get_voting_power_def)
  then have "(\<Sum>p\<leftarrow>?m. author_power v (fst p)) = (\<Sum>p\<leftarrow>?m. unat (vci_voting_power (snd p)))"
    by (intro arg_cong [where f = sum_list] map_cong) auto
  moreover have "power_of v (set (bt_keys ?m)) = (\<Sum>a\<leftarrow>bt_keys ?m. author_power v a)"
    unfolding power_of_def by (rule sum.distinct_set_conv_list [OF dist])
  ultimately show ?thesis
    using assms by (simp add: wf_verifier_def comp_def)
qed

lemma author_power_unknown:
  "a \<notin> set (bt_keys (address_to_validator_info v)) \<Longrightarrow> author_power v a = 0"
  by (auto simp: author_power_def get_voting_power_def map_of_eq_None_iff [symmetric] split: option.split)

lemma power_of_mono: "finite B \<Longrightarrow> A \<subseteq> B \<Longrightarrow> power_of v A \<le> power_of v B"
  by (simp add: power_of_def sum_mono2)

lemma power_of_le_total:
  assumes "wf_verifier v" "finite A"
  shows "power_of v A \<le> unat (total_voting_power v)"
proof -
  let ?K = "set (bt_keys (address_to_validator_info v))"
  have "power_of v A = power_of v (A \<inter> ?K)"
    using assms(2) unfolding power_of_def
    by (intro sum.mono_neutral_right) (auto simp: author_power_unknown)
  also have "\<dots> \<le> power_of v ?K"
    by (simp add: power_of_mono)
  finally show ?thesis
    using power_of_all [OF assms(1)] by simp
qed

lemma power_of_Un_Int:
  "finite A \<Longrightarrow> finite B \<Longrightarrow> power_of v (A \<union> B) + power_of v (A \<inter> B) = power_of v A + power_of v B"
  by (simp add: power_of_def sum.union_inter)

section \<open>What a successful check means\<close>

lemma aggregate_voting_power_iff:
  assumes "wf_verifier v"
  shows "unat acc + power_of v (set as) < 2 ^ 64 \<Longrightarrow> distinct as \<Longrightarrow>
     aggregate_voting_power v acc as = Ok p \<longleftrightarrow>
       (\<forall>a \<in> set as. get_voting_power v a \<noteq> None) \<and> unat p = unat acc + power_of v (set as)"
proof (induction as arbitrary: acc)
  case Nil
  then show ?case by (auto simp: power_of_def word_unat_eq_iff)
next
  case (Cons a as)
  show ?case
  proof (cases "get_voting_power v a")
    case None
    then show ?thesis by simp
  next
    case (Some q)
    then have pow: "power_of v (set (a # as)) = unat q + power_of v (set as)"
      using Cons.prems(2) by (simp add: power_of_def author_power_def)
    then have acc: "unat (acc + q) = unat acc + unat q"
      using Cons.prems(1) by (intro unat_add_no_wrap) simp
    show ?thesis
      using Cons.IH [of "acc + q"] Cons.prems pow acc Some by auto
  qed
qed

lemma check_voting_power_iff:
  assumes "wf_verifier v" and "distinct as"
  shows "check_voting_power v as = Ok () \<longleftrightarrow>
     (\<forall>a \<in> set as. get_voting_power v a \<noteq> None) \<and>
     unat (quorum_voting_power v) \<le> power_of v (set as)"
proof -
  have bound: "unat (0 :: u64) + power_of v (set as) < 2 ^ 64"
    using power_of_le_total [OF assms(1), of "set as"] unat_u64_less [of "total_voting_power v"]
    by simp
  have agg: "aggregate_voting_power v 0 as = Ok p \<longleftrightarrow>
      (\<forall>a \<in> set as. get_voting_power v a \<noteq> None) \<and> unat p = power_of v (set as)" for p
    using aggregate_voting_power_iff [OF assms(1) bound assms(2)] by simp
  have "unat (word_of_nat (power_of v (set as)) :: u64) = power_of v (set as)"
    using bound by (simp add: unat_of_nat)
  then obtain p :: u64 where "unat p = power_of v (set as)"
    by blast
  then show ?thesis
    using agg [of p] agg
    by (auto simp: check_voting_power_def bind_res_Ok_iff word_less_nat_alt
        split: if_splits intro!: exI [of _ p])
qed

lemma verify_each_Ok_iff:
  "verify_each ops v message sigs = Ok () \<longleftrightarrow>
     (\<forall>(a, sg) \<in> set sigs. \<exists>pk. get_public_key v a = Some pk \<and> sig_verify ops pk message sg)"
  by (induction ops v message sigs rule: verify_each.induct)
    (auto simp: bind_res_Ok_iff verify_def split: option.splits)

lemma set_keys_and_signatures:
  "set (keys_and_signatures v sigs) =
     {(pk, sg). \<exists>a. (a, sg) \<in> set sigs \<and> get_public_key v a = Some pk}"
  by (induction v sigs rule: keys_and_signatures.induct) (auto split: option.splits)

lemma get_public_key_known: "get_public_key v a = None \<longleftrightarrow> get_voting_power v a = None"
  by (simp add: get_public_key_def get_voting_power_def)

lemma unat_quorum:
  assumes "wf_verifier v" "quorum_fits v" "address_to_validator_info v \<noteq> []"
  shows "unat (quorum_voting_power v) = 2 * unat (total_voting_power v) div 3 + 1"
proof -
  let ?t = "total_voting_power v"
  have two: "unat (?t * 2) = 2 * unat ?t"
    using assms(2) by (simp add: quorum_fits_def unat_word_ariths)
  then have "unat (?t * 2 div 3) = 2 * unat ?t div 3"
    by (simp add: unat_div_distrib)
  then show ?thesis
    using assms two by (simp add: wf_verifier_def quorum_fits_def unat_word_ariths)
qed

section \<open>Quorums\<close>

text \<open>A set of authors is a quorum when \<open>check_voting_power\<close> accepts it.\<close>

definition is_quorum :: "validator_verifier \<Rightarrow> account_address set \<Rightarrow> bool" where
  "is_quorum v Q \<longleftrightarrow> (\<exists>as. distinct as \<and> set as = Q \<and> check_voting_power v as = Ok ())"

text \<open>Fewer than a third of the voting power is held outside the honest authors.\<close>

definition byzantine_bound :: "validator_verifier \<Rightarrow> account_address set \<Rightarrow> bool" where
  "byzantine_bound v byz \<longleftrightarrow>
     wf_verifier v \<and> quorum_fits v \<and> finite byz \<and> 3 * power_of v byz < unat (total_voting_power v)"

lemma quorums_share_honest:
  assumes bound: "byzantine_bound v byz" and Q: "is_quorum v Q" and R: "is_quorum v R"
  shows "\<exists>a \<in> Q \<inter> R. a \<notin> byz"
proof (rule ccontr)
  assume "\<not> ?thesis"
  then have sub: "Q \<inter> R \<subseteq> byz" by auto
  have wf: "wf_verifier v" and fits: "quorum_fits v" and fin: "finite byz"
    and third: "3 * power_of v byz < unat (total_voting_power v)"
    using bound by (auto simp: byzantine_bound_def)
  have "address_to_validator_info v \<noteq> []"
    using wf third by (auto simp: wf_verifier_def)
  then have q: "unat (quorum_voting_power v) = 2 * unat (total_voting_power v) div 3 + 1"
    using unat_quorum wf fits by blast
  have "unat (quorum_voting_power v) \<le> power_of v Q" "finite Q"
    and "unat (quorum_voting_power v) \<le> power_of v R" "finite R"
    using Q R check_voting_power_iff [OF wf] by (auto simp: is_quorum_def)
  moreover have "power_of v (Q \<union> R) \<le> unat (total_voting_power v)"
    using wf calculation by (intro power_of_le_total) auto
  moreover have "power_of v (Q \<inter> R) \<le> power_of v byz"
    using fin sub by (rule power_of_mono)
  moreover have "power_of v (Q \<union> R) + power_of v (Q \<inter> R) = power_of v Q + power_of v R"
    using calculation by (simp add: power_of_Un_Int)
  ultimately show False
    using q third by linarith
qed

text \<open>
  The contract the consensus protocol needs of a validator set, stated for a family of
  configurations so that it can be discharged for the verifiers themselves.
\<close>

locale byzantine_quorums =
  fixes admissible :: "'c \<Rightarrow> bool"
    and quorum :: "'c \<Rightarrow> 'a set \<Rightarrow> bool"
    and faulty :: "'c \<Rightarrow> 'a set"
  assumes share: "admissible c \<Longrightarrow> quorum c Q \<Longrightarrow> quorum c R \<Longrightarrow> \<exists>a \<in> Q \<inter> R. a \<notin> faulty c"
begin

lemma quorum_has_honest: "admissible c \<Longrightarrow> quorum c Q \<Longrightarrow> \<exists>a \<in> Q. a \<notin> faulty c"
  using share [of c Q Q] by auto

text \<open>
  If honest authors back at most one value, two values that are each backed by a quorum are
  equal: the core of every uniqueness argument of the protocol.
\<close>

lemma unique_backing:
  assumes "admissible c" "quorum c Q" "quorum c R"
    and "\<And>a. a \<in> Q \<Longrightarrow> a \<notin> faulty c \<Longrightarrow> backs a x"
    and "\<And>a. a \<in> R \<Longrightarrow> a \<notin> faulty c \<Longrightarrow> backs a y"
    and "\<And>a. a \<notin> faulty c \<Longrightarrow> backs a x \<Longrightarrow> backs a y \<Longrightarrow> x = y"
  shows "x = y"
  using share [OF assms(1-3)] assms(4-6) by blast

end

interpretation vq: byzantine_quorums
  "\<lambda>(v, byz). byzantine_bound v byz" "\<lambda>(v, byz). is_quorum v" "\<lambda>(v, byz). byz"
  by unfold_locales (auto dest: quorums_share_honest)

section \<open>Properties\<close>

lemma aggregate_Ok_known:
  "aggregate_voting_power v acc as = Ok p \<Longrightarrow> a \<in> set as \<Longrightarrow> get_voting_power v a \<noteq> None"
  by (induction v acc as rule: aggregate_voting_power.induct) (auto split: option.splits)

lemma check_voting_power_known:
  "check_voting_power v as = Ok () \<Longrightarrow> a \<in> set as \<Longrightarrow> get_public_key v a \<noteq> None"
  by (auto simp: check_voting_power_def bind_res_Ok_iff get_public_key_known dest: aggregate_Ok_known)

lemma known_authors_le:
  assumes "bt_wf sigs" "\<And>a. a \<in> set (bt_keys sigs) \<Longrightarrow> get_voting_power v a \<noteq> None"
  shows "length sigs \<le> verifier_len v"
proof -
  let ?m = "address_to_validator_info v"
  have "set (bt_keys sigs) \<subseteq> set (bt_keys ?m)"
    using assms(2) by (force simp: get_voting_power_def dest: map_of_SomeD)
  then have "card (set (bt_keys sigs)) \<le> card (set (bt_keys ?m))"
    by (intro card_mono) auto
  also have "\<dots> \<le> length ?m"
    using card_length [of "bt_keys ?m"] by simp
  finally show ?thesis
    using distinct_card [OF bt_wf_distinct [OF assms(1)]] by (simp add: verifier_len_def)
qed

definition four_validators :: "(account_address, validator_consensus_info) btree_map" where
  "four_validators =
     [(1, \<lparr>vci_public_key = 11, vci_voting_power = 1\<rparr>), (2, \<lparr>vci_public_key = 12, vci_voting_power = 1\<rparr>),
      (3, \<lparr>vci_public_key = 13, vci_voting_power = 1\<rparr>), (4, \<lparr>vci_public_key = 14, vci_voting_power = 1\<rparr>)]"

definition four_verifier :: validator_verifier where
  "four_verifier =
     \<lparr>address_to_validator_info = four_validators, quorum_voting_power = 3, total_voting_power = 4\<rparr>"

lemma bt_wf_four_validators: "bt_wf four_validators"
  by (simp add: four_validators_def bt_wf_def)

lemma four_verifier_new: "validator_verifier_new four_validators = Ok four_verifier"
  by (simp add: validator_verifier_new_def sum_voting_power_def four_validators_def
      four_verifier_def checked_add_def expect_def)

lemma wf_four_verifier: "wf_verifier four_verifier"
  by (rule validator_verifier_new_wf [OF four_verifier_new bt_wf_four_validators])

definition toy_sig_ops :: "'m sig_ops" where
  "toy_sig_ops = \<lparr>sig_verify = (\<lambda>pk m sg. sg = ucast pk), sig_batch = (\<lambda>m. list_all (\<lambda>(pk, sg). sg = ucast pk))\<rparr>"

lemma toy_batch_sound: "batch_sound toy_sig_ops"
  by (auto simp: batch_sound_def toy_sig_ops_def list_all_iff)

lemma four_check: "check_voting_power four_verifier [1, 2, 3] = Ok ()"
  "check_voting_power four_verifier [2, 3, 4] = Ok ()"
  by (simp_all add: check_voting_power_def four_verifier_def four_validators_def get_voting_power_def)

lemma four_power: "power_of four_verifier {3} = 1" "quorum_fits four_verifier"
  by (simp_all add: power_of_def author_power_def four_verifier_def four_validators_def
      get_voting_power_def quorum_fits_def)

text \<open>C13: Quorum intersection. For a validator set accepted by \<open>ValidatorVerifier::new\<close> whose
  doubled total power fits in 64 bits, two lists of distinct authors that both pass
  \<open>check_voting_power\<close> share an author outside any set holding less than a third of the power.\<close>

theorem quorum_intersection:
  assumes "validator_verifier_new m = (Ok v :: (verify_error, validator_verifier) result)" "bt_wf m"
    and "2 * unat (total_voting_power v) < 2 ^ 64"
    and "finite byz" "3 * power_of v byz < unat (total_voting_power v)"
    and "distinct as" "check_voting_power v as = Ok ()"
    and "distinct bs" "check_voting_power v bs = Ok ()"
  shows "\<exists>a. a \<in> set as \<and> a \<in> set bs \<and> a \<notin> byz"
proof -
  have "byzantine_bound v byz"
    using assms validator_verifier_new_wf [OF assms(1,2)]
    by (simp add: byzantine_bound_def quorum_fits_def)
  moreover have "is_quorum v (set as)" "is_quorum v (set bs)"
    using assms by (auto simp: is_quorum_def)
  ultimately show ?thesis
    using vq.share [of "(v, byz)" "set as" "set bs"] by auto
qed

theorem quorum_intersection_witness:
  "\<exists>a. a \<in> set [1, 2, 3] \<and> a \<in> set [2, 3, 4] \<and> a \<notin> {3 :: account_address}"
  by (rule quorum_intersection [OF four_verifier_new bt_wf_four_validators])
    (use four_power four_check in \<open>simp_all add: quorum_fits_def four_verifier_def\<close>)

text \<open>C14: Aggregated verification accepts exactly the signature maps in which every signer is a
  validator, every signature is valid for the message and the signers hold at least the quorum
  voting power (a sum over the naturals: the wrapping addition of the loop never wraps).\<close>

theorem verify_aggregated_struct_signature_iff:
  assumes "wf_verifier v" and "bt_wf sigs"
  shows "verify_aggregated_struct_signature ops v message sigs = Ok () \<longleftrightarrow>
    (\<forall>a sg. (a, sg) \<in> set sigs \<longrightarrow>
       (\<exists>pk. get_public_key v a = Some pk \<and> sig_verify ops pk message sg)) \<and>
    unat (quorum_voting_power v) \<le> (\<Sum>a \<in> set (bt_keys sigs). author_power v a)"
proof -
  note iff = check_voting_power_iff [OF assms(1) bt_wf_distinct [OF assms(2)]]
  have "length sigs \<le> verifier_len v" if "check_voting_power v (bt_keys sigs) = Ok ()"
    using known_authors_le [OF assms(2)] that iff by blast
  moreover have "get_voting_power v a \<noteq> None"
    if "verify_each ops v message sigs = Ok ()" "a \<in> set (bt_keys sigs)" for a
    using that get_public_key_known [of v a] by (force simp: verify_each_Ok_iff)
  ultimately show ?thesis
    using iff
    by (fastforce simp: verify_aggregated_struct_signature_def bind_res_Ok_iff verify_each_Ok_iff
        check_num_of_signatures_def power_of_def Let_def)
qed

theorem verify_aggregated_struct_signature_iff_witness:
  "verify_aggregated_struct_signature toy_sig_ops four_verifier (0 :: u8) [(1, 11), (2, 12), (4, 14)] = Ok ()"
  by (subst verify_aggregated_struct_signature_iff [OF wf_four_verifier])
    (auto simp: bt_wf_def toy_sig_ops_def four_verifier_def four_validators_def author_power_def
      get_public_key_def get_voting_power_def)



text \<open>C35: The quorum of a validator set is exactly \<open>2 T mod 2^64 div 3 + 1\<close> for its total power \<open>T\<close>: the
  multiplication of the constructor is unchecked. The quorum exceeds two thirds of the power if
  and only if \<open>2 T\<close> fits in 64 bits; the overflow check of \<open>sum_voting_power\<close> also accepts larger
  totals, for which the quorum is too small.\<close>

theorem quorum_voting_power_wraps:
  assumes "validator_verifier_new m = (Ok v :: (verify_error, validator_verifier) result)" "m \<noteq> []"
  shows "unat (quorum_voting_power v) = 2 * unat (total_voting_power v) mod 2 ^ 64 div 3 + 1 \<and>
    (2 * unat (total_voting_power v) < 3 * unat (quorum_voting_power v) \<longleftrightarrow> quorum_fits v)"
proof -
  let ?t = "total_voting_power v"
  let ?d = "2 * unat ?t"
  have "quorum_voting_power v = ?t * 2 div 3 + 1"
    using assms by (auto simp: validator_verifier_new_def bind_res_Ok_iff)
  moreover have "unat (?t * 2) = ?d mod 2 ^ 64"
    by (simp add: unat_word_ariths mult.commute)
  then have "unat (?t * 2 div 3) = ?d mod 2 ^ 64 div 3"
    by (simp add: unat_div_distrib)
  ultimately have q: "unat (quorum_voting_power v) = ?d mod 2 ^ 64 div 3 + 1"
    by (simp add: unat_add_no_wrap)
  have "?d < 2 * 2 ^ 64" using unat_u64_less [of ?t] by simp
  then have "?d mod 2 ^ 64 = (if ?d < 2 ^ 64 then ?d else ?d - 2 ^ 64)"
    by (simp add: mod_if [of ?d] mod_if [of "?d - 2 ^ 64"])
  then show ?thesis
    using q by (auto simp: quorum_fits_def)
qed

theorem quorum_voting_power_wraps_witness:
  "unat (quorum_voting_power \<lparr>address_to_validator_info = [(1, \<lparr>vci_public_key = 0, vci_voting_power = 2 ^ 63\<rparr>)],
     quorum_voting_power = 1, total_voting_power = 2 ^ 63\<rparr>) = 2 * unat (2 ^ 63 :: u64) mod 2 ^ 64 div 3 + 1"
proof -
  let ?m = "[(1, \<lparr>vci_public_key = 0, vci_voting_power = 2 ^ 63\<rparr>)]"
  have "validator_verifier_new ?m = (Ok \<lparr>address_to_validator_info = ?m, quorum_voting_power = 1,
      total_voting_power = 2 ^ 63\<rparr> :: (verify_error, validator_verifier) result)"
    by (simp add: validator_verifier_new_def sum_voting_power_def checked_add_def expect_def)
  from quorum_voting_power_wraps [OF this] show ?thesis by simp
qed

end
