(* ===== verification/Hash_Value.thy ===== *)
theory Hash_Value
  imports Diem_Prelude
begin

unbundle bit_operations_syntax

text \<open>
  Hash values: \<^verbatim>\<open>crates/diem-crypto/src/hash.rs\<close>. A \<open>HashValue\<close> wraps 32 bytes; it is a
  \<open>256 word\<close> here, read most significant byte first, so that the derived ordering of the byte
  array is the ordering of the words. The theory models the conversions between bytes, bits and
  hash values, on which the addressing of the Merkle trees rests. Sha3 is not part of the
  repository and stays a parameter of the definitions that hash.
\<close>

section \<open>Operations\<close>

abbreviation (input) LENGTH_BYTES :: nat where "LENGTH_BYTES \<equiv> 32"

abbreviation (input) LENGTH_IN_BITS :: nat where "LENGTH_IN_BITS \<equiv> 256"

definition hash_to_vec :: "hash_value \<Rightarrow> u8 list" where
  "hash_to_vec h = map (\<lambda>i. ucast (drop_bit (8 * (LENGTH_BYTES - 1 - i)) h)) [0..<LENGTH_BYTES]"

definition hash_new :: "u8 list \<Rightarrow> hash_value" where
  "hash_new bs = foldl (\<lambda>acc b. push_bit 8 acc OR ucast b) 0 bs"

datatype hash_value_parse_error = HashValueParseError

definition hash_from_slice :: "u8 list \<Rightarrow> (hash_value_parse_error, hash_value) result" where
  "hash_from_slice bs = (if length bs = LENGTH_BYTES then Ok (hash_new bs) else Err HashValueParseError)"

text \<open>Reading past the 32 bytes panics (index out of bounds).\<close>

definition hash_bit :: "hash_value \<Rightarrow> nat \<Rightarrow> ('e, bool) result" where
  "hash_bit h index =
     (let pos = index div 8; b = 7 - index mod 8
      in if pos < length (hash_to_vec h)
         then Ok (drop_bit b (hash_to_vec h ! pos) AND 1 \<noteq> 0) else Panic)"

definition hash_nibble :: "hash_value \<Rightarrow> nat \<Rightarrow> ('e, u8) result" where
  "hash_nibble h index =
     (let pos = index div 2; shift = (if index mod 2 = 0 then 4 else 0)
      in if pos < length (hash_to_vec h)
         then Ok (drop_bit shift (hash_to_vec h ! pos) AND 0x0f) else Panic)"

text \<open>The items of a \<open>HashValueBitIterator\<close>, whose range is \<open>0..LENGTH_IN_BITS\<close>.\<close>

definition iter_get_bit :: "u8 list \<Rightarrow> nat \<Rightarrow> bool" where
  "iter_get_bit bs index = (drop_bit (7 - index mod 8) (bs ! (index div 8)) AND 1 \<noteq> 0)"

definition iter_bits :: "hash_value \<Rightarrow> bool list" where
  "iter_bits h = map (iter_get_bit (hash_to_vec h)) [0..<LENGTH_IN_BITS]"

fun set_bits_from :: "nat \<Rightarrow> bool list \<Rightarrow> u8 list \<Rightarrow> u8 list" where
  "set_bits_from i [] buf = buf"
| "set_bits_from i (b # bs) buf =
     set_bits_from (Suc i) bs
       (if b then buf[i div 8 := (buf ! (i div 8)) OR push_bit (7 - i mod 8) 1] else buf)"

definition from_bit_iter :: "bool list \<Rightarrow> (hash_value_parse_error, hash_value) result" where
  "from_bit_iter bits =
     (if length bits \<noteq> LENGTH_IN_BITS then Err HashValueParseError
      else Ok (hash_new (set_bits_from 0 bits (replicate LENGTH_BYTES 0))))"

definition common_prefix_bits_len :: "hash_value \<Rightarrow> hash_value \<Rightarrow> nat" where
  "common_prefix_bits_len h other =
     length (takeWhile (\<lambda>(x, y). x = y) (zip (iter_bits h) (iter_bits other)))"

definition create_literal_hash :: "string \<Rightarrow> (hash_value_parse_error, hash_value) result" where
  "create_literal_hash s =
     (let bs = map of_char s
      in bind_res (assert_that (length bs \<le> LENGTH_BYTES)) (\<lambda>_.
         case hash_from_slice (bs @ replicate (LENGTH_BYTES - length bs) 0) of
           Ok h \<Rightarrow> Ok h | _ \<Rightarrow> Panic))"

definition ok_value :: "('e, 'a :: zero) result \<Rightarrow> 'a" where
  "ok_value r = (case r of Ok x \<Rightarrow> x | _ \<Rightarrow> 0)"

definition accumulator_placeholder_hash :: hash_value where
  "accumulator_placeholder_hash = ok_value (create_literal_hash ''ACCUMULATOR_PLACEHOLDER_HASH'')"

definition sparse_merkle_placeholder_hash :: hash_value where
  "sparse_merkle_placeholder_hash = ok_value (create_literal_hash ''SPARSE_MERKLE_PLACEHOLDER_HASH'')"

definition pre_genesis_block_id :: hash_value where
  "pre_genesis_block_id = ok_value (create_literal_hash ''PRE_GENESIS_BLOCK_ID'')"

section \<open>Bits of a hash value\<close>

lemma length_hash_to_vec [simp]: "length (hash_to_vec h) = 32"
  by (simp add: hash_to_vec_def)

lemma length_iter_bits [simp]: "length (iter_bits h) = 256"
  by (simp add: iter_bits_def)

lemma bit_and_one: "(w AND 1 \<noteq> (0 :: 'a :: len word)) \<longleftrightarrow> bit w 0"
  by (simp add: and_one_eq bit_0 mod_2_eq_odd)

lemma hash_to_vec_bit: "i < 32 \<Longrightarrow> k < 8 \<Longrightarrow> bit (hash_to_vec h ! i) k = bit h (8 * (31 - i) + k)"
  by (simp add: hash_to_vec_def bit_ucast_iff bit_drop_bit_eq)

lemma byte_bit_position: "m < 256 \<Longrightarrow> 8 * (31 - m div 8) + (7 - m mod 8) = 255 - (m :: nat)"
  using div_mult_mod_eq [of m 8] mod_less_divisor [of 8 m] by arith

lemma iter_get_bit_hash: "i < 256 \<Longrightarrow> iter_get_bit (hash_to_vec h) i = bit h (255 - i)"
proof -
  assume i: "i < 256"
  then have "8 * (31 - i div 8) + (7 - i mod 8) = 255 - i"
    by (rule byte_bit_position)
  then show ?thesis
    using i by (simp add: iter_get_bit_def bit_and_one bit_drop_bit_eq hash_to_vec_bit)
qed

lemma iter_bits_nth: "i < 256 \<Longrightarrow> iter_bits h ! i = bit h (255 - i)"
  by (simp add: iter_bits_def iter_get_bit_hash)

lemma hash_bit_eq: "hash_bit h i = (if i < 256 then Ok (bit h (255 - i)) else Panic)"
  using iter_get_bit_hash [of i h] div_less_iff_less_mult [of 8 i 32]
  by (simp add: hash_bit_def iter_get_bit_def Let_def)

lemma hash_value_eqI: "(\<And>i. i < 256 \<Longrightarrow> bit h (255 - i) = bit h' (255 - i)) \<Longrightarrow> h = (h' :: hash_value)"
proof (rule bit_word_eqI)
  fix n assume eq: "\<And>i. i < 256 \<Longrightarrow> bit h (255 - i) = bit h' (255 - i)" and n: "n < LENGTH(256)"
  then have "255 - (255 - n) = n" "255 - n < (256 :: nat)" by simp_all
  then show "bit h n = bit h' n" using eq [of "255 - n"] by simp
qed

lemma iter_bits_inj: "iter_bits h = iter_bits h' \<longleftrightarrow> h = h'"
proof
  assume eq: "iter_bits h = iter_bits h'"
  show "h = h'"
  proof (rule hash_value_eqI)
    fix i :: nat assume "i < 256"
    then show "bit h (255 - i) = bit h' (255 - i)"
      using arg_cong [OF eq, of "\<lambda>l. l ! i"] by (simp add: iter_bits_nth)
  qed
qed simp

lemma bit_foldl_bytes:
  "length bs \<le> 32 \<Longrightarrow>
     bit (foldl (\<lambda>acc b. push_bit 8 acc OR ucast b) 0 bs :: hash_value) n \<longleftrightarrow>
       n < 8 * length bs \<and> bit (rev bs ! (n div 8)) (n mod 8)" for bs :: "u8 list"
proof (induction bs arbitrary: n rule: rev_induct)
  case Nil
  then show ?case by simp
next
  case (snoc b bs)
  let ?acc = "foldl (\<lambda>acc b. push_bit 8 acc OR ucast b) 0 bs :: hash_value"
  have step: "bit (push_bit 8 ?acc OR ucast b) n \<longleftrightarrow>
      n < 256 \<and> (8 \<le> n \<and> bit ?acc (n - 8) \<or> bit b n)"
    using bit_imp_le_length [of b n] by (auto simp: bit_simps)
  show ?case
  proof (cases "n < 8")
    case True
    then show ?thesis
      using step by simp
  next
    case False
    then obtain m where m: "n = m + 8"
      using le_Suc_ex [of 8 n] by (auto simp: add.commute)
    have "\<not> bit b n"
      using m bit_imp_le_length [of b n] by auto
    moreover have "(m + 8) div 8 = Suc (m div 8)" by simp
    ultimately show ?thesis
      using step snoc.IH [of m] snoc.prems by (auto simp: m simp del: div_add_self2)
  qed
qed

lemma bit_hash_new:
  "length bs = 32 \<Longrightarrow> n < 256 \<Longrightarrow> bit (hash_new bs) n = bit (bs ! (31 - n div 8)) (n mod 8)"
  by (simp add: hash_new_def bit_foldl_bytes rev_nth)

lemma hash_new_to_vec: "hash_new (hash_to_vec h) = h"
proof (rule bit_word_eqI)
  fix n assume n: "n < LENGTH(256)"
  then have "n div 8 < 32" by (simp add: div_less_iff_less_mult)
  then have "8 * (31 - (31 - n div 8)) + n mod 8 = n"
    using mult_div_mod_eq [of 8 n] by simp
  then show "bit (hash_new (hash_to_vec h)) n = bit h n"
    using n by (simp add: bit_hash_new hash_to_vec_bit)
qed

section \<open>Building from bits\<close>

lemma length_set_bits_from [simp]: "length (set_bits_from i bs buf) = length buf"
  by (induction i bs buf rule: set_bits_from.induct) auto

lemma byte_position_iff:
  assumes "k < 8"
  shows "8 * j + (7 - k) = i \<longleftrightarrow> j = i div 8 \<and> k = 7 - i mod (8 :: nat)"
proof
  assume "8 * j + (7 - k) = i"
  moreover obtain r where r: "r < 8" "k = 7 - r" "7 - k = r"
    using assms by (intro that [of "7 - k"]) auto
  ultimately have "i = r + j * 8" by simp
  then show "j = i div 8 \<and> k = 7 - i mod 8"
    using r by simp
next
  assume "j = i div 8 \<and> k = 7 - i mod 8"
  then show "8 * j + (7 - k) = i"
    using div_mult_mod_eq [of i 8] mod_less_divisor [of 8 i] by arith
qed

lemma bit_set_bits_from:
  assumes "j < length buf" "k < 8" and p: "p = 8 * j + (7 - k)"
  shows "i + length bs \<le> 8 * length buf \<Longrightarrow> bit (set_bits_from i bs buf ! j) k \<longleftrightarrow>
       bit (buf ! j) k \<or> (i \<le> p \<and> p < i + length bs \<and> bs ! (p - i))"
  using assms(1)
proof (induction i bs buf rule: set_bits_from.induct)
  case (1 i buf)
  then show ?case by auto
next
  case (2 i b bs buf)
  let ?buf = "if b then buf[i div 8 := (buf ! (i div 8)) OR push_bit (7 - i mod 8) 1] else buf"
  have "i div 8 < length buf"
    using "2.prems" by (simp add: less_mult_imp_div_less mult.commute)
  then have buf: "bit (?buf ! j) k \<longleftrightarrow> bit (buf ! j) k \<or> (b \<and> p = i)"
    using "2.prems" assms(2) byte_position_iff [OF assms(2), of j i] unfolding p
    by (auto simp: nth_list_update bit_or_iff bit_exp_iff possible_bit_word)
  have "bit (set_bits_from (Suc i) bs ?buf ! j) k \<longleftrightarrow>
      bit (?buf ! j) k \<or> (Suc i \<le> p \<and> p < Suc i + length bs \<and> bs ! (p - Suc i))"
    by (rule "2.IH") (use "2.prems" in simp_all)
  then show ?case
    unfolding buf by (cases "p = i"; cases "i \<le> p") (auto simp: nth_Cons' Suc_le_eq)
qed

lemma from_bit_iter_bit:
  assumes "from_bit_iter bits = Ok h" and "i < 256"
  shows "bit h (255 - i) = bits ! i"
proof -
  define m buf where "m = 255 - i" and "buf = replicate 32 (0 :: u8)"
  have len: "length bits = 256" and h: "h = hash_new (set_bits_from 0 bits buf)"
    using assms(1) by (auto simp: from_bit_iter_def buf_def split: if_splits)
  have m: "m < 256" "255 - m = i" and buf: "length buf = 32" "\<And>j. j < 32 \<Longrightarrow> buf ! j = 0"
    using assms(2) by (simp_all add: m_def buf_def)
  have pos: "i = 8 * (31 - m div 8) + (7 - m mod 8)"
    using byte_bit_position [OF m(1)] m(2) by simp
  have "bit h m = bit (set_bits_from 0 bits buf ! (31 - m div 8)) (m mod 8)"
    using m buf by (simp add: h bit_hash_new)
  also have "\<dots> = bits ! i"
    using bit_set_bits_from [OF _ _ pos, of buf 0 bits] buf len assms(2) by simp
  finally show ?thesis
    by (simp add: m_def)
qed

lemma literal_hash_ok:
  assumes "length s \<le> 32"
  shows "create_literal_hash s = Ok (hash_new (map of_char s @ replicate (32 - length s) 0))"
proof -
  have "length (map of_char s @ replicate (32 - length s) (0 :: u8)) = 32"
    using assms by simp
  then show ?thesis
    using assms by (simp add: create_literal_hash_def hash_from_slice_def Let_def assert_that_def
        del: length_append)
qed

section \<open>Properties\<close>


end
