(* ===== verification/Ledger_Types.thy ===== *)
theory Ledger_Types
  imports Validator_Verifier Hash_Value
begin

text \<open>
  The ledger vocabulary shared by consensus and light clients: \<^verbatim>\<open>types/src/epoch_state.rs\<close>,
  \<^verbatim>\<open>block_info.rs\<close>, \<^verbatim>\<open>ledger_info.rs\<close> and \<^verbatim>\<open>waypoint.rs\<close>. The enum
  \<open>LedgerInfoWithSignatures\<close> has one variant and dereferences to \<open>LedgerInfoWithV0\<close>; the
  record below is that variant.

  Errors of \<open>anyhow\<close> keep the constant part of the message; a wrapped \<open>VerifyError\<close> and a
  \<open>context\<close> are constructors. The parameters of the theory are the signature scheme on ledger
  infos and the hash of the waypoint converter, bundled in \<open>ledger_crypto\<close>.
\<close>

section \<open>Data\<close>

datatype anyhow_error =
    Msg string
  | FromVerifyError verify_error
  | Context string anyhow_error

record epoch_state =
  es_epoch :: u64
  es_verifier :: validator_verifier

record block_info =
  bi_epoch :: u64
  bi_round :: u64
  bi_id :: hash_value
  bi_executed_state_id :: hash_value
  bi_version :: u64
  bi_timestamp_usecs :: u64
  bi_next_epoch_state :: "epoch_state option"

record ledger_info =
  li_commit_info :: block_info
  li_consensus_data_hash :: hash_value

record ledger_info_with_signatures =
  ls_ledger_info :: ledger_info
  ls_signatures :: "(account_address, signature) btree_map"

record ledger2waypoint_converter =
  l2w_epoch :: u64
  l2w_root_hash :: hash_value
  l2w_version :: u64
  l2w_timestamp_usecs :: u64
  l2w_next_epoch_state :: "epoch_state option"

record waypoint =
  wp_version :: u64
  wp_value :: hash_value

record ledger_crypto =
  lc_li_sigs :: "ledger_info sig_ops"
  lc_waypoint_hash :: "ledger2waypoint_converter \<Rightarrow> hash_value"

section \<open>Epoch state and validator set\<close>

definition epoch_state_empty :: "('e, epoch_state) result" where
  "epoch_state_empty =
     bind_res (validator_verifier_new []) (\<lambda>v. Ok \<lparr>es_epoch = 0, es_verifier = v\<rparr>)"

text \<open>The part of a \<open>ValidatorInfo\<close> of the on-chain \<open>ValidatorSet\<close> that consensus reads.\<close>

record validator_info =
  vi_account_address :: account_address
  vi_consensus_voting_power :: u64
  vi_consensus_public_key :: public_key

definition verifier_from_validator_set ::
    "validator_info list \<Rightarrow> ('e, validator_verifier) result" where
  "verifier_from_validator_set payload =
     validator_verifier_new
       (fold (\<lambda>validator m. bt_insert (vi_account_address validator)
            \<lparr>vci_public_key = vi_consensus_public_key validator,
             vci_voting_power = vi_consensus_voting_power validator\<rparr> m) payload [])"

section \<open>Block info\<close>

abbreviation (input) GENESIS_EPOCH :: u64 where "GENESIS_EPOCH \<equiv> 0"
abbreviation (input) GENESIS_ROUND :: u64 where "GENESIS_ROUND \<equiv> 0"
abbreviation (input) GENESIS_VERSION :: u64 where "GENESIS_VERSION \<equiv> 0"
abbreviation (input) GENESIS_TIMESTAMP_USECS :: u64 where "GENESIS_TIMESTAMP_USECS \<equiv> 0"

definition block_info_empty :: block_info where
  "block_info_empty =
     \<lparr>bi_epoch = 0, bi_round = 0, bi_id = 0, bi_executed_state_id = 0, bi_version = 0,
      bi_timestamp_usecs = 0, bi_next_epoch_state = None\<rparr>"

definition block_info_genesis :: "hash_value \<Rightarrow> validator_info list \<Rightarrow> ('e, block_info) result" where
  "block_info_genesis genesis_state_root_hash validator_set =
     bind_res (verifier_from_validator_set validator_set) (\<lambda>v.
       Ok \<lparr>bi_epoch = GENESIS_EPOCH, bi_round = GENESIS_ROUND, bi_id = 0,
           bi_executed_state_id = genesis_state_root_hash, bi_version = GENESIS_VERSION,
           bi_timestamp_usecs = GENESIS_TIMESTAMP_USECS,
           bi_next_epoch_state = Some \<lparr>es_epoch = 1, es_verifier = v\<rparr>\<rparr>)"

definition bi_next_block_epoch :: "block_info \<Rightarrow> u64" where
  "bi_next_block_epoch b =
     (case bi_next_epoch_state b of None \<Rightarrow> bi_epoch b | Some e \<Rightarrow> es_epoch e)"

definition bi_has_reconfiguration :: "block_info \<Rightarrow> bool" where
  "bi_has_reconfiguration b \<longleftrightarrow> bi_next_epoch_state b \<noteq> None"

definition allow_timestamp_change :: "block_info \<Rightarrow> u64 \<Rightarrow> bool" where
  "allow_timestamp_change b timestamp \<longleftrightarrow>
     bi_has_reconfiguration b \<and> bi_timestamp_usecs b \<ge> timestamp"

definition change_timestamp :: "block_info \<Rightarrow> u64 \<Rightarrow> ('e, block_info) result" where
  "change_timestamp b timestamp =
     bind_res (assert_that (allow_timestamp_change b timestamp)) (\<lambda>_.
       Ok (b\<lparr>bi_timestamp_usecs := timestamp\<rparr>))"

definition match_ordered_only :: "block_info \<Rightarrow> block_info \<Rightarrow> bool" where
  "match_ordered_only b executed \<longleftrightarrow>
     bi_epoch b = bi_epoch executed \<and>
     bi_round b = bi_round executed \<and>
     bi_id b = bi_id executed \<and>
     (bi_timestamp_usecs b = bi_timestamp_usecs executed \<or>
      (bi_timestamp_usecs b > bi_timestamp_usecs executed \<and> bi_has_reconfiguration executed))"

definition is_ordered_only :: "block_info \<Rightarrow> bool" where
  "is_ordered_only b \<longleftrightarrow>
     b \<noteq> block_info_empty \<and>
     bi_next_epoch_state b = None \<and>
     bi_executed_state_id b = accumulator_placeholder_hash \<and>
     bi_version b = 0"

section \<open>Ledger info\<close>

definition ledger_info_genesis :: "hash_value \<Rightarrow> validator_info list \<Rightarrow> ('e, ledger_info) result" where
  "ledger_info_genesis root validator_set =
     bind_res (block_info_genesis root validator_set) (\<lambda>b.
       Ok \<lparr>li_commit_info = b, li_consensus_data_hash = 0\<rparr>)"

abbreviation li_epoch :: "ledger_info \<Rightarrow> u64" where
  "li_epoch li \<equiv> bi_epoch (li_commit_info li)"

abbreviation li_next_block_epoch :: "ledger_info \<Rightarrow> u64" where
  "li_next_block_epoch li \<equiv> bi_next_block_epoch (li_commit_info li)"

abbreviation li_round :: "ledger_info \<Rightarrow> u64" where
  "li_round li \<equiv> bi_round (li_commit_info li)"

abbreviation li_consensus_block_id :: "ledger_info \<Rightarrow> hash_value" where
  "li_consensus_block_id li \<equiv> bi_id (li_commit_info li)"

abbreviation li_transaction_accumulator_hash :: "ledger_info \<Rightarrow> hash_value" where
  "li_transaction_accumulator_hash li \<equiv> bi_executed_state_id (li_commit_info li)"

abbreviation li_version :: "ledger_info \<Rightarrow> u64" where
  "li_version li \<equiv> bi_version (li_commit_info li)"

abbreviation li_timestamp_usecs :: "ledger_info \<Rightarrow> u64" where
  "li_timestamp_usecs li \<equiv> bi_timestamp_usecs (li_commit_info li)"

abbreviation li_next_epoch_state :: "ledger_info \<Rightarrow> epoch_state option" where
  "li_next_epoch_state li \<equiv> bi_next_epoch_state (li_commit_info li)"

definition li_ends_epoch :: "ledger_info \<Rightarrow> bool" where
  "li_ends_epoch li \<longleftrightarrow> li_next_epoch_state li \<noteq> None"

definition liws_genesis ::
    "hash_value \<Rightarrow> validator_info list \<Rightarrow> ('e, ledger_info_with_signatures) result" where
  "liws_genesis root validator_set =
     bind_res (ledger_info_genesis root validator_set) (\<lambda>li.
       Ok \<lparr>ls_ledger_info = li, ls_signatures = []\<rparr>)"

definition add_signature ::
    "ledger_info_with_signatures \<Rightarrow> account_address \<Rightarrow> signature \<Rightarrow> ledger_info_with_signatures" where
  "add_signature ls validator sg =
     ls\<lparr>ls_signatures := bt_or_insert validator sg (ls_signatures ls)\<rparr>"

definition remove_signature ::
    "ledger_info_with_signatures \<Rightarrow> account_address \<Rightarrow> ledger_info_with_signatures" where
  "remove_signature ls validator = ls\<lparr>ls_signatures := bt_remove validator (ls_signatures ls)\<rparr>"

definition verify_signatures ::
    "ledger_crypto \<Rightarrow> ledger_info_with_signatures \<Rightarrow> validator_verifier \<Rightarrow> (verify_error, unit) result" where
  "verify_signatures lc ls validator =
     batch_verify_aggregated_signatures (lc_li_sigs lc) validator (ls_ledger_info ls) (ls_signatures ls)"

definition liws_check_voting_power ::
    "ledger_info_with_signatures \<Rightarrow> validator_verifier \<Rightarrow> (verify_error, unit) result" where
  "liws_check_voting_power ls validator = check_voting_power validator (bt_keys (ls_signatures ls))"

section \<open>Waypoint\<close>

definition l2w_new :: "ledger_info \<Rightarrow> ledger2waypoint_converter" where
  "l2w_new li =
     \<lparr>l2w_epoch = li_epoch li, l2w_root_hash = li_transaction_accumulator_hash li,
      l2w_version = li_version li, l2w_timestamp_usecs = li_timestamp_usecs li,
      l2w_next_epoch_state = li_next_epoch_state li\<rparr>"

definition waypoint_new_any :: "ledger_crypto \<Rightarrow> ledger_info \<Rightarrow> waypoint" where
  "waypoint_new_any lc li =
     \<lparr>wp_version = li_version li, wp_value = lc_waypoint_hash lc (l2w_new li)\<rparr>"

definition waypoint_new_epoch_boundary ::
    "ledger_crypto \<Rightarrow> ledger_info \<Rightarrow> (anyhow_error, waypoint) result" where
  "waypoint_new_epoch_boundary lc li =
     bind_res (ensure (li_ends_epoch li) (Msg ''No validator set'')) (\<lambda>_.
       Ok (waypoint_new_any lc li))"

definition waypoint_verify ::
    "ledger_crypto \<Rightarrow> waypoint \<Rightarrow> ledger_info \<Rightarrow> (anyhow_error, unit) result" where
  "waypoint_verify lc w li =
     bind_res (ensure (li_version li = wp_version w) (Msg ''Waypoint version mismatch'')) (\<lambda>_.
     bind_res (ensure (lc_waypoint_hash lc (l2w_new li) = wp_value w)
                 (Msg ''Waypoint value mismatch'')) (\<lambda>_.
     Ok ()))"

section \<open>Lemmas\<close>

text \<open>A waypoint accepts exactly the ledger infos from which the same waypoint would be made.\<close>

lemma waypoint_verify_Ok_iff:
  "waypoint_verify lc w li = Ok () \<longleftrightarrow> w = waypoint_new_any lc li"
  by (cases w) (auto simp: waypoint_verify_def waypoint_new_any_def bind_res_Ok_iff)

lemma waypoint_new_any_version [simp]: "wp_version (waypoint_new_any lc li) = li_version li"
  by (simp add: waypoint_new_any_def)

lemma add_signature_simps [simp]:
  "ls_ledger_info (add_signature ls a sg) = ls_ledger_info ls"
  "bt_wf (ls_signatures ls) \<Longrightarrow> bt_wf (ls_signatures (add_signature ls a sg))"
  "set (bt_keys (ls_signatures (add_signature ls a sg))) = insert a (set (bt_keys (ls_signatures ls)))"
  using set_bt_keys_or_insert [of a sg "ls_signatures ls"]
  by (simp_all add: add_signature_def bt_wf_or_insert)

lemma verifier_from_validator_set_wf:
  assumes "verifier_from_validator_set payload = (Ok v :: ('e, validator_verifier) result)"
  shows "wf_verifier v"
proof -
  have "bt_wf (fold (\<lambda>validator m. bt_insert (vi_account_address validator)
            \<lparr>vci_public_key = vi_consensus_public_key validator,
             vci_voting_power = vi_consensus_voting_power validator\<rparr> m) payload m)" if "bt_wf m" for m
    using that by (induction payload arbitrary: m) (auto simp: bt_wf_insert)
  then show ?thesis
    using assms validator_verifier_new_wf by (force simp: verifier_from_validator_set_def)
qed

text \<open>
  A ledger info is \<^emph>\<open>quorum-signed\<close> for a verifier: every recorded signer is a validator whose
  signature is valid, and the signers hold the quorum voting power.
\<close>

definition quorum_signed ::
    "ledger_crypto \<Rightarrow> validator_verifier \<Rightarrow> ledger_info_with_signatures \<Rightarrow> bool" where
  "quorum_signed lc v ls \<longleftrightarrow>
     check_voting_power v (bt_keys (ls_signatures ls)) = Ok () \<and>
     (\<forall>(a, sg) \<in> set (ls_signatures ls).
        \<exists>pk. get_public_key v a = Some pk \<and> sig_verify (lc_li_sigs lc) pk (ls_ledger_info ls) sg)"

lemma batch_verify_Ok_signed:
  assumes "batch_verify_aggregated_signatures ops v message sigs = Ok ()" "batch_sound ops"
  shows "check_voting_power v (bt_keys sigs) = Ok ()"
    "(a, sg) \<in> set sigs \<Longrightarrow> \<exists>pk. get_public_key v a = Some pk \<and> sig_verify ops pk message sg"
proof -
  have cvp: "check_voting_power v (bt_keys sigs) = Ok ()" and
    or: "sig_batch ops message (keys_and_signatures v sigs) \<or> verify_each ops v message sigs = Ok ()"
    using assms(1)
    by (auto simp: batch_verify_aggregated_signatures_def verify_aggregated_struct_signature_def
        bind_res_Ok_iff split: if_splits)
  show "check_voting_power v (bt_keys sigs) = Ok ()" by (rule cvp)
  assume mem: "(a, sg) \<in> set sigs"
  then obtain pk where pk: "get_public_key v a = Some pk"
    using check_voting_power_known [OF cvp, of a] by force
  then have "(pk, sg) \<in> set (keys_and_signatures v sigs)"
    using mem by (auto simp: set_keys_and_signatures)
  then show "\<exists>pk. get_public_key v a = Some pk \<and> sig_verify ops pk message sg"
    using or pk mem assms(2) by (fastforce simp: batch_sound_def verify_each_Ok_iff)
qed

lemma verify_signatures_quorum_signed:
  "batch_sound (lc_li_sigs lc) \<Longrightarrow> verify_signatures lc ls v = Ok () \<Longrightarrow> quorum_signed lc v ls"
  using batch_verify_Ok_signed [of "lc_li_sigs lc" v "ls_ledger_info ls" "ls_signatures ls"]
  by (auto simp: verify_signatures_def quorum_signed_def)

end
