(* ===== verification/Epoch_Change.thy ===== *)
theory Epoch_Change
  imports Ledger_Types
begin

text \<open>
  The \<open>Verifier\<close> trait and epoch change proofs: \<^verbatim>\<open>types/src/epoch_change.rs\<close>, with the
  implementations of the trait for \<open>Waypoint\<close> (\<^verbatim>\<open>types/src/waypoint.rs\<close>) and \<open>EpochState\<close>
  (\<^verbatim>\<open>types/src/epoch_state.rs\<close>). A \<open>&dyn Verifier\<close> is a record of the three methods; the
  locale \<open>ledger_verifier\<close> is the contract of the trait, and what an accepted epoch change
  proof means is proved once from it.
\<close>

section \<open>The trait\<close>

record dyn_verifier =
  dv_verify :: "ledger_info_with_signatures \<Rightarrow> (anyhow_error, unit) result"
  dv_epoch_change_verification_required :: "u64 \<Rightarrow> bool"
  dv_is_ledger_info_stale :: "ledger_info \<Rightarrow> bool"

definition waypoint_verifier :: "ledger_crypto \<Rightarrow> waypoint \<Rightarrow> dyn_verifier" where
  "waypoint_verifier lc w =
     \<lparr>dv_verify = (\<lambda>ls. waypoint_verify lc w (ls_ledger_info ls)),
      dv_epoch_change_verification_required = (\<lambda>_. True),
      dv_is_ledger_info_stale = (\<lambda>li. li_version li < wp_version w)\<rparr>"

definition epoch_state_verify ::
    "ledger_crypto \<Rightarrow> epoch_state \<Rightarrow> ledger_info_with_signatures \<Rightarrow> (anyhow_error, unit) result" where
  "epoch_state_verify lc es ls =
     bind_res (ensure (es_epoch es = li_epoch (ls_ledger_info ls))
                 (Msg ''LedgerInfo has unexpected epoch'')) (\<lambda>_.
     bind_res (map_err FromVerifyError (verify_signatures lc ls (es_verifier es))) (\<lambda>_.
     Ok ()))"

definition epoch_state_verifier :: "ledger_crypto \<Rightarrow> epoch_state \<Rightarrow> dyn_verifier" where
  "epoch_state_verifier lc es =
     \<lparr>dv_verify = epoch_state_verify lc es,
      dv_epoch_change_verification_required = (\<lambda>epoch. es_epoch es < epoch),
      dv_is_ledger_info_stale = (\<lambda>li. li_epoch li < es_epoch es)\<rparr>"

section \<open>Epoch change proofs\<close>

record epoch_change_proof =
  ecp_ledger_info_with_sigs :: "ledger_info_with_signatures list"
  ecp_more :: bool

definition ecp_epoch :: "epoch_change_proof \<Rightarrow> (anyhow_error, u64) result" where
  "ecp_epoch p =
     ok_or (case ecp_ledger_info_with_sigs p of [] \<Rightarrow> None | ls # _ \<Rightarrow> Some (li_epoch (ls_ledger_info ls)))
       (Msg ''Empty EpochChangeProof'')"

fun ecp_verify_loop ::
    "ledger_crypto \<Rightarrow> dyn_verifier \<Rightarrow> ledger_info_with_signatures list \<Rightarrow> (anyhow_error, unit) result" where
  "ecp_verify_loop lc verifier_ref [] = Ok ()"
| "ecp_verify_loop lc verifier_ref (ls # rest) =
     bind_res (dv_verify verifier_ref ls) (\<lambda>_.
     bind_res (ok_or (li_next_epoch_state (ls_ledger_info ls))
                 (Msg ''LedgerInfo doesn't carry a ValidatorSet'')) (\<lambda>es.
     ecp_verify_loop lc (epoch_state_verifier lc es) rest))"

definition ecp_verify ::
    "ledger_crypto \<Rightarrow> epoch_change_proof \<Rightarrow> dyn_verifier \<Rightarrow> (anyhow_error, ledger_info_with_signatures) result" where
  "ecp_verify lc p verifier =
     (let lis = ecp_ledger_info_with_sigs p in
      bind_res (ensure (lis \<noteq> []) (Msg ''The EpochChangeProof is empty'')) (\<lambda>_.
      bind_res (ensure (\<not> dv_is_ledger_info_stale verifier (ls_ledger_info (last lis)))
                  (Msg ''The EpochChangeProof is stale'')) (\<lambda>_.
      bind_res (ecp_verify_loop lc verifier
                  (dropWhile (\<lambda>ls. dv_is_ledger_info_stale verifier (ls_ledger_info ls)) lis)) (\<lambda>_.
      Ok (last lis)))))"

section \<open>Specification: chains of epoch changes\<close>

text \<open>
  \<open>epoch_chain lc es lis es'\<close>: the ledger infos \<open>lis\<close> lead from the trusted epoch state \<open>es\<close> to
  \<open>es'\<close>, each one belonging to the epoch trusted so far, signed by a quorum of its validators
  and naming the next epoch state.
\<close>

inductive epoch_chain ::
    "ledger_crypto \<Rightarrow> epoch_state \<Rightarrow> ledger_info_with_signatures list \<Rightarrow> epoch_state \<Rightarrow> bool"
  for lc :: ledger_crypto where
  chain_refl: "epoch_chain lc es [] es"
| chain_step: "epoch_chain lc es (ls # rest) es''"
    if "li_epoch (ls_ledger_info ls) = es_epoch es" "quorum_signed lc (es_verifier es) ls"
      "li_next_epoch_state (ls_ledger_info ls) = Some es'" "epoch_chain lc es' rest es''"

inductive_simps epoch_chain_Nil [simp]: "epoch_chain lc es [] es'"
inductive_simps epoch_chain_Cons [simp]: "epoch_chain lc es (ls # rest) es'"

lemma epoch_state_verify_Ok:
  assumes "epoch_state_verify lc es ls = Ok ()" "batch_sound (lc_li_sigs lc)"
  shows "li_epoch (ls_ledger_info ls) = es_epoch es" "quorum_signed lc (es_verifier es) ls"
  using assms verify_signatures_quorum_signed
  by (auto simp: epoch_state_verify_def bind_res_Ok_iff)

lemma ecp_verify_loop_chain:
  "ecp_verify_loop lc (epoch_state_verifier lc es) lis = Ok () \<Longrightarrow> batch_sound (lc_li_sigs lc) \<Longrightarrow>
     \<exists>es'. epoch_chain lc es lis es' \<and>
       (lis \<noteq> [] \<longrightarrow> li_next_epoch_state (ls_ledger_info (last lis)) = Some es')"
proof (induction lis arbitrary: es)
  case Nil
  then show ?case by simp
next
  case (Cons ls rest)
  from Cons.prems(1) obtain es' where es': "li_next_epoch_state (ls_ledger_info ls) = Some es'"
    and v: "epoch_state_verify lc es ls = Ok ()"
    and rest: "ecp_verify_loop lc (epoch_state_verifier lc es') rest = Ok ()"
    by (auto simp: bind_res_Ok_iff epoch_state_verifier_def)
  show ?case
    using Cons.IH [OF rest Cons.prems(2)] es' epoch_state_verify_Ok [OF v Cons.prems(2)] by auto
qed

section \<open>The contract of the trait\<close>

text \<open>
  A verifier never accepts a ledger info it calls stale. With that, the first ledger info of an
  accepted proof that is not skipped is verified by the initial verifier, and the later ones by
  the validator sets named on the way.
\<close>

locale ledger_verifier =
  fixes as_verifier :: "ledger_crypto \<Rightarrow> 'v \<Rightarrow> dyn_verifier"
  assumes verified_not_stale:
    "dv_verify (as_verifier lc v) ls = Ok () \<Longrightarrow>
       \<not> dv_is_ledger_info_stale (as_verifier lc v) (ls_ledger_info ls)"
begin

lemma ecp_verify_sound:
  assumes ok: "ecp_verify lc p (as_verifier lc v) = Ok ls" and batch: "batch_sound (lc_li_sigs lc)"
  shows "\<exists>skipped first rest es es'.
    ecp_ledger_info_with_sigs p = skipped @ first # rest \<and>
    (\<forall>l \<in> set skipped. dv_is_ledger_info_stale (as_verifier lc v) (ls_ledger_info l)) \<and>
    dv_verify (as_verifier lc v) first = Ok () \<and>
    li_next_epoch_state (ls_ledger_info first) = Some es \<and>
    epoch_chain lc es rest es' \<and>
    ls = last (first # rest) \<and> li_next_epoch_state (ls_ledger_info ls) = Some es'"
proof -
  let ?stale = "\<lambda>l. dv_is_ledger_info_stale (as_verifier lc v) (ls_ledger_info l)"
  let ?lis = "ecp_ledger_info_with_sigs p"
  have ne: "?lis \<noteq> []" and last: "\<not> ?stale (last ?lis)" "ls = last ?lis"
    and loop: "ecp_verify_loop lc (as_verifier lc v) (dropWhile ?stale ?lis) = Ok ()"
    using ok by (auto simp: ecp_verify_def Let_def bind_res_Ok_iff)
  have "dropWhile ?stale ?lis \<noteq> []"
    using ne last(1) last_in_set [OF ne] by (auto simp: dropWhile_eq_Nil_conv)
  then obtain first rest where drop: "dropWhile ?stale ?lis = first # rest"
    by (meson neq_Nil_conv)
  obtain es where v: "dv_verify (as_verifier lc v) first = Ok ()"
    and es: "li_next_epoch_state (ls_ledger_info first) = Some es"
    and rest: "ecp_verify_loop lc (epoch_state_verifier lc es) rest = Ok ()"
    using loop by (auto simp: drop bind_res_Ok_iff)
  obtain es' where chain: "epoch_chain lc es rest es'"
    "rest \<noteq> [] \<longrightarrow> li_next_epoch_state (ls_ledger_info (last rest)) = Some es'"
    using ecp_verify_loop_chain [OF rest batch] by auto
  define skipped where "skipped = takeWhile ?stale ?lis"
  have split: "?lis = skipped @ first # rest" and stale: "\<forall>l \<in> set skipped. ?stale l"
    using takeWhile_dropWhile_id [of ?stale ?lis] set_takeWhileD [of _ ?stale ?lis]
    by (auto simp: skipped_def drop)
  then have ls: "ls = last (first # rest)"
    using last(2) by simp
  then have "li_next_epoch_state (ls_ledger_info ls) = Some es'"
    using chain es by (cases "rest = []") auto
  then show ?thesis
    using split stale v es chain(1) ls by blast
qed

text \<open>A proof consisting only of stale ledger infos is refused.\<close>

lemma ecp_verify_all_stale:
  assumes "\<And>l. l \<in> set (ecp_ledger_info_with_sigs p) \<Longrightarrow>
    dv_is_ledger_info_stale (as_verifier lc v) (ls_ledger_info l)"
  shows "\<exists>e. ecp_verify lc p (as_verifier lc v) = Err e"
  using assms [of "last (ecp_ledger_info_with_sigs p)"]
  by (cases "ecp_ledger_info_with_sigs p = []") (auto simp: ecp_verify_def ensure_def Let_def)

end

interpretation wpv: ledger_verifier waypoint_verifier
  by unfold_locales (simp add: waypoint_verifier_def waypoint_verify_Ok_iff)

interpretation esv: ledger_verifier epoch_state_verifier
  by unfold_locales (auto simp: epoch_state_verifier_def epoch_state_verify_def bind_res_Ok_iff)

lemma epoch_chain_of_proof:
  assumes "batch_sound (lc_li_sigs lc)" "ecp_verify lc p (epoch_state_verifier lc es) = Ok ls"
  obtains skipped chain es' where "ecp_ledger_info_with_sigs p = skipped @ chain"
    "list_all (\<lambda>l. li_epoch (ls_ledger_info l) < es_epoch es) skipped"
    "chain \<noteq> []" "ls = last chain" "epoch_chain lc es chain es'"
    "li_next_epoch_state (ls_ledger_info ls) = Some es'"
proof -
  from esv.ecp_verify_sound [OF assms(2,1)] obtain skipped first rest e1 es' where
    split: "ecp_ledger_info_with_sigs p = skipped @ first # rest"
    and stale: "\<forall>l \<in> set skipped. dv_is_ledger_info_stale (epoch_state_verifier lc es) (ls_ledger_info l)"
    and first: "dv_verify (epoch_state_verifier lc es) first = Ok ()"
      "li_next_epoch_state (ls_ledger_info first) = Some e1"
    and rest: "epoch_chain lc e1 rest es'" "ls = last (first # rest)"
      "li_next_epoch_state (ls_ledger_info ls) = Some es'"
    by blast
  have "epoch_chain lc es (first # rest) es'"
    using first rest epoch_state_verify_Ok [OF _ assms(1)] by (auto simp: epoch_state_verifier_def)
  then show ?thesis
    using that [of skipped "first # rest" es'] split stale rest
    by (auto simp: list_all_iff epoch_state_verifier_def)
qed

section \<open>Properties\<close>

text \<open>
  What honest validators of an epoch sign: at most one epoch-ending ledger info per epoch as far
  as the next epoch state is concerned, and always one for the epoch that follows.
\<close>

definition honest_epoch_ends :: "ledger_crypto \<Rightarrow> validator_verifier \<Rightarrow> account_address set \<Rightarrow> bool" where
  "honest_epoch_ends lc v byz \<longleftrightarrow>
     (\<forall>a pk li sg es. a \<notin> byz \<longrightarrow> get_public_key v a = Some pk \<longrightarrow>
        sig_verify (lc_li_sigs lc) pk li sg \<longrightarrow> li_next_epoch_state li = Some es \<longrightarrow>
        unat (es_epoch es) = unat (li_epoch li) + 1 \<and>
        (\<forall>li' sg' es'. sig_verify (lc_li_sigs lc) pk li' sg' \<longrightarrow> li_epoch li' = li_epoch li \<longrightarrow>
           li_next_epoch_state li' = Some es' \<longrightarrow> es' = es))"

lemma quorum_signed_is_quorum:
  "quorum_signed lc v ls \<Longrightarrow> bt_wf (ls_signatures ls) \<Longrightarrow> is_quorum v (set (bt_keys (ls_signatures ls)))"
  using bt_wf_distinct unfolding quorum_signed_def is_quorum_def by blast

lemma quorum_signed_author:
  assumes "quorum_signed lc v ls" "a \<in> set (bt_keys (ls_signatures ls))"
  obtains pk sg where "get_public_key v a = Some pk" "sig_verify (lc_li_sigs lc) pk (ls_ledger_info ls) sg"
  using assms by (fastforce simp: quorum_signed_def)

lemma epoch_end_unique:
  assumes "byzantine_bound v byz" "honest_epoch_ends lc v byz"
    and "quorum_signed lc v ls1" "bt_wf (ls_signatures ls1)" "li_next_epoch_state (ls_ledger_info ls1) = Some e1"
    and "quorum_signed lc v ls2" "bt_wf (ls_signatures ls2)" "li_next_epoch_state (ls_ledger_info ls2) = Some e2"
    and "li_epoch (ls_ledger_info ls1) = li_epoch (ls_ledger_info ls2)"
  shows "e1 = e2"
proof -
  obtain a where a: "a \<in> set (bt_keys (ls_signatures ls1))" "a \<in> set (bt_keys (ls_signatures ls2))" "a \<notin> byz"
    using vq.share [of "(v, byz)" "set (bt_keys (ls_signatures ls1))" "set (bt_keys (ls_signatures ls2))"]
      assms quorum_signed_is_quorum by fastforce
  obtain pk sg1 where 1: "get_public_key v a = Some pk" "sig_verify (lc_li_sigs lc) pk (ls_ledger_info ls1) sg1"
    using quorum_signed_author [OF assms(3) a(1)] .
  obtain sg2 where 2: "sig_verify (lc_li_sigs lc) pk (ls_ledger_info ls2) sg2"
    using quorum_signed_author [OF assms(6) a(2)] 1(1) by force
  show ?thesis
    using assms(2,5,8,9) a(3) 1 2 unfolding honest_epoch_ends_def by metis
qed

lemma epoch_end_successor:
  assumes "byzantine_bound v byz" "honest_epoch_ends lc v byz"
    and "quorum_signed lc v ls" "bt_wf (ls_signatures ls)" "li_next_epoch_state (ls_ledger_info ls) = Some e"
  shows "unat (es_epoch e) = unat (li_epoch (ls_ledger_info ls)) + 1"
proof -
  obtain a where a: "a \<in> set (bt_keys (ls_signatures ls))" "a \<notin> byz"
    using vq.quorum_has_honest [of "(v, byz)" "set (bt_keys (ls_signatures ls))"]
      assms quorum_signed_is_quorum by fastforce
  then obtain pk sg where "get_public_key v a = Some pk" "sig_verify (lc_li_sigs lc) pk (ls_ledger_info ls) sg"
    using quorum_signed_author [OF assms(3)] by blast
  then show ?thesis
    using assms(2,5) a(2) unfolding honest_epoch_ends_def by blast
qed

text \<open>The assumption on the validators of every epoch reached from the trusted one.\<close>

definition honest_chain :: "ledger_crypto \<Rightarrow> (epoch_state \<Rightarrow> account_address set) \<Rightarrow> epoch_state \<Rightarrow> bool" where
  "honest_chain lc byz es \<longleftrightarrow>
     (\<forall>lis es'. epoch_chain lc es lis es' \<longrightarrow>
        byzantine_bound (es_verifier es') (byz es') \<and> honest_epoch_ends lc (es_verifier es') (byz es'))"

lemma honest_chain_here:
  "honest_chain lc byz es \<Longrightarrow>
     byzantine_bound (es_verifier es) (byz es) \<and> honest_epoch_ends lc (es_verifier es) (byz es)"
  unfolding honest_chain_def using chain_refl by blast

lemma honest_chain_step:
  "honest_chain lc byz es \<Longrightarrow> li_epoch (ls_ledger_info ls) = es_epoch es \<Longrightarrow>
     quorum_signed lc (es_verifier es) ls \<Longrightarrow> li_next_epoch_state (ls_ledger_info ls) = Some es' \<Longrightarrow>
     honest_chain lc byz es'"
  unfolding honest_chain_def by (metis chain_step)

abbreviation sigs_wf :: "ledger_info_with_signatures list \<Rightarrow> bool" where
  "sigs_wf lis \<equiv> list_all (\<lambda>ls. bt_wf (ls_signatures ls)) lis"

lemma epoch_chain_length:
  "epoch_chain lc es lis es' \<Longrightarrow> honest_chain lc byz es \<Longrightarrow> sigs_wf lis \<Longrightarrow>
     unat (es_epoch es') = unat (es_epoch es) + length lis"
proof (induction rule: epoch_chain.induct)
  case (chain_refl es)
  then show ?case by simp
next
  case (chain_step ls es es' rest es'')
  then have "honest_chain lc byz es'"
    using honest_chain_step by blast
  then show ?case
    using chain_step epoch_end_successor honest_chain_here by fastforce
qed

lemma epoch_chain_agree:
  "epoch_chain lc es lis1 e1 \<Longrightarrow> epoch_chain lc es lis2 e2 \<Longrightarrow> honest_chain lc byz es \<Longrightarrow>
     sigs_wf lis1 \<Longrightarrow> sigs_wf lis2 \<Longrightarrow> length lis1 = length lis2 \<Longrightarrow> e1 = e2"
proof (induction arbitrary: lis2 rule: epoch_chain.induct)
  case (chain_refl es)
  then show ?case by simp
next
  case (chain_step ls es es' rest es'')
  then obtain ls2 rest2 where lis2: "lis2 = ls2 # rest2"
    by (metis length_Suc_conv)
  then obtain e2' where 2: "li_epoch (ls_ledger_info ls2) = es_epoch es"
    "quorum_signed lc (es_verifier es) ls2" "li_next_epoch_state (ls_ledger_info ls2) = Some e2'"
    "epoch_chain lc e2' rest2 e2"
    using chain_step.prems(1) by auto
  have "es' = e2'"
    using chain_step 2 honest_chain_here [OF chain_step.prems(2)] lis2
    by (intro epoch_end_unique [of "es_verifier es" "byz es" lc ls es' ls2]) auto
  moreover have "honest_chain lc byz es'"
    using chain_step honest_chain_step by blast
  ultimately show ?case
    using chain_step 2 lis2 by auto
qed

text \<open>A concrete epoch change of four validators, whose keys have signed nothing else.\<close>

definition epoch_one :: epoch_state where
  "epoch_one = \<lparr>es_epoch = 1, es_verifier = four_verifier\<rparr>"

definition epoch_two :: epoch_state where
  "epoch_two = \<lparr>es_epoch = 2, es_verifier = four_verifier\<rparr>"

definition epoch_one_end :: ledger_info where
  "epoch_one_end =
     \<lparr>li_commit_info = \<lparr>bi_epoch = 1, bi_round = 7, bi_id = 5, bi_executed_state_id = 9, bi_version = 1,
        bi_timestamp_usecs = 1000, bi_next_epoch_state = Some epoch_two\<rparr>, li_consensus_data_hash = 3\<rparr>"

definition signed_once :: ledger_crypto where
  "signed_once =
     \<lparr>lc_li_sigs = \<lparr>sig_verify = (\<lambda>pk m sg. m = epoch_one_end \<and> sg = ucast pk),
        sig_batch = (\<lambda>m. list_all (\<lambda>(pk, sg). m = epoch_one_end \<and> sg = ucast pk))\<rparr>,
      lc_waypoint_hash = l2w_root_hash\<rparr>"

definition epoch_one_proof :: "(account_address, signature) btree_map \<Rightarrow> epoch_change_proof" where
  "epoch_one_proof sigs =
     \<lparr>ecp_ledger_info_with_sigs = [\<lparr>ls_ledger_info = epoch_one_end, ls_signatures = sigs\<rparr>], ecp_more = False\<rparr>"

lemma signed_once_sound: "batch_sound (lc_li_sigs signed_once)"
  by (auto simp: batch_sound_def signed_once_def list_all_iff)

lemma epoch_one_proof_ok:
  "ecp_verify signed_once (epoch_one_proof [(1, 11), (2, 12), (3, 13)]) (epoch_state_verifier signed_once epoch_one) =
     Ok \<lparr>ls_ledger_info = epoch_one_end, ls_signatures = [(1, 11), (2, 12), (3, 13)]\<rparr>"
  "ecp_verify signed_once (epoch_one_proof [(2, 12), (3, 13), (4, 14)]) (epoch_state_verifier signed_once epoch_one) =
     Ok \<lparr>ls_ledger_info = epoch_one_end, ls_signatures = [(2, 12), (3, 13), (4, 14)]\<rparr>"
  by (simp_all add: ecp_verify_def epoch_one_proof_def epoch_state_verifier_def epoch_state_verify_def
      epoch_one_def epoch_one_end_def signed_once_def verify_signatures_def ensure_def
      batch_verify_aggregated_signatures_def check_num_of_signatures_def verifier_len_def four_verifier_def
      four_validators_def check_voting_power_def get_voting_power_def get_public_key_def ok_or_def)

lemma honest_epoch_one: "honest_chain signed_once (\<lambda>_. {}) epoch_one"
proof -
  have four: "es_verifier es' = four_verifier"
    if "epoch_chain signed_once es lis es'" "es_verifier es = four_verifier" for es lis es'
    using that
  proof (induction rule: epoch_chain.induct)
    case (chain_step ls es es' rest es'')
    have "ls_signatures ls \<noteq> []"
      using chain_step by (auto simp: quorum_signed_def check_voting_power_def four_verifier_def)
    then have "ls_ledger_info ls = epoch_one_end"
      using chain_step(2) by (cases "ls_signatures ls") (auto simp: quorum_signed_def signed_once_def)
    then show ?case
      using chain_step by (auto simp: epoch_one_end_def epoch_two_def)
  qed simp
  have "byzantine_bound four_verifier {}"
    using wf_four_verifier four_power by (simp add: byzantine_bound_def power_of_def four_verifier_def)
  moreover have "honest_epoch_ends signed_once four_verifier {}"
    by (auto simp: honest_epoch_ends_def signed_once_def epoch_one_end_def epoch_two_def)
  ultimately show ?thesis
    using four unfolding honest_chain_def epoch_one_def by fastforce
qed

text \<open>C16: Soundness of \<open>EpochChangeProof::verify\<close> from a trusted epoch. The proof splits into a
  prefix of ledger infos of older epochs, which is skipped, and a chain that leads from the
  trusted validator set to a new one: every ledger info of the chain is of the epoch trusted at
  that point, carries valid signatures of a quorum of its validators and names the validator set
  trusted next. The returned ledger info is the last of the chain and names the final one.\<close>

theorem epoch_change_proof_sound:
  assumes "batch_sound (lc_li_sigs lc)"
    and "ecp_verify lc p (epoch_state_verifier lc es) = Ok ls"
  shows "\<exists>skipped chain es'.
    ecp_ledger_info_with_sigs p = skipped @ chain \<and>
    list_all (\<lambda>l. li_epoch (ls_ledger_info l) < es_epoch es) skipped \<and>
    chain \<noteq> [] \<and> ls = last chain \<and> epoch_chain lc es chain es' \<and>
    li_next_epoch_state (ls_ledger_info ls) = Some es'"
  using epoch_chain_of_proof [OF assms] by metis

theorem epoch_change_proof_sound_witness:
  "\<exists>skipped chain es'.
    ecp_ledger_info_with_sigs (epoch_one_proof [(1, 11), (2, 12), (3, 13)]) = skipped @ chain \<and>
    list_all (\<lambda>l. li_epoch (ls_ledger_info l) < es_epoch epoch_one) skipped \<and>
    chain \<noteq> [] \<and> \<lparr>ls_ledger_info = epoch_one_end, ls_signatures = [(1, 11), (2, 12), (3, 13)]\<rparr> = last chain \<and>
    epoch_chain signed_once epoch_one chain es' \<and> li_next_epoch_state epoch_one_end = Some es'"
  using epoch_change_proof_sound [OF signed_once_sound epoch_one_proof_ok(1)] by simp

text \<open>C15: Agreement of light clients. If in every epoch reachable from the trusted one less than a
  third of the voting power is faulty and the other validators sign at most one successor of their
  epoch, then two epoch change proofs that are accepted from the same trusted epoch and lead to
  the same epoch number lead to the same epoch state: the same validator set.\<close>

theorem epoch_change_agreement:
  assumes "batch_sound (lc_li_sigs lc)" and "honest_chain lc byz es"
    and "ecp_verify lc p1 (epoch_state_verifier lc es) = Ok ls1" "sigs_wf (ecp_ledger_info_with_sigs p1)"
    and "ecp_verify lc p2 (epoch_state_verifier lc es) = Ok ls2" "sigs_wf (ecp_ledger_info_with_sigs p2)"
    and "li_next_block_epoch (ls_ledger_info ls1) = li_next_block_epoch (ls_ledger_info ls2)"
  shows "li_next_epoch_state (ls_ledger_info ls1) = li_next_epoch_state (ls_ledger_info ls2)"
proof -
  have chain: "\<exists>c es'. epoch_chain lc es c es' \<and> sigs_wf c \<and> li_next_epoch_state (ls_ledger_info ls) = Some es'"
    if ok: "ecp_verify lc p (epoch_state_verifier lc es) = Ok ls" and wf: "sigs_wf (ecp_ledger_info_with_sigs p)"
    for p ls
    using epoch_chain_of_proof [OF assms(1) ok] wf by (metis list_all_append)
  obtain c1 e1 where 1: "epoch_chain lc es c1 e1" "sigs_wf c1" "li_next_epoch_state (ls_ledger_info ls1) = Some e1"
    using chain [OF assms(3,4)] by blast
  obtain c2 e2 where 2: "epoch_chain lc es c2 e2" "sigs_wf c2" "li_next_epoch_state (ls_ledger_info ls2) = Some e2"
    using chain [OF assms(5,6)] by blast
  have "length c1 = length c2"
    using epoch_chain_length [OF 1(1) assms(2) 1(2)] epoch_chain_length [OF 2(1) assms(2) 2(2)] assms(7) 1 2
    by (simp add: bi_next_block_epoch_def)
  then show ?thesis
    using epoch_chain_agree [OF 1(1) 2(1) assms(2) 1(2) 2(2)] 1 2 by simp
qed

theorem epoch_change_agreement_witness:
  "li_next_epoch_state (ls_ledger_info \<lparr>ls_ledger_info = epoch_one_end, ls_signatures = [(1, 11), (2, 12), (3, 13)]\<rparr>) =
   li_next_epoch_state (ls_ledger_info \<lparr>ls_ledger_info = epoch_one_end, ls_signatures = [(2, 12), (3, 13), (4, 14)]\<rparr>)"
  by (rule epoch_change_agreement [OF signed_once_sound honest_epoch_one epoch_one_proof_ok(1) _ epoch_one_proof_ok(2)])
    (simp_all add: epoch_one_proof_def bt_wf_def)

end
