(* ===== verification/Accumulator.thy ===== *)
theory Accumulator
  imports Ledger_Types
begin

unbundle bit_operations_syntax

text \<open>
  Merkle accumulators: \<^verbatim>\<open>types/src/proof/accumulator/mod.rs\<close> (the in-memory accumulator),
  and from \<^verbatim>\<open>types/src/proof/definition.rs\<close> the inclusion proof \<open>AccumulatorProof\<close>, the
  \<open>TransactionAccumulatorSummary\<close> and the \<open>AccumulatorExtensionProof\<close>.

  The hash of an internal node is the parameter \<open>ih\<close>. A \<open>Vec\<close> of frozen subtree roots is a
  list in the order of the source; the loops that push and pop at its end run on the reversed
  list. The reference definition is \<open>merkle_root\<close>, the root of the binary tree over the leaves
  padded with placeholders; \<open>frozen\<close> lists the roots of its maximal full subtrees.
\<close>

section \<open>Bit counting on 64-bit words\<close>

definition trailing_zeros :: "u64 \<Rightarrow> nat" where
  "trailing_zeros w = length (takeWhile (\<lambda>i. \<not> bit w i) [0..<64])"

definition count_ones :: "u64 \<Rightarrow> nat" where
  "count_ones w = length (filter (bit w) [0..<64])"

section \<open>The in-memory accumulator\<close>

abbreviation (input) MAX_ACCUMULATOR_PROOF_DEPTH :: nat where "MAX_ACCUMULATOR_PROOF_DEPTH \<equiv> 63"

abbreviation (input) MAX_ACCUMULATOR_LEAVES :: u64 where
  "MAX_ACCUMULATOR_LEAVES \<equiv> push_bit MAX_ACCUMULATOR_PROOF_DEPTH 1"

type_synonym internal_hash = "hash_value \<Rightarrow> hash_value \<Rightarrow> hash_value"

record in_memory_accumulator =
  acc_frozen_subtree_roots :: "hash_value list"
  acc_num_leaves :: u64
  acc_root_hash :: hash_value

lemma drop_bit_less: "bitmap \<noteq> 0 \<Longrightarrow> unat (drop_bit 1 bitmap) < unat (bitmap :: u64)"
proof -
  assume "bitmap \<noteq> 0"
  then have "unat bitmap > 0" by (simp add: unat_gt_0)
  then show ?thesis by (simp add: drop_bit_eq_div unat_div_distrib)
qed

function compute_root_hash_loop ::
    "internal_hash \<Rightarrow> u64 \<Rightarrow> hash_value \<Rightarrow> hash_value list \<Rightarrow> (anyhow_error, hash_value) result" where
  "compute_root_hash_loop ih bitmap current_hash frozen_subtree_iter =
     (if bitmap = 0 then Ok current_hash
      else if bitmap AND 1 \<noteq> 0 then
        (case frozen_subtree_iter of
           [] \<Rightarrow> Panic
         | r # rest \<Rightarrow> compute_root_hash_loop ih (drop_bit 1 bitmap) (ih r current_hash) rest)
      else compute_root_hash_loop ih (drop_bit 1 bitmap)
             (ih current_hash accumulator_placeholder_hash) frozen_subtree_iter)"
  by pat_completeness auto
termination
  by (relation "measure (\<lambda>(ih, bitmap, _, _). unat bitmap)") (use drop_bit_less in auto)

declare compute_root_hash_loop.simps [simp del]

definition compute_root_hash ::
    "internal_hash \<Rightarrow> hash_value list \<Rightarrow> u64 \<Rightarrow> (anyhow_error, hash_value) result" where
  "compute_root_hash ih roots num_leaves =
     (case roots of
        [] \<Rightarrow> Ok accumulator_placeholder_hash
      | [r] \<Rightarrow> Ok r
      | _ \<Rightarrow> compute_root_hash_loop ih (drop_bit (trailing_zeros num_leaves) num_leaves)
               accumulator_placeholder_hash (rev roots))"

definition accumulator_new ::
    "internal_hash \<Rightarrow> hash_value list \<Rightarrow> u64 \<Rightarrow> (anyhow_error, in_memory_accumulator) result" where
  "accumulator_new ih roots num_leaves =
     bind_res (ensure (length roots = count_ones num_leaves)
       (Msg ''The number of frozen subtrees does not match the number of leaves.'')) (\<lambda>_.
     bind_res (compute_root_hash ih roots num_leaves) (\<lambda>root_hash.
     Ok \<lparr>acc_frozen_subtree_roots = roots, acc_num_leaves = num_leaves, acc_root_hash = root_hash\<rparr>))"

definition accumulator_new_empty :: in_memory_accumulator where
  "accumulator_new_empty =
     \<lparr>acc_frozen_subtree_roots = [], acc_num_leaves = 0,
      acc_root_hash = sparse_merkle_placeholder_hash\<rparr>"

definition unwrap_or_panic :: "('e, 'a) result \<Rightarrow> ('e, 'a) result" where
  "unwrap_or_panic r = (case r of Ok x \<Rightarrow> Ok x | _ \<Rightarrow> Panic)"

definition accumulator_default :: "internal_hash \<Rightarrow> (anyhow_error, in_memory_accumulator) result" where
  "accumulator_default ih = unwrap_or_panic (accumulator_new ih [] 0)"

fun merge_last :: "internal_hash \<Rightarrow> nat \<Rightarrow> hash_value list \<Rightarrow> (anyhow_error, hash_value list) result" where
  "merge_last ih 0 stack = Ok stack"
| "merge_last ih (Suc i) (right_hash # left_hash # stack) =
     merge_last ih i (ih left_hash right_hash # stack)"
| "merge_last ih (Suc i) stack = Panic"

definition append_one ::
    "internal_hash \<Rightarrow> hash_value list \<Rightarrow> u64 \<Rightarrow> hash_value \<Rightarrow> (anyhow_error, hash_value list) result" where
  "append_one ih roots num_existing_leaves leaf =
     (let num_trailing_ones = trailing_zeros (NOT num_existing_leaves)
      in bind_res (merge_last ih num_trailing_ones (leaf # rev roots)) (\<lambda>stack. Ok (rev stack)))"

fun append_loop ::
    "internal_hash \<Rightarrow> hash_value list \<Rightarrow> u64 \<Rightarrow> hash_value list
      \<Rightarrow> (anyhow_error, hash_value list \<times> u64) result" where
  "append_loop ih roots num_leaves [] = Ok (roots, num_leaves)"
| "append_loop ih roots num_leaves (leaf # leaves) =
     bind_res (append_one ih roots num_leaves leaf) (\<lambda>roots'.
       append_loop ih roots' (num_leaves + 1) leaves)"

definition accumulator_append ::
    "internal_hash \<Rightarrow> in_memory_accumulator \<Rightarrow> hash_value list
      \<Rightarrow> (anyhow_error, in_memory_accumulator) result" where
  "accumulator_append ih acc leaves =
     bind_res (append_loop ih (acc_frozen_subtree_roots acc) (acc_num_leaves acc) leaves)
       (\<lambda>(roots, num_leaves). unwrap_or_panic (accumulator_new ih roots num_leaves))"

definition from_leaves ::
    "internal_hash \<Rightarrow> hash_value list \<Rightarrow> (anyhow_error, in_memory_accumulator) result" where
  "from_leaves ih leaves =
     bind_res (accumulator_default ih) (\<lambda>acc. accumulator_append ih acc leaves)"

text \<open>The inner loop of \<open>append_subtrees\<close> returns the combined hash, the mask and the stack left.\<close>

fun combine_subtrees ::
    "internal_hash \<Rightarrow> u64 \<Rightarrow> u64 \<Rightarrow> hash_value \<Rightarrow> hash_value list
      \<Rightarrow> (anyhow_error, hash_value \<times> u64 \<times> hash_value list) result" where
  "combine_subtrees ih current_num_leaves msk current_hash [] =
     (if current_num_leaves AND msk \<noteq> 0 then Panic else Ok (current_hash, msk, []))"
| "combine_subtrees ih current_num_leaves msk current_hash (left_hash # stack) =
     (if current_num_leaves AND msk \<noteq> 0
      then combine_subtrees ih current_num_leaves (push_bit 1 msk) (ih left_hash current_hash) stack
      else Ok (current_hash, msk, left_hash # stack))"

text \<open>
  The outer loop consumes one new subtree per iteration, so it ends even if \<open>mask\<close> is shifted
  out to zero. It returns the stack, the number of leaves, the remaining new leaves and subtrees.
\<close>

fun append_subtrees_loop ::
    "internal_hash \<Rightarrow> hash_value list \<Rightarrow> u64 \<Rightarrow> u64 \<Rightarrow> u64 \<Rightarrow> hash_value list
      \<Rightarrow> (anyhow_error, hash_value list \<times> u64 \<times> u64 \<times> hash_value list) result" where
  "append_subtrees_loop ih stack current_num_leaves remaining rightmost_size [] =
     (if remaining \<ge> rightmost_size then Err (Msg ''Too few subtrees.'')
      else Ok (stack, current_num_leaves, remaining, []))"
| "append_subtrees_loop ih stack current_num_leaves remaining rightmost_size (subtree # subtrees) =
     (if remaining \<ge> rightmost_size then
        bind_res (combine_subtrees ih current_num_leaves rightmost_size subtree stack)
          (\<lambda>(current_hash, msk, stack').
             append_subtrees_loop ih (current_hash # stack') (current_num_leaves + rightmost_size)
               (remaining - rightmost_size) msk subtrees)
      else Ok (stack, current_num_leaves, remaining, subtree # subtrees))"

definition append_subtrees ::
    "internal_hash \<Rightarrow> in_memory_accumulator \<Rightarrow> hash_value list \<Rightarrow> u64
      \<Rightarrow> (anyhow_error, in_memory_accumulator) result" where
  "append_subtrees ih acc subtrees num_new_leaves =
     bind_res (ensure (num_new_leaves \<le> MAX_ACCUMULATOR_LEAVES - acc_num_leaves acc)
       (Msg ''Too many new leaves.'')) (\<lambda>_.
     if acc_num_leaves acc = 0 then accumulator_new ih subtrees num_new_leaves
     else bind_res (append_subtrees_loop ih (rev (acc_frozen_subtree_roots acc)) (acc_num_leaves acc)
            num_new_leaves (push_bit (trailing_zeros (acc_num_leaves acc)) 1) subtrees)
          (\<lambda>(stack, current_num_leaves, remaining, rest).
             accumulator_new ih (rev stack @ rest) (current_num_leaves + remaining)))"

definition accumulator_version :: "in_memory_accumulator \<Rightarrow> u64" where
  "accumulator_version acc = (if acc_num_leaves acc = 0 then 0 else acc_num_leaves acc - 1)"

definition accumulator_is_empty :: "in_memory_accumulator \<Rightarrow> bool" where
  "accumulator_is_empty acc \<longleftrightarrow> acc_num_leaves acc = 0"

section \<open>Inclusion proofs\<close>

fun accumulator_proof_fold ::
    "internal_hash \<Rightarrow> hash_value \<times> u64 \<Rightarrow> hash_value list \<Rightarrow> hash_value \<times> u64" where
  "accumulator_proof_fold ih (h, index) [] = (h, index)"
| "accumulator_proof_fold ih (h, index) (sibling_hash # siblings) =
     accumulator_proof_fold ih
       (if index mod 2 = 0 then ih h sibling_hash else ih sibling_hash h, index div 2) siblings"

definition accumulator_proof_verify ::
    "internal_hash \<Rightarrow> hash_value list \<Rightarrow> hash_value \<Rightarrow> hash_value \<Rightarrow> u64 \<Rightarrow> (anyhow_error, unit) result" where
  "accumulator_proof_verify ih siblings expected_root_hash element_hash element_index =
     bind_res (ensure (length siblings \<le> MAX_ACCUMULATOR_PROOF_DEPTH)
       (Msg ''Accumulator proof has too many siblings.'')) (\<lambda>_.
     let actual_root_hash = fst (accumulator_proof_fold ih (element_hash, element_index) siblings)
     in bind_res (ensure (actual_root_hash = expected_root_hash) (Msg ''Root hashes do not match.'')) (\<lambda>_.
        Ok ()))"

section \<open>Summaries and extension proofs\<close>

definition summary_new :: "in_memory_accumulator \<Rightarrow> (anyhow_error, in_memory_accumulator) result" where
  "summary_new acc =
     bind_res (ensure (\<not> accumulator_is_empty acc) (Msg ''empty accumulator'')) (\<lambda>_. Ok acc)"

definition verify_consistency :: "in_memory_accumulator \<Rightarrow> ledger_info \<Rightarrow> (anyhow_error, unit) result" where
  "verify_consistency acc li =
     bind_res (ensure (li_version li = accumulator_version acc)
       (Msg ''ledger info and accumulator must be at the same version'')) (\<lambda>_.
     bind_res (ensure (li_transaction_accumulator_hash li = acc_root_hash acc)
       (Msg ''ledger info root hash and accumulator root hash must match'')) (\<lambda>_.
     Ok ()))"

definition try_from_genesis_proof ::
    "internal_hash \<Rightarrow> hash_value list \<Rightarrow> u64 \<Rightarrow> (anyhow_error, in_memory_accumulator) result" where
  "try_from_genesis_proof ih subtrees target_version =
     (let num_txns = saturating_add target_version 1 in accumulator_new ih subtrees num_txns)"

definition try_extend_with_proof ::
    "internal_hash \<Rightarrow> in_memory_accumulator \<Rightarrow> hash_value list \<Rightarrow> ledger_info
      \<Rightarrow> (anyhow_error, in_memory_accumulator) result" where
  "try_extend_with_proof ih acc subtrees target_li =
     bind_res (ensure (li_version target_li \<ge> accumulator_version acc)
       (Msg ''target ledger info version must be newer than our current accumulator summary version'')) (\<lambda>_.
     let num_new_txns = li_version target_li - accumulator_version acc in
     bind_res (append_subtrees ih acc subtrees num_new_txns) (\<lambda>new_accumulator.
     bind_res (map_err (Context ''accumulator is not consistent with the target ledger info'')
                 (verify_consistency new_accumulator target_li)) (\<lambda>_.
     Ok new_accumulator)))"

record accumulator_extension_proof =
  aep_frozen_subtree_roots :: "hash_value list"
  aep_num_leaves :: u64
  aep_leaves :: "hash_value list"

definition extension_proof_verify ::
    "internal_hash \<Rightarrow> accumulator_extension_proof \<Rightarrow> hash_value
      \<Rightarrow> (anyhow_error, in_memory_accumulator) result" where
  "extension_proof_verify ih p original_root =
     bind_res (accumulator_new ih (aep_frozen_subtree_roots p) (aep_num_leaves p)) (\<lambda>original_tree.
     bind_res (ensure (acc_root_hash original_tree = original_root) (Msg ''Root hashes do not match.'')) (\<lambda>_.
     accumulator_append ih original_tree (aep_leaves p)))"

end
