(* ===== verification/Trusted_State.thy ===== *)
theory Trusted_State
  imports Epoch_Change Accumulator
begin

text \<open>
  The trusted state of a light client and how a state proof ratchets it forward:
  \<^verbatim>\<open>types/src/trusted_state.rs\<close>. The hash of the nodes of the transaction accumulator is
  the parameter \<open>ih\<close>.
\<close>

section \<open>Data\<close>

datatype trusted_state =
    EpochWaypoint waypoint
  | EpochState (ts_waypoint: waypoint) (ts_epoch_state: epoch_state) (ts_accumulator: in_memory_accumulator)

datatype trusted_state_change =
    VersionChange trusted_state
  | EpochChange trusted_state ledger_info_with_signatures
  | NoChange

record state_proof =
  sp_latest_li :: ledger_info_with_signatures
  sp_epoch_changes :: epoch_change_proof
  sp_consistency_proof :: "hash_value list"

section \<open>Operations\<close>

definition try_from_epoch_change_li ::
    "ledger_crypto \<Rightarrow> ledger_info \<Rightarrow> in_memory_accumulator \<Rightarrow> (anyhow_error, trusted_state) result" where
  "try_from_epoch_change_li lc li accumulator =
     bind_res (verify_consistency accumulator li) (\<lambda>_.
     bind_res (ok_or (li_next_epoch_state li) (Msg ''No EpochState in LedgerInfo'')) (\<lambda>es.
     bind_res (waypoint_new_epoch_boundary lc li) (\<lambda>w.
     Ok (EpochState w es accumulator))))"

definition is_epoch_waypoint :: "trusted_state \<Rightarrow> bool" where
  "is_epoch_waypoint st = (case st of EpochWaypoint _ \<Rightarrow> True | EpochState _ _ _ \<Rightarrow> False)"

definition trusted_waypoint :: "trusted_state \<Rightarrow> waypoint" where
  "trusted_waypoint st = (case st of EpochWaypoint w \<Rightarrow> w | EpochState w _ _ \<Rightarrow> w)"

definition trusted_version :: "trusted_state \<Rightarrow> u64" where
  "trusted_version st = wp_version (trusted_waypoint st)"

definition accumulator_root_hash :: "trusted_state \<Rightarrow> hash_value option" where
  "accumulator_root_hash st =
     (case st of EpochWaypoint _ \<Rightarrow> None | EpochState _ _ accumulator \<Rightarrow> Some (acc_root_hash accumulator))"

definition accumulator_summary :: "trusted_state \<Rightarrow> in_memory_accumulator option" where
  "accumulator_summary st =
     (case st of EpochWaypoint _ \<Rightarrow> None | EpochState _ _ accumulator \<Rightarrow> Some accumulator)"

definition need_accumulator :: "trusted_state \<Rightarrow> bool" where
  "need_accumulator st \<longleftrightarrow> accumulator_summary st = None"

definition trusted_state_verifier :: "ledger_crypto \<Rightarrow> trusted_state \<Rightarrow> dyn_verifier" where
  "trusted_state_verifier lc st =
     (case st of
        EpochWaypoint w \<Rightarrow> waypoint_verifier lc w
      | EpochState _ es _ \<Rightarrow> epoch_state_verifier lc es)"

definition current_accumulator ::
    "trusted_state \<Rightarrow> epoch_change_proof \<Rightarrow> in_memory_accumulator option
      \<Rightarrow> (anyhow_error, in_memory_accumulator) result" where
  "current_accumulator st proof initial =
     (case st of
        EpochWaypoint _ \<Rightarrow>
          bind_res (expect initial) (\<lambda>acc.
          bind_res (ok_or (case ecp_ledger_info_with_sigs proof of [] \<Rightarrow> None | ls # _ \<Rightarrow> Some (ls_ledger_info ls))
                      (Msg ''Empty epoch change proof'')) (\<lambda>waypoint_li.
          bind_res (verify_consistency acc waypoint_li) (\<lambda>_. Ok acc)))
      | EpochState _ _ acc \<Rightarrow> Ok acc)"

text \<open>The branch in which the epoch change proof has to move the client into a new epoch.\<close>

definition ratchet_epoch ::
    "ledger_crypto \<Rightarrow> internal_hash \<Rightarrow> trusted_state \<Rightarrow> in_memory_accumulator \<Rightarrow> ledger_info_with_signatures
      \<Rightarrow> epoch_change_proof \<Rightarrow> hash_value list \<Rightarrow> (anyhow_error, trusted_state_change) result" where
  "ratchet_epoch lc ih st curr_accumulator latest_li ecp consistency_proof =
     bind_res (ecp_verify lc ecp (trusted_state_verifier lc st)) (\<lambda>epoch_change_li.
     bind_res (ok_or (li_next_epoch_state (ls_ledger_info epoch_change_li))
                 (Msg ''A valid EpochChangeProof will never return a non-epoch change ledger info''))
       (\<lambda>new_epoch_state.
     let new_epoch = es_epoch new_epoch_state in
     bind_res
       (if epoch_change_li = latest_li then Ok latest_li
        else if li_epoch (ls_ledger_info latest_li) = new_epoch then
          bind_res (epoch_state_verify lc new_epoch_state latest_li) (\<lambda>_. Ok latest_li)
        else if li_epoch (ls_ledger_info latest_li) > new_epoch \<and> ecp_more ecp then Ok epoch_change_li
        else Err (Msg ''Inconsistent epoch change proof and latest ledger info''))
       (\<lambda>verified_ledger_info.
     let new_waypoint = waypoint_new_any lc (ls_ledger_info verified_ledger_info) in
     bind_res (try_extend_with_proof ih curr_accumulator consistency_proof (ls_ledger_info verified_ledger_info))
       (\<lambda>new_accumulator.
     Ok (EpochChange (EpochState new_waypoint new_epoch_state new_accumulator) epoch_change_li)))))"

text \<open>The branch in which the latest ledger info belongs to the epoch already trusted.\<close>

definition ratchet_version ::
    "ledger_crypto \<Rightarrow> internal_hash \<Rightarrow> trusted_state \<Rightarrow> in_memory_accumulator \<Rightarrow> ledger_info_with_signatures
      \<Rightarrow> hash_value list \<Rightarrow> (anyhow_error, trusted_state_change) result" where
  "ratchet_version lc ih st curr_accumulator latest_li consistency_proof =
     (case st of
        EpochWaypoint _ \<Rightarrow> Err (Msg ''EpochWaypoint can only verify an epoch change ledger info'')
      | EpochState curr_waypoint curr_epoch_state _ \<Rightarrow>
          (let new_waypoint = waypoint_new_any lc (ls_ledger_info latest_li) in
           if wp_version new_waypoint = wp_version curr_waypoint then
             bind_res (ensure (new_waypoint = curr_waypoint) (Msg ''LedgerInfo doesn't match verified state''))
               (\<lambda>_. Ok NoChange)
           else
             bind_res (epoch_state_verify lc curr_epoch_state latest_li) (\<lambda>_.
             bind_res (try_extend_with_proof ih curr_accumulator consistency_proof (ls_ledger_info latest_li))
               (\<lambda>new_accumulator.
             Ok (VersionChange (EpochState new_waypoint curr_epoch_state new_accumulator))))))"

definition verify_and_ratchet_inner ::
    "ledger_crypto \<Rightarrow> internal_hash \<Rightarrow> trusted_state \<Rightarrow> ledger_info_with_signatures \<Rightarrow> epoch_change_proof
      \<Rightarrow> hash_value list \<Rightarrow> in_memory_accumulator option \<Rightarrow> (anyhow_error, trusted_state_change) result" where
  "verify_and_ratchet_inner lc ih st latest_li ecp consistency_proof initial_accumulator =
     (let curr_version = trusted_version st; target_version = li_version (ls_ledger_info latest_li) in
      bind_res (ensure (target_version \<ge> curr_version) (Msg ''The target latest ledger info version is stale'')) (\<lambda>_.
      bind_res (current_accumulator st ecp initial_accumulator) (\<lambda>curr_accumulator.
      if dv_epoch_change_verification_required (trusted_state_verifier lc st)
           (li_next_block_epoch (ls_ledger_info latest_li))
      then ratchet_epoch lc ih st curr_accumulator latest_li ecp consistency_proof
      else ratchet_version lc ih st curr_accumulator latest_li consistency_proof)))"

definition verify_and_ratchet ::
    "ledger_crypto \<Rightarrow> internal_hash \<Rightarrow> trusted_state \<Rightarrow> state_proof \<Rightarrow> in_memory_accumulator option
      \<Rightarrow> (anyhow_error, trusted_state_change) result" where
  "verify_and_ratchet lc ih st sp initial_accumulator =
     verify_and_ratchet_inner lc ih st (sp_latest_li sp) (sp_epoch_changes sp) (sp_consistency_proof sp)
       initial_accumulator"

definition change_new_state :: "trusted_state_change \<Rightarrow> trusted_state option" where
  "change_new_state c =
     (case c of VersionChange st \<Rightarrow> Some st | EpochChange st _ \<Rightarrow> Some st | NoChange \<Rightarrow> None)"

definition is_epoch_change :: "trusted_state_change \<Rightarrow> bool" where
  "is_epoch_change c = (case c of EpochChange _ _ \<Rightarrow> True | _ \<Rightarrow> False)"

section \<open>The trait contract\<close>

interpretation tsv: ledger_verifier trusted_state_verifier
proof unfold_locales
  fix lc st ls
  assume "dv_verify (trusted_state_verifier lc st) ls = Ok ()"
  then show "\<not> dv_is_ledger_info_stale (trusted_state_verifier lc st) (ls_ledger_info ls)"
    using wpv.verified_not_stale esv.verified_not_stale
    by (cases st) (auto simp: trusted_state_verifier_def)
qed

section \<open>Invariant\<close>

text \<open>
  A trusted state inside an epoch is consistent: its waypoint and its accumulator summary are at
  the same version.
\<close>

definition wf_trusted :: "trusted_state \<Rightarrow> bool" where
  "wf_trusted st =
     (case st of EpochWaypoint _ \<Rightarrow> True | EpochState w es acc \<Rightarrow> accumulator_version acc = wp_version w)"

lemma verify_consistency_Ok_iff:
  "verify_consistency acc li = Ok () \<longleftrightarrow>
     li_version li = accumulator_version acc \<and> li_transaction_accumulator_hash li = acc_root_hash acc"
  by (auto simp: verify_consistency_def bind_res_Ok_iff)

lemma try_extend_Ok:
  assumes "try_extend_with_proof ih acc subtrees li = Ok acc'"
  shows "accumulator_version acc \<le> li_version li" "accumulator_version acc' = li_version li"
    "acc_root_hash acc' = li_transaction_accumulator_hash li"
  using assms by (auto simp: try_extend_with_proof_def bind_res_Ok_iff verify_consistency_Ok_iff Let_def)

lemma try_from_epoch_change_li_wf:
  "try_from_epoch_change_li lc li acc = Ok st \<Longrightarrow> wf_trusted st \<and> trusted_version st = li_version li"
  by (auto simp: try_from_epoch_change_li_def bind_res_Ok_iff verify_consistency_Ok_iff wf_trusted_def
      waypoint_new_epoch_boundary_def trusted_version_def trusted_waypoint_def)

lemma ecp_verify_last_not_stale:
  "ecp_verify lc p v = Ok ls \<Longrightarrow> \<not> dv_is_ledger_info_stale v (ls_ledger_info ls)"
  by (auto simp: ecp_verify_def Let_def bind_res_Ok_iff)

lemma ratchet_epoch_Ok:
  assumes "ratchet_epoch lc ih st acc latest_li ecp cp = Ok c"
  obtains ec_li es' ls acc' where
    "ecp_verify lc ecp (trusted_state_verifier lc st) = Ok ec_li"
    "li_next_epoch_state (ls_ledger_info ec_li) = Some es'"
    "ls = ec_li \<or> ls = latest_li \<and> epoch_state_verify lc es' ls = Ok ()"
    "try_extend_with_proof ih acc cp (ls_ledger_info ls) = Ok acc'"
    "c = EpochChange (EpochState (waypoint_new_any lc (ls_ledger_info ls)) es' acc') ec_li"
  using assms by (auto simp: ratchet_epoch_def bind_res_Ok_iff Let_def split: if_splits)

lemma ratchet_version_Ok:
  assumes "ratchet_version lc ih st acc latest_li cp = Ok c" "change_new_state c = Some st'"
  obtains w es acc0 acc' where
    "st = EpochState w es acc0" "wp_version w \<noteq> li_version (ls_ledger_info latest_li)"
    "epoch_state_verify lc es latest_li = Ok ()"
    "try_extend_with_proof ih acc cp (ls_ledger_info latest_li) = Ok acc'"
    "c = VersionChange (EpochState (waypoint_new_any lc (ls_ledger_info latest_li)) es acc')"
  using assms
  by (cases st) (auto simp: ratchet_version_def bind_res_Ok_iff Let_def change_new_state_def split: if_splits)

section \<open>Properties\<close>

text \<open>A concrete ratchet: a client at version 0 of epoch 1 receives the end of the epoch.\<close>

definition client_state :: trusted_state where
  "client_state =
     EpochState \<lparr>wp_version = 0, wp_value = 4\<rparr> epoch_one
       \<lparr>acc_frozen_subtree_roots = [4], acc_num_leaves = 1, acc_root_hash = 4\<rparr>"

definition client_proof :: state_proof where
  "client_proof =
     \<lparr>sp_latest_li = \<lparr>ls_ledger_info = epoch_one_end, ls_signatures = [(1, 11), (2, 12), (3, 13)]\<rparr>,
      sp_epoch_changes = epoch_one_proof [(1, 11), (2, 12), (3, 13)], sp_consistency_proof = [5]\<rparr>"

definition client_next :: trusted_state where
  "client_next =
     EpochState \<lparr>wp_version = 1, wp_value = 9\<rparr> epoch_two
       \<lparr>acc_frozen_subtree_roots = [9], acc_num_leaves = 2, acc_root_hash = 9\<rparr>"

lemma trailing_zeros_one: "trailing_zeros 1 = 0"
  by (simp add: trailing_zeros_def upt_conv_Cons)

lemma count_ones_two: "count_ones 2 = 1"
proof -
  have "bit (2 :: u64) i \<longleftrightarrow> i = 1" for i
    using bit_exp_iff [of 1 i, where 'a = u64] by (auto simp: possible_bit_word)
  then have two: "bit (2 :: u64) = (\<lambda>i. i = 1)" by (rule ext)
  have "filter (\<lambda>i. i = 1) [2..<64] = []"
    unfolding filter_empty_conv by simp
  then have "filter (\<lambda>i. i = 1) [0..<64] = [1]"
    using upt_conv_Cons [of 0 64] upt_conv_Cons [of "Suc 0" 64] by (simp flip: numeral_2_eq_2)
  then show ?thesis by (simp only: count_ones_def two) simp
qed

lemma client_extend:
  "append_subtrees (\<lambda>_ _. 9) \<lparr>acc_frozen_subtree_roots = [4], acc_num_leaves = 1, acc_root_hash = 4\<rparr> [5] 1 =
     Ok \<lparr>acc_frozen_subtree_roots = [9], acc_num_leaves = 2, acc_root_hash = 9\<rparr>"
  by (simp add: append_subtrees_def ensure_def accumulator_new_def compute_root_hash_def
      trailing_zeros_one count_ones_two)

lemma client_ratchet:
  "verify_and_ratchet signed_once (\<lambda>_ _. 9) client_state client_proof None =
     Ok (EpochChange client_next \<lparr>ls_ledger_info = epoch_one_end, ls_signatures = [(1, 11), (2, 12), (3, 13)]\<rparr>)"
proof -
  have "dv_epoch_change_verification_required (epoch_state_verifier signed_once epoch_one) 2"
    by (simp add: epoch_state_verifier_def epoch_one_def)
  then show ?thesis
    using epoch_one_proof_ok(1) client_extend
    by (simp add: verify_and_ratchet_def verify_and_ratchet_inner_def client_state_def client_proof_def
        trusted_version_def trusted_waypoint_def current_accumulator_def trusted_state_verifier_def
        ratchet_epoch_def try_extend_with_proof_def accumulator_version_def verify_consistency_def
        bi_next_block_epoch_def ok_or_def ensure_def client_next_def waypoint_new_any_def l2w_new_def)
      (simp add: epoch_one_end_def epoch_two_def signed_once_def)
qed

lemma client_state_wf: "wf_trusted client_state"
  by (simp add: wf_trusted_def client_state_def accumulator_version_def)

text \<open>C17: Ratcheting only moves forward. From a consistent trusted state a state proof that is
  accepted leads to a consistent trusted state whose version is not smaller, and is strictly
  larger when the change stays inside the epoch.\<close>

theorem trusted_state_ratchet_monotone:
  assumes "wf_trusted st"
    and "verify_and_ratchet lc ih st sp initial = Ok c" "change_new_state c = Some st'"
  shows "wf_trusted st' \<and> trusted_version st \<le> trusted_version st' \<and>
    (is_epoch_change c \<or> trusted_version st < trusted_version st')"
proof -
  let ?latest = "sp_latest_li sp"
  from assms(2) obtain acc where fresh: "trusted_version st \<le> li_version (ls_ledger_info ?latest)"
    and acc: "current_accumulator st (sp_epoch_changes sp) initial = Ok acc"
    and c: "ratchet_epoch lc ih st acc ?latest (sp_epoch_changes sp) (sp_consistency_proof sp) = Ok c \<or>
       ratchet_version lc ih st acc ?latest (sp_consistency_proof sp) = Ok c"
    by (auto simp: verify_and_ratchet_def verify_and_ratchet_inner_def Let_def bind_res_Ok_iff split: if_splits)
  from c show ?thesis
  proof
    assume "ratchet_epoch lc ih st acc ?latest (sp_epoch_changes sp) (sp_consistency_proof sp) = Ok c"
    then obtain ec_li es' ls acc' where ec: "ecp_verify lc (sp_epoch_changes sp) (trusted_state_verifier lc st) = Ok ec_li"
      and ls: "ls = ec_li \<or> ls = ?latest"
      and ext: "try_extend_with_proof ih acc (sp_consistency_proof sp) (ls_ledger_info ls) = Ok acc'"
      and c: "c = EpochChange (EpochState (waypoint_new_any lc (ls_ledger_info ls)) es' acc') ec_li"
      by (rule ratchet_epoch_Ok) blast
    have "trusted_version st \<le> li_version (ls_ledger_info ls)"
      using ls fresh ecp_verify_last_not_stale [OF ec] try_extend_Ok [OF ext] acc assms(1)
      by (cases st) (auto simp: trusted_state_verifier_def waypoint_verifier_def trusted_version_def
          trusted_waypoint_def wf_trusted_def current_accumulator_def)
    then show ?thesis
      using assms(3) c try_extend_Ok [OF ext]
      by (auto simp: change_new_state_def wf_trusted_def trusted_version_def trusted_waypoint_def is_epoch_change_def)
  next
    assume "ratchet_version lc ih st acc ?latest (sp_consistency_proof sp) = Ok c"
    then obtain w es acc0 acc' where "st = EpochState w es acc0"
      "wp_version w \<noteq> li_version (ls_ledger_info ?latest)"
      and ext: "try_extend_with_proof ih acc (sp_consistency_proof sp) (ls_ledger_info ?latest) = Ok acc'"
      and "c = VersionChange (EpochState (waypoint_new_any lc (ls_ledger_info ?latest)) es acc')"
      using assms(3) by (rule ratchet_version_Ok)
    then show ?thesis
      using assms(3) fresh try_extend_Ok [OF ext]
      by (auto simp: change_new_state_def wf_trusted_def trusted_version_def trusted_waypoint_def
          is_epoch_change_def intro: le_neq_trans)
  qed
qed

theorem trusted_state_ratchet_monotone_witness:
  "wf_trusted client_next \<and> trusted_version client_state \<le> trusted_version client_next"
  using trusted_state_ratchet_monotone [OF client_state_wf client_ratchet, of client_next]
  by (simp add: change_new_state_def)

text \<open>C18: What an accepted state proof establishes. The new validator set is reached from the
  trusted one by a chain of quorum-signed epoch changes; the new waypoint and the root hash of the
  new accumulator are those of a ledger info that is either the last of that chain or of the new
  epoch and signed by a quorum of the new validator set.\<close>

theorem trusted_state_ratchet_sound:
  assumes "batch_sound (lc_li_sigs lc)"
    and "verify_and_ratchet lc ih (EpochState w es acc) sp initial = Ok c"
    and "change_new_state c = Some st'"
  shows "\<exists>chain es' acc' ls.
    st' = EpochState (waypoint_new_any lc (ls_ledger_info ls)) es' acc' \<and>
    epoch_chain lc es chain es' \<and>
    acc_root_hash acc' = li_transaction_accumulator_hash (ls_ledger_info ls) \<and>
    accumulator_version acc' = li_version (ls_ledger_info ls) \<and>
    (li_epoch (ls_ledger_info ls) = es_epoch es' \<and> quorum_signed lc (es_verifier es') ls \<or>
     chain \<noteq> [] \<and> ls = last chain)"
proof -
  let ?st = "EpochState w es acc" and ?latest = "sp_latest_li sp"
  from assms(2) obtain a where
    "ratchet_epoch lc ih ?st a ?latest (sp_epoch_changes sp) (sp_consistency_proof sp) = Ok c \<or>
     ratchet_version lc ih ?st a ?latest (sp_consistency_proof sp) = Ok c"
    by (auto simp: verify_and_ratchet_def verify_and_ratchet_inner_def Let_def bind_res_Ok_iff split: if_splits)
  then show ?thesis
  proof
    assume "ratchet_epoch lc ih ?st a ?latest (sp_epoch_changes sp) (sp_consistency_proof sp) = Ok c"
    then obtain ec_li es' ls acc' where ec: "ecp_verify lc (sp_epoch_changes sp) (trusted_state_verifier lc ?st) = Ok ec_li"
      and es': "li_next_epoch_state (ls_ledger_info ec_li) = Some es'"
      and ls: "ls = ec_li \<or> ls = ?latest \<and> epoch_state_verify lc es' ls = Ok ()"
      and ext: "try_extend_with_proof ih a (sp_consistency_proof sp) (ls_ledger_info ls) = Ok acc'"
      and c: "c = EpochChange (EpochState (waypoint_new_any lc (ls_ledger_info ls)) es' acc') ec_li"
      by (rule ratchet_epoch_Ok)
    have "ecp_verify lc (sp_epoch_changes sp) (epoch_state_verifier lc es) = Ok ec_li"
      using ec by (simp add: trusted_state_verifier_def)
    then obtain chain where "epoch_chain lc es chain es'" "chain \<noteq> []" "ec_li = last chain"
      using epoch_chain_of_proof [OF assms(1)] es' by (metis option.inject)
    moreover have "st' = EpochState (waypoint_new_any lc (ls_ledger_info ls)) es' acc'"
      using c assms(3) by (simp add: change_new_state_def)
    moreover have "li_epoch (ls_ledger_info ls) = es_epoch es' \<and> quorum_signed lc (es_verifier es') ls \<or> ls = ec_li"
      using ls epoch_state_verify_Ok [OF _ assms(1), of es' ls] by blast
    ultimately show ?thesis
      using try_extend_Ok(2,3) [OF ext]
      by (intro exI [of _ chain] exI [of _ es'] exI [of _ acc'] exI [of _ ls] conjI) simp_all
  next
    assume "ratchet_version lc ih ?st a ?latest (sp_consistency_proof sp) = Ok c"
    then obtain w1 es1 acc1 acc' where same: "?st = EpochState w1 es1 acc1"
      and v1: "epoch_state_verify lc es1 ?latest = Ok ()"
      and ext: "try_extend_with_proof ih a (sp_consistency_proof sp) (ls_ledger_info ?latest) = Ok acc'"
      and c1: "c = VersionChange (EpochState (waypoint_new_any lc (ls_ledger_info ?latest)) es1 acc')"
      using assms(3) by (rule ratchet_version_Ok)
    have "es1 = es" using same by simp
    note v = v1 [unfolded this] and c = c1 [unfolded this]
    show ?thesis
      using c assms(3) try_extend_Ok [OF ext] epoch_state_verify_Ok [OF v assms(1)]
      by (intro exI [of _ "[]"] exI [of _ es] exI [of _ acc'] exI [of _ ?latest]) (auto simp: change_new_state_def)
  qed
qed

theorem trusted_state_ratchet_sound_witness:
  "\<exists>chain es' acc' ls.
    client_next = EpochState (waypoint_new_any signed_once (ls_ledger_info ls)) es' acc' \<and>
    epoch_chain signed_once epoch_one chain es' \<and>
    acc_root_hash acc' = li_transaction_accumulator_hash (ls_ledger_info ls) \<and>
    accumulator_version acc' = li_version (ls_ledger_info ls) \<and>
    (li_epoch (ls_ledger_info ls) = es_epoch es' \<and> quorum_signed signed_once (es_verifier es') ls \<or>
     chain \<noteq> [] \<and> ls = last chain)"
  by (rule trusted_state_ratchet_sound [OF signed_once_sound client_ratchet [unfolded client_state_def]])
    (simp add: change_new_state_def)

end
