(* ===== verification/Merkle_Accumulator.thy ===== *)
theory Merkle_Accumulator
  imports Accumulator
begin

unbundle bit_operations_syntax

text \<open>
  Correctness of the accumulator: the frozen subtree roots and the root hash that the code keeps
  are those of the Merkle tree over the appended leaves.
\<close>

section \<open>Reference definition\<close>

fun tree_root :: "internal_hash \<Rightarrow> nat \<Rightarrow> hash_value list \<Rightarrow> hash_value" where
  "tree_root ih 0 xs = (case xs of [] \<Rightarrow> accumulator_placeholder_hash | x # _ \<Rightarrow> x)"
| "tree_root ih (Suc k) xs =
     (if xs = [] then accumulator_placeholder_hash
      else ih (tree_root ih k (take (2 ^ k) xs)) (tree_root ih k (drop (2 ^ k) xs)))"

fun frozen :: "internal_hash \<Rightarrow> nat \<Rightarrow> hash_value list \<Rightarrow> hash_value list" where
  "frozen ih 0 xs = []"
| "frozen ih (Suc k) xs =
     (if 2 ^ k \<le> length xs
      then tree_root ih k (take (2 ^ k) xs) # frozen ih k (drop (2 ^ k) xs)
      else frozen ih k xs)"

definition tree_depth :: "nat \<Rightarrow> nat" where
  "tree_depth n = length (takeWhile (\<lambda>d. 2 ^ d < n) [0..<64])"

definition merkle_root :: "internal_hash \<Rightarrow> hash_value list \<Rightarrow> hash_value" where
  "merkle_root ih xs = tree_root ih (tree_depth (length xs)) xs"

text \<open>The accumulator that represents a list of leaves.\<close>

definition acc_of :: "internal_hash \<Rightarrow> hash_value list \<Rightarrow> in_memory_accumulator" where
  "acc_of ih xs =
     \<lparr>acc_frozen_subtree_roots = frozen ih 64 xs, acc_num_leaves = word_of_nat (length xs),
      acc_root_hash = merkle_root ih xs\<rparr>"

section \<open>Bits\<close>

lemma bit_top_nat: "n < 2 ^ Suc k \<Longrightarrow> bit n k \<longleftrightarrow> 2 ^ k \<le> (n :: nat)"
proof -
  assume n: "n < 2 ^ Suc k"
  have "n div 2 ^ k < 2" using n by (simp add: div_less_iff_less_mult)
  moreover have "n div 2 ^ k \<noteq> 0 \<longleftrightarrow> 2 ^ k \<le> n" by (simp add: div_eq_0_iff not_less)
  ultimately show ?thesis by (auto simp: bit_iff_odd less_2_cases_iff)
qed

lemma bit_low_nat:
  assumes "2 ^ k \<le> n" "n < 2 ^ Suc k" "i < k"
  shows "bit (n - 2 ^ k) i = bit (n :: nat) i"
proof -
  have "n - 2 ^ k = take_bit k n"
    using assms(1,2) by (simp add: take_bit_eq_mod mod_if le_mod_geq)
  then show ?thesis using assms(3) by (simp add: bit_take_bit_iff)
qed

lemma bit_of_nat_u64: "n < 2 ^ 64 \<Longrightarrow> bit (word_of_nat n :: u64) i = bit n i"
proof -
  assume "n < 2 ^ 64"
  then have "take_bit 64 n = n" by (rule take_bit_nat_eq_self)
  then have "bit n i \<longleftrightarrow> i < 64 \<and> bit n i" by (metis bit_take_bit_iff)
  then show ?thesis by (simp add: bit_of_nat_iff possible_bit_word)
qed

lemma all_bits_set: "(\<forall>i<k. bit n i) \<Longrightarrow> n < 2 ^ k \<Longrightarrow> n + 1 = 2 ^ k" for n :: nat
proof (induction k arbitrary: n)
  case 0
  then show ?case by simp
next
  case (Suc k)
  have top: "2 ^ k \<le> n" using Suc.prems bit_top_nat by blast
  then have "\<forall>i<k. bit (n - 2 ^ k) i" using Suc.prems bit_low_nat by simp
  then have "(n - 2 ^ k) + 1 = 2 ^ k" using Suc.prems top by (intro Suc.IH) auto
  then show ?case using top by simp
qed

lemma bits_set_all: "n + 1 = 2 ^ k \<Longrightarrow> i < k \<Longrightarrow> bit (n :: nat) i"
proof -
  assume "n + 1 = 2 ^ k" "i < k"
  then have "n = mask k" by (simp add: mask_eq_exp_minus_1)
  then show ?thesis using \<open>i < k\<close> by (simp add: bit_mask_iff)
qed

lemma takeWhile_upt_extend:
  assumes "i < k" "\<not> P i" "k \<le> k'"
  shows "takeWhile P [0..<k'] = takeWhile P [0..<k]"
proof -
  have "[0..<k'] = [0..<k] @ [k..<k']"
    using assms(3) by (metis le_add_diff_inverse upt_add_eq_append zero_le)
  then show ?thesis
    using assms by (simp add: takeWhile_append1 [of i])
qed

section \<open>Frozen subtrees\<close>

lemma tree_root_Nil [simp]: "tree_root ih k [] = accumulator_placeholder_hash"
  by (cases k) auto

lemma frozen_Nil [simp]: "frozen ih k [] = []"
  by (induction k) auto

lemma frozen_extend: "length xs < 2 ^ k \<Longrightarrow> k \<le> k' \<Longrightarrow> frozen ih k' xs = frozen ih k xs"
proof (induction k')
  case (Suc k')
  show ?case
  proof (cases "k \<le> k'")
    case True
    then have "length xs < 2 ^ k'"
      using Suc.prems(1) by (meson less_le_trans one_le_numeral power_increasing)
    then show ?thesis using Suc True by simp
  next
    case False
    then show ?thesis using Suc.prems by (simp add: le_Suc_eq)
  qed
qed simp

lemma frozen_eq_Nil: "length xs < 2 ^ k \<Longrightarrow> frozen ih k xs = [] \<longleftrightarrow> xs = []"
  by (induction k arbitrary: xs) auto

lemma length_frozen:
  "length xs < 2 ^ k \<Longrightarrow> length (frozen ih k xs) = length (filter (bit (length xs)) [0..<k])"
proof (induction k arbitrary: xs)
  case (Suc k)
  show ?case
  proof (cases "2 ^ k \<le> length xs")
    case True
    have "filter (bit (length xs - 2 ^ k)) [0..<k] = filter (bit (length xs)) [0..<k]"
      using True Suc.prems bit_low_nat by (intro filter_cong) auto
    moreover have "length (frozen ih k (drop (2 ^ k) xs)) =
        length (filter (bit (length (drop (2 ^ k) xs))) [0..<k])"
      using Suc.prems by (intro Suc.IH) simp
    ultimately show ?thesis
      using True bit_top_nat [OF Suc.prems] by simp
  next
    case False
    then show ?thesis
      using Suc.IH [of xs] bit_top_nat [OF Suc.prems] by simp
  qed
qed simp

section \<open>Appending one leaf\<close>

lemma merge_last_append:
  "merge_last ih i s = Ok s' \<Longrightarrow> merge_last ih i (s @ rest) = Ok (s' @ rest)"
  by (induction ih i s rule: merge_last.induct) auto

lemma merge_last_Suc:
  "merge_last ih i s = Ok s' \<Longrightarrow> merge_last ih (Suc i) s = merge_last ih 1 s'"
  by (induction ih i s rule: merge_last.induct) (auto split: list.splits)

lemma merge_full:
  "length xs + 1 = 2 ^ k \<Longrightarrow> merge_last ih k (x # rev (frozen ih k xs)) = Ok [tree_root ih k (xs @ [x])]"
proof (induction k arbitrary: xs)
  case (Suc k)
  then have ge: "2 ^ k \<le> length xs" and len: "length (drop (2 ^ k) xs) + 1 = 2 ^ k"
    by auto
  have "merge_last ih k (x # rev (frozen ih (Suc k) xs)) =
      Ok ([tree_root ih k (drop (2 ^ k) xs @ [x])] @ [tree_root ih k (take (2 ^ k) xs)])"
    using merge_last_append [OF Suc.IH [OF len]] ge by simp
  then show ?case
    using ge by (simp add: merge_last_Suc del: frozen.simps)
qed simp

lemma merge_frozen:
  "length xs + 1 < 2 ^ k \<Longrightarrow>
     merge_last ih (length (takeWhile (bit (length xs)) [0..<k])) (x # rev (frozen ih k xs)) =
       Ok (rev (frozen ih k (xs @ [x])))"
proof (induction k arbitrary: xs)
  case (Suc k)
  let ?n = "length xs"
  show ?case
  proof (cases "2 ^ k \<le> ?n")
    case True
    let ?ys = "drop (2 ^ k) xs"
    have less: "length ?ys + 1 < 2 ^ k" using Suc.prems True by auto
    then obtain i where i: "i < k" "\<not> bit (length ?ys) i"
      using all_bits_set [of k "length ?ys"] by auto
    have low: "bit (length ?ys) j = bit ?n j" if "j < k" for j
      using bit_low_nat [of k ?n j] True Suc.prems that by simp
    have "takeWhile (bit ?n) [0..<Suc k] = takeWhile (bit ?n) [0..<k]"
      using i low by (intro takeWhile_upt_extend [of i]) auto
    also have "\<dots> = takeWhile (bit (length ?ys)) [0..<k]"
      using low by (intro takeWhile_cong) auto
    finally show ?thesis
      using merge_last_append [OF Suc.IH [OF less]] True by simp
  next
    case False
    show ?thesis
    proof (cases "?n + 1 < 2 ^ k")
      case True
      then obtain i where i: "i < k" "\<not> bit ?n i"
        using all_bits_set [of k ?n] by auto
      then have "takeWhile (bit ?n) [0..<Suc k] = takeWhile (bit ?n) [0..<k]"
        by (intro takeWhile_upt_extend [of i]) auto
      then show ?thesis
        using Suc.IH [OF True] False True by simp
    next
      case full: False
      then have n: "?n + 1 = 2 ^ k" using False by simp
      have "takeWhile (bit ?n) [0..<k] = [0..<k]"
        using bits_set_all [OF n] by (simp add: takeWhile_eq_all_conv)
      moreover have "\<not> bit ?n k" using bit_top_nat [of ?n k] False Suc.prems by simp
      ultimately have "length (takeWhile (bit ?n) [0..<Suc k]) = k"
        by (simp add: takeWhile_append)
      then show ?thesis
        using merge_full [OF n, of ih x] False n by simp
    qed
  qed
qed simp

lemma trailing_zeros_NOT:
  "n < 2 ^ 64 \<Longrightarrow> trailing_zeros (NOT (word_of_nat n)) = length (takeWhile (bit n) [0..<64])"
  unfolding trailing_zeros_def
  by (intro arg_cong [where f = length] takeWhile_cong refl) (auto simp: bit_not_iff possible_bit_word bit_of_nat_u64)

lemma append_one_frozen:
  assumes "length xs + 1 < 2 ^ 64"
  shows "append_one ih (frozen ih 64 xs) (word_of_nat (length xs)) x = Ok (frozen ih 64 (xs @ [x]))"
  using assms merge_frozen [OF assms] by (simp add: append_one_def trailing_zeros_NOT)

lemma append_loop_frozen:
  "length xs + length ys < 2 ^ 64 \<Longrightarrow>
     append_loop ih (frozen ih 64 xs) (word_of_nat (length xs)) ys =
       Ok (frozen ih 64 (xs @ ys), word_of_nat (length (xs @ ys)))"
proof (induction ys arbitrary: xs)
  case (Cons y ys)
  then have "append_one ih (frozen ih 64 xs) (word_of_nat (length xs)) y = Ok (frozen ih 64 (xs @ [y]))"
    by (intro append_one_frozen) simp
  then show ?case
    using Cons.IH [of "xs @ [y]"] Cons.prems by (simp add: add.commute)
qed simp

section \<open>The root hash\<close>

fun root_steps ::
    "internal_hash \<Rightarrow> nat \<Rightarrow> nat list \<Rightarrow> hash_value \<Rightarrow> hash_value list \<Rightarrow> (hash_value \<times> hash_value list) option" where
  "root_steps ih n [] h iter = Some (h, iter)"
| "root_steps ih n (j # js) h iter =
     (if bit n j then (case iter of [] \<Rightarrow> None | r # rest \<Rightarrow> root_steps ih n js (ih r h) rest)
      else root_steps ih n js (ih h accumulator_placeholder_hash) iter)"

lemma root_steps_append:
  "root_steps ih n (js @ js') h iter =
     (case root_steps ih n js h iter of None \<Rightarrow> None | Some (h', iter') \<Rightarrow> root_steps ih n js' h' iter')"
  by (induction ih n js h iter rule: root_steps.induct) (auto split: list.splits)

lemma root_steps_cong:
  "(\<And>j. j \<in> set js \<Longrightarrow> bit n j = bit m j) \<Longrightarrow> root_steps ih n js h iter = root_steps ih m js h iter"
  by (induction ih n js h iter rule: root_steps.induct) (auto split: list.splits)

definition low_zeros :: "nat \<Rightarrow> nat \<Rightarrow> nat" where
  "low_zeros k n = length (takeWhile (\<lambda>i. \<not> bit n i) [0..<k])"

lemma low_zeros_le: "low_zeros k n \<le> k"
  unfolding low_zeros_def using length_takeWhile_le [of _ "[0..<k]"] by simp

lemma some_bit_set: "0 < n \<Longrightarrow> n < 2 ^ k \<Longrightarrow> \<exists>i<k. bit (n :: nat) i"
proof (rule ccontr)
  assume "0 < n" "n < 2 ^ k" "\<not> (\<exists>i<k. bit n i)"
  then have "take_bit k n = 0" by (intro bit_eqI) (auto simp: bit_take_bit_iff)
  then show False using \<open>0 < n\<close> \<open>n < 2 ^ k\<close> by (simp add: take_bit_nat_eq_self)
qed

lemma low_zeros_Suc: "i < k \<Longrightarrow> bit n i \<Longrightarrow> low_zeros (Suc k) n = low_zeros k n"
  unfolding low_zeros_def using takeWhile_upt_extend [of i k "\<lambda>i. \<not> bit n i" "Suc k"] by simp

lemma root_steps_frozen:
  "xs \<noteq> [] \<Longrightarrow> length xs < 2 ^ k \<Longrightarrow>
     root_steps ih (length xs) [low_zeros k (length xs)..<k] accumulator_placeholder_hash (rev (frozen ih k xs) @ rest) =
       Some (tree_root ih k xs, rest)"
proof (induction k arbitrary: xs rest)
  case (Suc k)
  let ?n = "length xs" and ?p = accumulator_placeholder_hash
  show ?case
  proof (cases "2 ^ k \<le> ?n")
    case True
    let ?ys = "drop (2 ^ k) xs"
    have top: "bit ?n k" using True bit_top_nat [OF Suc.prems(2)] by simp
    have low: "bit (length ?ys) j = bit ?n j" if "j < k" for j
      using bit_low_nat [of k ?n j] True Suc.prems that by simp
    show ?thesis
    proof (cases "?ys = []")
      case Nil: True
      then have "takeWhile (\<lambda>i. \<not> bit ?n i) [0..<k] = [0..<k]"
        using low by (auto simp: takeWhile_eq_all_conv)
      then have "low_zeros (Suc k) ?n = k"
        using top by (simp add: low_zeros_def takeWhile_append)
      then show ?thesis
        using True top Nil Suc.prems by simp
    next
      case False
      have less: "length ?ys < 2 ^ k" using Suc.prems(2) by simp
      then obtain i where i: "i < k" "bit (length ?ys) i"
        using some_bit_set [of "length ?ys" k] False by auto
      have "low_zeros k (length ?ys) = low_zeros k ?n"
        unfolding low_zeros_def using low by (intro arg_cong [where f = length] takeWhile_cong) auto
      then have zeros: "low_zeros (Suc k) ?n = low_zeros k (length ?ys)"
        using low_zeros_Suc i low by simp
      have "root_steps ih ?n [low_zeros k (length ?ys)..<k] ?p (rev (frozen ih k ?ys) @ tree_root ih k (take (2 ^ k) xs) # rest)
          = Some (tree_root ih k ?ys, tree_root ih k (take (2 ^ k) xs) # rest)"
        using Suc.IH [OF False less, of "tree_root ih k (take (2 ^ k) xs) # rest"] low
          root_steps_cong [of "[low_zeros k (length ?ys)..<k]" ?n "length ?ys"] by simp
      then show ?thesis
        using True top zeros low_zeros_le [of k "length ?ys"] Suc.prems(1) by (simp add: root_steps_append)
    qed
  next
    case False
    then have less: "?n < 2 ^ k" by simp
    then obtain i where i: "i < k" "bit ?n i"
      using some_bit_set [of ?n k] Suc.prems by auto
    then show ?thesis
      using False Suc.IH [OF Suc.prems(1) less, of rest] low_zeros_Suc [OF i] low_zeros_le [of k ?n]
        bit_top_nat [OF Suc.prems(2)] Suc.prems by (simp add: root_steps_append)
  qed
qed simp

lemma root_loop_steps:
  assumes n: "n < 2 ^ 64" "n < 2 ^ k" and top: "bit n (k - 1)" and "j \<le> k"
  shows "compute_root_hash_loop ih (drop_bit j (word_of_nat n)) h iter =
     (case root_steps ih n [j..<k] h iter of None \<Rightarrow> Panic | Some (h', _) \<Rightarrow> Ok h')"
  using \<open>j \<le> k\<close>
proof (induction arbitrary: h iter rule: inc_induct)
  case base
  have "take_bit k n = n" using n(2) by (rule take_bit_nat_eq_self)
  then have high: "\<not> bit n (k + i)" for i
    by (metis bit_take_bit_iff not_add_less1)
  then have "drop_bit k (word_of_nat n :: u64) = 0"
    using high bit_of_nat_u64 [OF n(1)] by (intro bit_word_eqI) (simp add: bit_drop_bit_eq)
  then show ?case by (simp add: compute_root_hash_loop.simps)
next
  case (step j)
  let ?w = "word_of_nat n :: u64"
  have "bit (drop_bit j ?w) (k - 1 - j)"
    using top step.hyps bit_of_nat_u64 [OF n(1)] by (simp add: bit_drop_bit_eq)
  then have "drop_bit j ?w \<noteq> 0" by (intro notI) simp
  moreover have "drop_bit j ?w AND 1 \<noteq> 0 \<longleftrightarrow> bit n j"
    using bit_of_nat_u64 [OF n(1)] by (simp add: bit_and_one bit_drop_bit_eq)
  moreover have "drop_bit 1 (drop_bit j ?w) = drop_bit (Suc j) ?w"
    by (simp only: drop_bit_drop_bit) simp
  ultimately show ?case
    using step.IH step.hyps
    by (subst compute_root_hash_loop.simps) (auto simp: upt_conv_Cons split: list.splits)
qed

lemma tree_depth_eq:
  assumes "n \<le> 2 ^ d" "d < 64" and "\<And>i. i < d \<Longrightarrow> 2 ^ i < n"
  shows "tree_depth n = d"
proof -
  have "takeWhile (\<lambda>d. 2 ^ d < n) [0..<64] = takeWhile (\<lambda>d. 2 ^ d < n) [0..<Suc d]"
    using assms by (intro takeWhile_upt_extend [of d]) auto
  also have "\<dots> = [0..<d]"
    using assms by (auto simp: takeWhile_append takeWhile_eq_all_conv)
  finally show ?thesis by (simp add: tree_depth_def)
qed

lemma tree_depth_bounds:
  assumes "n \<le> 2 ^ 63"
  shows "n \<le> 2 ^ tree_depth n" "tree_depth n \<le> 63"
proof -
  let ?P = "\<lambda>d. 2 ^ d < n"
  have "\<not> ?P 63" using assms by simp
  then have eq: "takeWhile ?P [0..<64] = takeWhile ?P [0..<63]"
    using upt_Suc_append [of 0 63] takeWhile_tail [of ?P 63 "[0..<63]" "[]"] by simp
  then show le: "tree_depth n \<le> 63"
    using length_takeWhile_le [of ?P "[0..<63]"] by (simp add: tree_depth_def)
  then have "\<not> ?P ([0..<64] ! tree_depth n)"
    unfolding tree_depth_def by (intro nth_length_takeWhile) simp
  then show "n \<le> 2 ^ tree_depth n" using le by simp
qed

lemma bit_length_exists:
  assumes "0 < (n :: nat)" "n < 2 ^ m"
  obtains k where "k < m" "2 ^ k \<le> n" "n < 2 ^ Suc k"
proof -
  define K where "K = (LEAST k. n < 2 ^ k)"
  have K: "n < 2 ^ K" "K \<le> m"
    using assms(2) by (auto simp: K_def intro: LeastI Least_le)
  then have "K \<noteq> 0" using assms(1) by (intro notI) simp
  moreover have "\<not> n < 2 ^ (K - 1)"
    using not_less_Least [of "K - 1" "\<lambda>k. n < 2 ^ k"] \<open>K \<noteq> 0\<close> by (simp add: K_def)
  ultimately show ?thesis using that [of "K - 1"] K by auto
qed

lemma compute_root_hash_frozen:
  assumes len: "length xs \<le> 2 ^ 63"
  shows "compute_root_hash ih (frozen ih 64 xs) (word_of_nat (length xs)) = Ok (merkle_root ih xs)"
proof (cases "xs = []")
  case True
  then show ?thesis by (simp add: compute_root_hash_def merkle_root_def)
next
  case ne: False
  let ?n = "length xs"
  have n64: "?n < 2 ^ 64" using len by simp
  obtain k where k: "k < 64" "2 ^ k \<le> ?n" "?n < 2 ^ Suc k"
    using bit_length_exists [of ?n 64] ne n64 by auto
  then have fr: "frozen ih 64 xs = tree_root ih k (take (2 ^ k) xs) # frozen ih k (drop (2 ^ k) xs)"
    using frozen_extend [of xs "Suc k" 64 ih] by simp
  have pow: "2 ^ i < (2 :: nat) ^ k" if "i < k" for i using that by simp
  show ?thesis
  proof (cases "?n = 2 ^ k")
    case True
    then have "tree_depth ?n = k"
      using k pow by (intro tree_depth_eq) auto
    then show ?thesis
      using fr True by (simp add: compute_root_hash_def merkle_root_def)
  next
    case False
    then have "k \<noteq> 63" using len k by auto
    then have "k < 63" using k by simp
    then have depth: "tree_depth ?n = Suc k"
      using k False pow by (intro tree_depth_eq) (auto simp: less_Suc_eq intro: less_le_trans [OF pow])
    have "frozen ih k (drop (2 ^ k) xs) \<noteq> []"
      using frozen_eq_Nil [of "drop (2 ^ k) xs" k ih] k False by auto
    then obtain b bs where "frozen ih k (drop (2 ^ k) xs) = b # bs"
      by (meson neq_Nil_conv)
    then have roots: "compute_root_hash ih (frozen ih 64 xs) (word_of_nat ?n) =
        compute_root_hash_loop ih (drop_bit (trailing_zeros (word_of_nat ?n)) (word_of_nat ?n))
          accumulator_placeholder_hash (rev (frozen ih (Suc k) xs))"
      using fr k by (simp add: compute_root_hash_def)
    obtain i where i: "i < Suc k" "bit ?n i"
      using some_bit_set k(3) ne by blast
    have "trailing_zeros (word_of_nat ?n) = low_zeros 64 ?n"
      unfolding trailing_zeros_def low_zeros_def using bit_of_nat_u64 [OF n64] by simp
    also have "\<dots> = low_zeros (Suc k) ?n"
      unfolding low_zeros_def using i k(1) takeWhile_upt_extend [of i "Suc k" "\<lambda>i. \<not> bit ?n i" 64] by simp
    finally have tz: "trailing_zeros (word_of_nat ?n) = low_zeros (Suc k) ?n" .
    have "bit ?n (Suc k - 1)" using bit_top_nat [OF k(3)] k(2) by simp
    then show ?thesis
      using root_steps_frozen [OF ne k(3), of ih "[]"] low_zeros_le [of "Suc k" ?n]
        root_loop_steps [OF n64 k(3), of "low_zeros (Suc k) ?n"]
      by (simp add: roots tz merkle_root_def depth del: frozen.simps tree_root.simps upt_Suc)
  qed
qed

lemma accumulator_new_frozen:
  assumes "length xs \<le> 2 ^ 63"
  shows "accumulator_new ih (frozen ih 64 xs) (word_of_nat (length xs)) =
     Ok (acc_of ih xs)"
proof -
  have "length xs < 2 ^ 64" using assms by simp
  then have "length (frozen ih 64 xs) = count_ones (word_of_nat (length xs))"
    using bit_of_nat_u64 by (simp add: length_frozen count_ones_def cong: filter_cong)
  then show ?thesis
    using compute_root_hash_frozen [OF assms] by (simp add: accumulator_new_def acc_of_def ensure_def)
qed

lemma accumulator_append_acc_of:
  assumes "length xs + length ys \<le> 2 ^ 63"
  shows "accumulator_append ih (acc_of ih xs) ys = Ok (acc_of ih (xs @ ys))"
proof -
  have "append_loop ih (frozen ih 64 xs) (word_of_nat (length xs)) ys =
      Ok (frozen ih 64 (xs @ ys), word_of_nat (length (xs @ ys)))"
    using assms by (intro append_loop_frozen) simp
  then show ?thesis
    using accumulator_new_frozen [of "xs @ ys" ih] assms
    by (simp add: accumulator_append_def unwrap_or_panic_def acc_of_def)
qed

lemma accumulator_default_acc_of: "accumulator_default ih = Ok (acc_of ih [])"
  using accumulator_new_frozen [of "[]" ih] by (simp add: accumulator_default_def unwrap_or_panic_def)

section \<open>Inclusion proofs\<close>

text \<open>The siblings of leaf \<open>i\<close>, bottom-up, and the pairs that are hashed in the tree and in the
  verification of a proof.\<close>

fun proof_path :: "internal_hash \<Rightarrow> nat \<Rightarrow> hash_value list \<Rightarrow> nat \<Rightarrow> hash_value list" where
  "proof_path ih 0 xs i = []"
| "proof_path ih (Suc k) xs i =
     (if i < 2 ^ k then proof_path ih k (take (2 ^ k) xs) i @ [tree_root ih k (drop (2 ^ k) xs)]
      else proof_path ih k (drop (2 ^ k) xs) (i - 2 ^ k) @ [tree_root ih k (take (2 ^ k) xs)])"

fun tree_pairs :: "internal_hash \<Rightarrow> nat \<Rightarrow> hash_value list \<Rightarrow> (hash_value \<times> hash_value) set" where
  "tree_pairs ih 0 xs = {}"
| "tree_pairs ih (Suc k) xs =
     (if xs = [] then {}
      else {(tree_root ih k (take (2 ^ k) xs), tree_root ih k (drop (2 ^ k) xs))} \<union>
           tree_pairs ih k (take (2 ^ k) xs) \<union> tree_pairs ih k (drop (2 ^ k) xs))"

definition proof_step :: "internal_hash \<Rightarrow> hash_value \<Rightarrow> nat \<Rightarrow> hash_value \<Rightarrow> hash_value" where
  "proof_step ih h i s = (if even i then ih h s else ih s h)"

fun proof_pairs :: "internal_hash \<Rightarrow> hash_value \<Rightarrow> nat \<Rightarrow> hash_value list \<Rightarrow> (hash_value \<times> hash_value) set" where
  "proof_pairs ih h i [] = {}"
| "proof_pairs ih h i (s # ss) =
     insert (if even i then (h, s) else (s, h)) (proof_pairs ih (proof_step ih h i s) (i div 2) ss)"

fun proof_fold :: "internal_hash \<Rightarrow> hash_value \<Rightarrow> nat \<Rightarrow> hash_value list \<Rightarrow> hash_value" where
  "proof_fold ih h i [] = h"
| "proof_fold ih h i (s # ss) = proof_fold ih (proof_step ih h i s) (i div 2) ss"

lemma accumulator_proof_fold_eq:
  "fst (accumulator_proof_fold ih (h, index) siblings) = proof_fold ih h (unat index) siblings"
proof (induction siblings arbitrary: h index)
  case (Cons s siblings)
  have "index mod 2 = 0 \<longleftrightarrow> even (unat index)"
    using unat_mod_distrib [of index 2] unat_eq_zero [of "index mod 2"] by (simp add: even_iff_mod_2_eq_zero)
  then show ?case
    using Cons.IH by (simp add: proof_step_def unat_div_distrib)
qed simp

lemma proof_fold_snoc:
  "proof_fold ih h i (ss @ [s]) = proof_step ih (proof_fold ih h i ss) (i div 2 ^ length ss) s"
  by (induction ss arbitrary: h i) (auto simp: div_mult2_eq)

lemma proof_pairs_snoc:
  "proof_pairs ih h i (ss @ [s]) = insert
     (if even (i div 2 ^ length ss) then (proof_fold ih h i ss, s) else (s, proof_fold ih h i ss))
     (proof_pairs ih h i ss)"
  by (induction ss arbitrary: h i) (auto simp: div_mult2_eq)

lemma double_add_mod_2: "a * 2 + i mod 2 = b * 2 + j mod 2 \<Longrightarrow> even i = even j \<and> a = b" for a b i j :: nat
  by presburger

lemma proof_low_bits:
  assumes "take_bit (length ss) i = take_bit (length ss) j"
  shows "proof_fold ih h i ss = proof_fold ih h j ss \<and> proof_pairs ih h i ss = proof_pairs ih h j ss"
  using assms
proof (induction ss arbitrary: h i j)
  case (Cons s ss)
  have "take_bit (length ss) (i div 2) * 2 + i mod 2 = take_bit (length ss) (j div 2) * 2 + j mod 2"
    using Cons.prems by (simp only: list.size take_bit_Suc add_Suc_right add_0_right)
  from double_add_mod_2 [OF this] show ?case
    using Cons.IH [of "i div 2" "j div 2"] by (simp add: proof_step_def)
qed simp

lemma take_bit_high_nat: "2 ^ k \<le> i \<Longrightarrow> i < 2 ^ Suc k \<Longrightarrow> take_bit k i = take_bit k (i - 2 ^ k)" for i :: nat
  by (simp add: take_bit_eq_mod le_mod_geq)

lemma proof_path_length: "length (proof_path ih k xs i) = k"
  by (induction ih k xs i rule: proof_path.induct) auto

lemma proof_path_fold:
  "i < length xs \<Longrightarrow> length xs \<le> 2 ^ k \<Longrightarrow> proof_fold ih (xs ! i) i (proof_path ih k xs i) = tree_root ih k xs"
proof (induction k arbitrary: xs i)
  case 0
  then show ?case by (cases xs) auto
next
  case (Suc k)
  have ne: "xs \<noteq> []" using Suc.prems by auto
  show ?case
  proof (cases "i < 2 ^ k")
    case True
    then have "proof_fold ih (xs ! i) i (proof_path ih k (take (2 ^ k) xs) i) = tree_root ih k (take (2 ^ k) xs)"
      using Suc.IH [of i "take (2 ^ k) xs"] Suc.prems by simp
    then show ?thesis
      using True ne by (simp add: proof_fold_snoc proof_path_length proof_step_def)
  next
    case False
    let ?ys = "drop (2 ^ k) xs" and ?j = "i - 2 ^ k"
    have i: "2 ^ k \<le> i" "i < 2 ^ Suc k" using False Suc.prems by simp_all
    have "proof_fold ih (xs ! i) i (proof_path ih k ?ys ?j) = proof_fold ih (xs ! i) ?j (proof_path ih k ?ys ?j)"
      using proof_low_bits [of "proof_path ih k ?ys ?j" i ?j ih "xs ! i"] take_bit_high_nat [OF i]
      by (simp only: proof_path_length)
    also have "\<dots> = tree_root ih k ?ys"
      using Suc.IH [of ?j ?ys] Suc.prems i by simp
    finally have "proof_fold ih (xs ! i) i (proof_path ih k ?ys ?j) = tree_root ih k ?ys" .
    moreover have "i div 2 ^ k = 1"
      using i by (intro div_nat_eqI) auto
    ultimately show ?thesis
      using False ne by (simp add: proof_fold_snoc proof_path_length proof_step_def)
  qed
qed

lemma proof_fold_sound:
  assumes "inj_on (\<lambda>(a, b). ih a b) P"
  shows "proof_fold ih h i ss = tree_root ih (length ss) xs \<Longrightarrow> i < length xs \<Longrightarrow> length xs \<le> 2 ^ length ss \<Longrightarrow>
     proof_pairs ih h i ss \<subseteq> P \<Longrightarrow> tree_pairs ih (length ss) xs \<subseteq> P \<Longrightarrow> h = xs ! i"
proof (induction ss arbitrary: xs i rule: rev_induct)
  case Nil
  then show ?case by (cases xs) auto
next
  case (snoc s ss)
  let ?k = "length ss"
  let ?l = "tree_root ih ?k (take (2 ^ ?k) xs)" and ?r = "tree_root ih ?k (drop (2 ^ ?k) xs)"
  have ne: "xs \<noteq> []" using snoc.prems(2) by auto
  have root: "proof_step ih (proof_fold ih h i ss) (i div 2 ^ ?k) s = ih ?l ?r"
    using snoc.prems(1) ne by (simp add: proof_fold_snoc)
  have lr: "(?l, ?r) \<in> P" and sub: "tree_pairs ih ?k (take (2 ^ ?k) xs) \<subseteq> P" "tree_pairs ih ?k (drop (2 ^ ?k) xs) \<subseteq> P"
    using snoc.prems(5) ne by auto
  have inj: "a = c \<and> b = d" if "ih a b = ih c d" "(a, b) \<in> P" "(c, d) \<in> P" for a b c d
    using inj_onD [OF assms, of "(a, b)" "(c, d)"] that by simp
  show ?case
  proof (cases "i < 2 ^ ?k")
    case True
    then have zero: "i div 2 ^ ?k = 0" by simp
    then have mem: "(proof_fold ih h i ss, s) \<in> P" and pairs: "proof_pairs ih h i ss \<subseteq> P"
      using snoc.prems(4) unfolding proof_pairs_snoc by simp_all
    have "proof_fold ih h i ss = ?l"
      using inj [OF _ mem lr] root zero by (simp add: proof_step_def)
    then have "h = take (2 ^ ?k) xs ! i"
      using snoc.prems(2) True pairs sub(1) by (intro snoc.IH) simp_all
    then show ?thesis using True by simp
  next
    case False
    then have i: "2 ^ ?k \<le> i" "i < 2 ^ Suc ?k" using snoc.prems(2,3) by simp_all
    have one: "i div 2 ^ ?k = 1"
      using i by (intro div_nat_eqI) auto
    have mem: "(s, proof_fold ih h i ss) \<in> P" and pairs: "proof_pairs ih h i ss \<subseteq> P"
      using snoc.prems(4) one unfolding proof_pairs_snoc by simp_all
    have low: "proof_fold ih h i ss = proof_fold ih h (i - 2 ^ ?k) ss"
      "proof_pairs ih h i ss = proof_pairs ih h (i - 2 ^ ?k) ss"
      using proof_low_bits [OF take_bit_high_nat [OF i], of ih h] by simp_all
    have "proof_fold ih h i ss = ?r"
      using inj [OF _ mem lr] root one by (simp add: proof_step_def)
    then have "h = drop (2 ^ ?k) xs ! (i - 2 ^ ?k)"
      using snoc.prems(2,3) i pairs sub(2) low by (intro snoc.IH) simp_all
    then show ?thesis using i snoc.prems(2) by simp
  qed
qed

section \<open>Properties\<close>

text \<open>C19: Appending is correct. For up to \<open>2 ^ 63\<close> leaves in total, \<open>from_leaves\<close> never panics and
  yields the accumulator of the Merkle tree over the leaves (frozen subtree roots, leaf count and
  root hash), and appending more leaves to it gives the accumulator of the concatenation.\<close>

theorem accumulator_append_correct:
  assumes "length xs + length ys \<le> 2 ^ 63"
  shows "from_leaves ih xs = Ok (acc_of ih xs) \<and>
    accumulator_append ih (acc_of ih xs) ys = from_leaves ih (xs @ ys) \<and>
    acc_root_hash (acc_of ih (xs @ ys)) = merkle_root ih (xs @ ys)"
  using assms accumulator_append_acc_of [of "[]" _ ih] accumulator_append_acc_of [of xs ys ih]
  by (simp add: from_leaves_def accumulator_default_acc_of acc_of_def)

theorem accumulator_append_correct_witness:
  "from_leaves (\<lambda>a b. 2 * a + b) [1, 2, 3] = Ok (acc_of (\<lambda>a b. 2 * a + b) [1, 2, 3]) \<and>
    accumulator_append (\<lambda>a b. 2 * a + b) (acc_of (\<lambda>a b. 2 * a + b) [1, 2, 3]) [4, 5] =
      from_leaves (\<lambda>a b. 2 * a + b) [1, 2, 3, 4, 5] \<and>
    acc_root_hash (acc_of (\<lambda>a b. 2 * a + b) [1, 2, 3, 4, 5]) = merkle_root (\<lambda>a b. 2 * a + b) [1, 2, 3, 4, 5]"
  using accumulator_append_correct [of "[1, 2, 3]" "[4, 5]" "\<lambda>a b. 2 * a + b"] by simp

text \<open>C26: Inclusion proofs are complete and sound. The siblings along the path of a leaf verify
  against the accumulator's root; and a proof with as many siblings as the tree is deep that
  verifies for an index in range proves that the element is the leaf at that index, unless two
  different pairs among those hashed in the tree and in the verification collide.\<close>

theorem accumulator_inclusion:
  assumes "length xs \<le> 2 ^ 63" "unat index < length xs"
    and "length siblings = tree_depth (length xs)"
    and "inj_on (\<lambda>(a, b). ih a b)
      (tree_pairs ih (tree_depth (length xs)) xs \<union> proof_pairs ih element (unat index) siblings)"
  shows "accumulator_proof_verify ih (proof_path ih (tree_depth (length xs)) xs (unat index))
      (merkle_root ih xs) (xs ! unat index) index = Ok () \<and>
    (accumulator_proof_verify ih siblings (merkle_root ih xs) element index = Ok () \<longrightarrow>
      element = xs ! unat index)"
proof (intro conjI impI)
  note depth = tree_depth_bounds [OF assms(1)]
  show "accumulator_proof_verify ih (proof_path ih (tree_depth (length xs)) xs (unat index))
      (merkle_root ih xs) (xs ! unat index) index = Ok ()"
    using assms(2) depth proof_path_fold [of "unat index" xs "tree_depth (length xs)" ih]
    by (simp add: accumulator_proof_verify_def ensure_def proof_path_length accumulator_proof_fold_eq merkle_root_def)
  assume "accumulator_proof_verify ih siblings (merkle_root ih xs) element index = Ok ()"
  then have "proof_fold ih element (unat index) siblings = tree_root ih (length siblings) xs"
    using assms(3) by (auto simp: accumulator_proof_verify_def bind_res_Ok_iff Let_def accumulator_proof_fold_eq merkle_root_def)
  then show "element = xs ! unat index"
    using proof_fold_sound [OF assms(4), of element "unat index" siblings xs] assms(2,3) depth by simp
qed

theorem accumulator_inclusion_witness:
  "accumulator_proof_verify (\<lambda>a b. 16 * a) [1, 48] 256 2 1 = Ok () \<and> ([1, 2, 3] :: hash_value list) ! 1 = 2"
proof -
  have depth: "tree_depth (length [1, 2, 3 :: hash_value]) = Suc (Suc 0)"
    by (rule tree_depth_eq) (auto simp: less_Suc_eq)
  have root: "merkle_root (\<lambda>a b. 16 * a) [1, 2, 3] = 256"
    unfolding merkle_root_def depth by simp
  have ok: "accumulator_proof_verify (\<lambda>a b. 16 * a) [1, 48] 256 2 1 = Ok ()"
    by (simp add: accumulator_proof_verify_def ensure_def)
  have "inj_on (\<lambda>(a, b). 16 * a) (tree_pairs (\<lambda>a b. 16 * a) (tree_depth (length [1, 2, 3 :: hash_value])) [1, 2, 3] \<union>
      proof_pairs (\<lambda>a b. 16 * a) 2 (unat (1 :: u64)) [1, 48])"
    unfolding depth by (auto simp: inj_on_def proof_step_def)
  then have "(2 :: hash_value) = [1, 2, 3] ! unat (1 :: u64)"
    using accumulator_inclusion [of "[1, 2, 3]" 1 "[1, 48]" "\<lambda>a b. 16 * a" 2] ok depth root by simp
  then show ?thesis using ok by simp
qed

end
