(* ===== verification/Consensus_Types.thy ===== *)
theory Consensus_Types
  imports Accumulator
begin

text \<open>
  The data types of the consensus protocol and their verification, from
  \<^verbatim>\<open>consensus/consensus-types/src\<close>: vote data, quorum certificates, blocks, votes, vote
  proposals, timeouts and timeout certificates (of the 3-chain and of the 2-chain protocol) and
  the safety data.

  Hashing and signing are parameters, bundled in \<open>consensus_crypto\<close>: one signature scheme per
  signed message type, since the hash that is signed is salted with the name of the type. The
  clock that \<open>verify_well_formed\<close> reads is an argument. A signed transaction of a payload is
  its serialised bytes; consensus only counts and forwards them.
\<close>

section \<open>Data\<close>

type_synonym round_t = u64
type_synonym author_t = account_address
type_synonym signed_transaction = "u8 list"
type_synonym payload = "signed_transaction list"

record vote_data =
  vd_proposed :: block_info
  vd_parent :: block_info

record quorum_cert =
  qc_vote_data :: vote_data
  qc_signed_ledger_info :: ledger_info_with_signatures

datatype block_type =
    Proposal payload author_t
  | NilBlock
  | Genesis

record block_data =
  bd_epoch :: u64
  bd_round :: round_t
  bd_timestamp_usecs :: u64
  bd_quorum_cert :: quorum_cert
  bd_block_type :: block_type

record block =
  blk_id :: hash_value
  blk_block_data :: block_data
  blk_signature :: "signature option"

record timeout =
  to_epoch :: u64
  to_round :: round_t

record timeout_certificate =
  tc_timeout :: timeout
  tc_signatures :: "(author_t, signature) btree_map"

record two_chain_timeout =
  t2_epoch :: u64
  t2_round :: round_t
  t2_quorum_cert :: quorum_cert

record timeout_signing_repr =
  tsr_epoch :: u64
  tsr_round :: round_t
  tsr_hqc_round :: round_t

record two_chain_timeout_certificate =
  tc2_timeout :: two_chain_timeout
  tc2_signatures :: "(author_t, round_t \<times> signature) btree_map"

record vote =
  vote_vote_data :: vote_data
  vote_author :: author_t
  vote_ledger_info :: ledger_info
  vote_signature :: signature
  vote_timeout_signature :: "signature option"
  vote_two_chain_timeout :: "(two_chain_timeout \<times> signature) option"

record vote_proposal =
  vp_accumulator_extension_proof :: accumulator_extension_proof
  vp_block :: block
  vp_next_epoch_state :: "epoch_state option"
  vp_decoupled_execution :: bool

record maybe_signed_vote_proposal =
  mvp_vote_proposal :: vote_proposal
  mvp_signature :: "signature option"

record safety_data =
  sd_epoch :: u64
  sd_last_voted_round :: u64
  sd_preferred_round :: u64
  sd_one_chain_round :: u64
  sd_last_vote :: "vote option"

record consensus_crypto =
  cc_ledger :: ledger_crypto
  cc_hash_vote_data :: "vote_data \<Rightarrow> hash_value"
  cc_hash_block_data :: "block_data \<Rightarrow> hash_value"
  cc_txn_accumulator_hash :: internal_hash
  cc_block_sigs :: "block_data sig_ops"
  cc_timeout_sigs :: "timeout sig_ops"
  cc_timeout2_sigs :: "timeout_signing_repr sig_ops"
  cc_vote_proposal_sigs :: "vote_proposal sig_ops"

abbreviation cc_li_sigs :: "consensus_crypto \<Rightarrow> ledger_info sig_ops" where
  "cc_li_sigs cc \<equiv> lc_li_sigs (cc_ledger cc)"

section \<open>Vote data\<close>

definition vote_data_verify :: "vote_data \<Rightarrow> (anyhow_error, unit) result" where
  "vote_data_verify vd =
     bind_res (ensure (bi_epoch (vd_parent vd) = bi_epoch (vd_proposed vd))
       (Msg ''Parent and proposed epochs do not match'')) (\<lambda>_.
     bind_res (ensure (bi_round (vd_parent vd) < bi_round (vd_proposed vd))
       (Msg ''Proposed round is less than parent round'')) (\<lambda>_.
     bind_res (ensure (bi_timestamp_usecs (vd_parent vd) \<le> bi_timestamp_usecs (vd_proposed vd))
       (Msg ''Proposed happened before parent'')) (\<lambda>_.
     bind_res (ensure (bi_version (vd_proposed vd) = 0 \<or> bi_version (vd_parent vd) \<le> bi_version (vd_proposed vd))
       (Msg ''Proposed version is less than parent version'')) (\<lambda>_.
     Ok ()))))"

section \<open>Quorum certificates\<close>

abbreviation qc_certified_block :: "quorum_cert \<Rightarrow> block_info" where
  "qc_certified_block qc \<equiv> vd_proposed (qc_vote_data qc)"

abbreviation qc_parent_block :: "quorum_cert \<Rightarrow> block_info" where
  "qc_parent_block qc \<equiv> vd_parent (qc_vote_data qc)"

abbreviation qc_ledger_info :: "quorum_cert \<Rightarrow> ledger_info" where
  "qc_ledger_info qc \<equiv> ls_ledger_info (qc_signed_ledger_info qc)"

abbreviation qc_commit_info :: "quorum_cert \<Rightarrow> block_info" where
  "qc_commit_info qc \<equiv> li_commit_info (qc_ledger_info qc)"

definition qc_ends_epoch :: "quorum_cert \<Rightarrow> bool" where
  "qc_ends_epoch qc \<longleftrightarrow> li_ends_epoch (qc_ledger_info qc)"

definition certificate_for_genesis_from_ledger_info ::
    "consensus_crypto \<Rightarrow> ledger_info \<Rightarrow> hash_value \<Rightarrow> (anyhow_error, quorum_cert) result" where
  "certificate_for_genesis_from_ledger_info cc li genesis_id =
     bind_res (expect (checked_add (li_epoch li) 1)) (\<lambda>epoch.
     let ancestor = \<lparr>bi_epoch = epoch, bi_round = 0, bi_id = genesis_id,
           bi_executed_state_id = li_transaction_accumulator_hash li, bi_version = li_version li,
           bi_timestamp_usecs = li_timestamp_usecs li, bi_next_epoch_state = None\<rparr>;
         vd = \<lparr>vd_proposed = ancestor, vd_parent = ancestor\<rparr>;
         gli = \<lparr>li_commit_info = ancestor, li_consensus_data_hash = cc_hash_vote_data cc vd\<rparr>
     in Ok \<lparr>qc_vote_data = vd, qc_signed_ledger_info = \<lparr>ls_ledger_info = gli, ls_signatures = []\<rparr>\<rparr>)"

definition qc_verify ::
    "consensus_crypto \<Rightarrow> quorum_cert \<Rightarrow> validator_verifier \<Rightarrow> (anyhow_error, unit) result" where
  "qc_verify cc qc validator =
     bind_res (ensure (li_consensus_data_hash (qc_ledger_info qc) = cc_hash_vote_data cc (qc_vote_data qc))
       (Msg ''Quorum Cert's hash mismatch LedgerInfo'')) (\<lambda>_.
     if bi_round (qc_certified_block qc) = 0 then
       bind_res (ensure (qc_parent_block qc = qc_certified_block qc)
         (Msg ''Genesis QC has inconsistent parent block with certified block'')) (\<lambda>_.
       bind_res (ensure (qc_certified_block qc = qc_commit_info qc)
         (Msg ''Genesis QC has inconsistent commit block with certified block'')) (\<lambda>_.
       bind_res (ensure (ls_signatures (qc_signed_ledger_info qc) = [])
         (Msg ''Genesis QC should not carry signatures'')) (\<lambda>_.
       Ok ())))
     else
       bind_res (map_err (\<lambda>e. Context ''Fail to verify QuorumCert'' (FromVerifyError e))
         (verify_signatures (cc_ledger cc) (qc_signed_ledger_info qc) validator)) (\<lambda>_.
       bind_res (vote_data_verify (qc_vote_data qc)) (\<lambda>_.
       Ok ())))"

section \<open>Block data\<close>

definition bd_author :: "block_data \<Rightarrow> author_t option" where
  "bd_author bd = (case bd_block_type bd of Proposal _ author \<Rightarrow> Some author | _ \<Rightarrow> None)"

definition bd_payload :: "block_data \<Rightarrow> payload option" where
  "bd_payload bd = (case bd_block_type bd of Proposal payload _ \<Rightarrow> Some payload | _ \<Rightarrow> None)"

abbreviation bd_parent_id :: "block_data \<Rightarrow> hash_value" where
  "bd_parent_id bd \<equiv> bi_id (qc_certified_block (bd_quorum_cert bd))"

definition bd_is_genesis_block :: "block_data \<Rightarrow> bool" where
  "bd_is_genesis_block bd \<longleftrightarrow> bd_block_type bd = Genesis"

definition bd_is_nil_block :: "block_data \<Rightarrow> bool" where
  "bd_is_nil_block bd \<longleftrightarrow> bd_block_type bd = NilBlock"

definition bd_new_genesis :: "u64 \<Rightarrow> quorum_cert \<Rightarrow> block_data" where
  "bd_new_genesis timestamp_usecs qc =
     \<lparr>bd_epoch = bi_epoch (qc_certified_block qc) + 1, bd_round = 0, bd_timestamp_usecs = timestamp_usecs,
      bd_quorum_cert = qc, bd_block_type = Genesis\<rparr>"

definition bd_new_genesis_from_ledger_info :: "ledger_info \<Rightarrow> (anyhow_error, block_data) result" where
  "bd_new_genesis_from_ledger_info li =
     bind_res (assert_that (li_ends_epoch li)) (\<lambda>_.
     let ancestor = \<lparr>bi_epoch = li_epoch li, bi_round = 0, bi_id = 0,
           bi_executed_state_id = li_transaction_accumulator_hash li, bi_version = li_version li,
           bi_timestamp_usecs = li_timestamp_usecs li, bi_next_epoch_state = None\<rparr>;
         genesis_quorum_cert = \<lparr>qc_vote_data = \<lparr>vd_proposed = ancestor, vd_parent = ancestor\<rparr>,
           qc_signed_ledger_info =
             \<lparr>ls_ledger_info = \<lparr>li_commit_info = ancestor, li_consensus_data_hash = 0\<rparr>, ls_signatures = []\<rparr>\<rparr>
     in Ok (bd_new_genesis (li_timestamp_usecs li) genesis_quorum_cert))"

definition bd_new_nil :: "round_t \<Rightarrow> quorum_cert \<Rightarrow> block_data" where
  "bd_new_nil r qc =
     \<lparr>bd_epoch = bi_epoch (qc_certified_block qc), bd_round = r,
      bd_timestamp_usecs = bi_timestamp_usecs (qc_certified_block qc),
      bd_quorum_cert = qc, bd_block_type = NilBlock\<rparr>"

definition bd_new_proposal ::
    "payload \<Rightarrow> author_t \<Rightarrow> round_t \<Rightarrow> u64 \<Rightarrow> quorum_cert \<Rightarrow> block_data" where
  "bd_new_proposal payload author r timestamp_usecs qc =
     \<lparr>bd_epoch = bi_epoch (qc_certified_block qc), bd_round = r, bd_timestamp_usecs = timestamp_usecs,
      bd_quorum_cert = qc, bd_block_type = Proposal payload author\<rparr>"

definition bd_is_reconfiguration_suffix :: "block_data \<Rightarrow> bool" where
  "bd_is_reconfiguration_suffix bd \<longleftrightarrow> bi_has_reconfiguration (qc_certified_block (bd_quorum_cert bd))"

section \<open>Blocks\<close>

abbreviation blk_author :: "block \<Rightarrow> author_t option" where
  "blk_author b \<equiv> bd_author (blk_block_data b)"
abbreviation blk_epoch :: "block \<Rightarrow> u64" where "blk_epoch b \<equiv> bd_epoch (blk_block_data b)"
abbreviation blk_round :: "block \<Rightarrow> round_t" where "blk_round b \<equiv> bd_round (blk_block_data b)"
abbreviation blk_quorum_cert :: "block \<Rightarrow> quorum_cert" where
  "blk_quorum_cert b \<equiv> bd_quorum_cert (blk_block_data b)"
abbreviation blk_parent_id :: "block \<Rightarrow> hash_value" where "blk_parent_id b \<equiv> bd_parent_id (blk_block_data b)"
abbreviation blk_timestamp_usecs :: "block \<Rightarrow> u64" where
  "blk_timestamp_usecs b \<equiv> bd_timestamp_usecs (blk_block_data b)"
abbreviation blk_payload :: "block \<Rightarrow> payload option" where "blk_payload b \<equiv> bd_payload (blk_block_data b)"

definition gen_block_info :: "block \<Rightarrow> hash_value \<Rightarrow> u64 \<Rightarrow> epoch_state option \<Rightarrow> block_info" where
  "gen_block_info b executed_state_id version next_epoch_state =
     \<lparr>bi_epoch = blk_epoch b, bi_round = blk_round b, bi_id = blk_id b,
      bi_executed_state_id = executed_state_id, bi_version = version,
      bi_timestamp_usecs = blk_timestamp_usecs b, bi_next_epoch_state = next_epoch_state\<rparr>"

definition block_of_data :: "consensus_crypto \<Rightarrow> block_data \<Rightarrow> signature option \<Rightarrow> block" where
  "block_of_data cc bd sg = \<lparr>blk_id = cc_hash_block_data cc bd, blk_block_data = bd, blk_signature = sg\<rparr>"

definition make_genesis_block_from_ledger_info ::
    "consensus_crypto \<Rightarrow> ledger_info \<Rightarrow> (anyhow_error, block) result" where
  "make_genesis_block_from_ledger_info cc li =
     bind_res (bd_new_genesis_from_ledger_info li) (\<lambda>bd. Ok (block_of_data cc bd None))"

definition block_new_nil :: "consensus_crypto \<Rightarrow> round_t \<Rightarrow> quorum_cert \<Rightarrow> block" where
  "block_new_nil cc r qc = block_of_data cc (bd_new_nil r qc) None"

definition new_proposal_from_block_data_and_signature ::
    "consensus_crypto \<Rightarrow> block_data \<Rightarrow> signature \<Rightarrow> block" where
  "new_proposal_from_block_data_and_signature cc bd sg = block_of_data cc bd (Some sg)"

definition validate_signature ::
    "consensus_crypto \<Rightarrow> block \<Rightarrow> validator_verifier \<Rightarrow> (anyhow_error, unit) result" where
  "validate_signature cc b validator =
     (case bd_block_type (blk_block_data b) of
        Genesis \<Rightarrow> Err (Msg ''We should not accept genesis from others'')
      | NilBlock \<Rightarrow> qc_verify cc (blk_quorum_cert b) validator
      | Proposal _ author \<Rightarrow>
          bind_res (ok_or (blk_signature b) (Msg ''Missing signature in Proposal'')) (\<lambda>sg.
          bind_res (map_err FromVerifyError (verify (cc_block_sigs cc) validator author (blk_block_data b) sg)) (\<lambda>_.
          qc_verify cc (blk_quorum_cert b) validator)))"

definition verify_well_formed :: "u64 \<Rightarrow> block \<Rightarrow> (anyhow_error, unit) result" where
  "verify_well_formed current_ts b =
     bind_res (ensure (\<not> bd_is_genesis_block (blk_block_data b)) (Msg ''We must not accept genesis from others'')) (\<lambda>_.
     let parent = qc_certified_block (blk_quorum_cert b) in
     bind_res (ensure (bi_round parent < blk_round b)
       (Msg ''Block must have a greater round than parent's block'')) (\<lambda>_.
     bind_res (ensure (bi_epoch parent = blk_epoch b) (Msg ''block's parent should be in the same epoch'')) (\<lambda>_.
     bind_res (if bi_has_reconfiguration parent then
         ensure (case blk_payload b of None \<Rightarrow> True | Some p \<Rightarrow> p = [])
           (Msg ''Reconfiguration suffix should not carry payload'')
       else Ok ()) (\<lambda>_.
     bind_res (if bd_is_nil_block (blk_block_data b) \<or> bi_has_reconfiguration parent then
         ensure (blk_timestamp_usecs b = bi_timestamp_usecs parent)
           (Msg ''Nil/reconfig suffix block must have same timestamp as parent'')
       else
         bind_res (ensure (blk_timestamp_usecs b > bi_timestamp_usecs parent)
           (Msg ''Blocks must have strictly increasing timestamps'')) (\<lambda>_.
         ensure (blk_timestamp_usecs b \<le> saturating_add current_ts 300000000)
           (Msg ''Blocks must not be too far in the future''))) (\<lambda>_.
     bind_res (ensure (\<not> qc_ends_epoch (blk_quorum_cert b))
       (Msg ''Block cannot be proposed in an epoch that has ended'')) (\<lambda>_.
     Ok ()))))))"

record block_metadata =
  bm_id :: hash_value
  bm_round :: u64
  bm_timestamp_usecs :: u64
  bm_previous_block_votes :: "account_address list"
  bm_proposer :: account_address

datatype transaction = BlockMetadata block_metadata | UserTransaction signed_transaction

definition block_metadata_from :: "block \<Rightarrow> block_metadata" where
  "block_metadata_from b =
     \<lparr>bm_id = blk_id b, bm_round = blk_round b, bm_timestamp_usecs = blk_timestamp_usecs b,
      bm_previous_block_votes = bt_keys (ls_signatures (qc_signed_ledger_info (blk_quorum_cert b))),
      bm_proposer = (case blk_author b of Some a \<Rightarrow> a | None \<Rightarrow> 0)\<rparr>"

definition transactions_to_execute :: "block \<Rightarrow> transaction list" where
  "transactions_to_execute b =
     BlockMetadata (block_metadata_from b) #
     map UserTransaction (case blk_payload b of Some p \<Rightarrow> p | None \<Rightarrow> [])"

section \<open>Timeouts of the 3-chain protocol\<close>

definition tc_new :: "timeout \<Rightarrow> timeout_certificate" where
  "tc_new t = \<lparr>tc_timeout = t, tc_signatures = []\<rparr>"

definition tc_verify ::
    "consensus_crypto \<Rightarrow> timeout_certificate \<Rightarrow> validator_verifier \<Rightarrow> (anyhow_error, unit) result" where
  "tc_verify cc tc validator =
     bind_res (map_err (\<lambda>e. Context ''Failed to verify TimeoutCertificate'' (FromVerifyError e))
       (verify_aggregated_struct_signature (cc_timeout_sigs cc) validator (tc_timeout tc) (tc_signatures tc)))
       (\<lambda>_. Ok ())"

definition tc_add_signature :: "timeout_certificate \<Rightarrow> author_t \<Rightarrow> signature \<Rightarrow> timeout_certificate" where
  "tc_add_signature tc author sg = tc\<lparr>tc_signatures := bt_or_insert author sg (tc_signatures tc)\<rparr>"

definition tc_remove_signature :: "timeout_certificate \<Rightarrow> author_t \<Rightarrow> timeout_certificate" where
  "tc_remove_signature tc author = tc\<lparr>tc_signatures := bt_remove author (tc_signatures tc)\<rparr>"

section \<open>Timeouts of the 2-chain protocol\<close>

abbreviation t2_hqc_round :: "two_chain_timeout \<Rightarrow> round_t" where
  "t2_hqc_round t \<equiv> bi_round (qc_certified_block (t2_quorum_cert t))"

definition signing_format :: "two_chain_timeout \<Rightarrow> timeout_signing_repr" where
  "signing_format t = \<lparr>tsr_epoch = t2_epoch t, tsr_round = t2_round t, tsr_hqc_round = t2_hqc_round t\<rparr>"

definition t2_verify ::
    "consensus_crypto \<Rightarrow> two_chain_timeout \<Rightarrow> validator_verifier \<Rightarrow> (anyhow_error, unit) result" where
  "t2_verify cc t validators =
     bind_res (ensure (t2_hqc_round t < t2_round t)
       (Msg ''Timeout round should be larger than the QC round'')) (\<lambda>_.
     bind_res (qc_verify cc (t2_quorum_cert t) validators) (\<lambda>_.
     Ok ()))"

definition tc2_new :: "two_chain_timeout \<Rightarrow> two_chain_timeout_certificate" where
  "tc2_new t = \<lparr>tc2_timeout = t, tc2_signatures = []\<rparr>"

text \<open>The loop over the signatures returns the highest signed round.\<close>

fun tc2_verify_loop ::
    "consensus_crypto \<Rightarrow> validator_verifier \<Rightarrow> two_chain_timeout \<Rightarrow> round_t
      \<Rightarrow> (author_t \<times> round_t \<times> signature) list \<Rightarrow> (anyhow_error, round_t) result" where
  "tc2_verify_loop cc validators t signed_round [] = Ok signed_round"
| "tc2_verify_loop cc validators t signed_round ((author, qc_round, sg) # rest) =
     bind_res (map_err (\<lambda>e. Context ''Failed to verify TimeoutSigningRepr'' (FromVerifyError e))
       (verify (cc_timeout2_sigs cc) validators author
          \<lparr>tsr_epoch = t2_epoch t, tsr_round = t2_round t, tsr_hqc_round = qc_round\<rparr> sg)) (\<lambda>_.
     tc2_verify_loop cc validators t (max signed_round qc_round) rest)"

definition tc2_verify ::
    "consensus_crypto \<Rightarrow> two_chain_timeout_certificate \<Rightarrow> validator_verifier \<Rightarrow> (anyhow_error, unit) result" where
  "tc2_verify cc tc validators =
     bind_res (t2_verify cc (tc2_timeout tc) validators) (\<lambda>_.
     let hqc_round = t2_hqc_round (tc2_timeout tc) in
     bind_res (map_err FromVerifyError (check_voting_power validators (bt_keys (tc2_signatures tc)))) (\<lambda>_.
     bind_res (tc2_verify_loop cc validators (tc2_timeout tc) 0 (tc2_signatures tc)) (\<lambda>signed_round.
     bind_res (ensure (hqc_round = signed_round) (Msg ''Inconsistent hqc round'')) (\<lambda>_.
     Ok ()))))"

abbreviation tc2_epoch :: "two_chain_timeout_certificate \<Rightarrow> u64" where
  "tc2_epoch tc \<equiv> t2_epoch (tc2_timeout tc)"
abbreviation tc2_round :: "two_chain_timeout_certificate \<Rightarrow> round_t" where
  "tc2_round tc \<equiv> t2_round (tc2_timeout tc)"
abbreviation tc2_highest_hqc_round :: "two_chain_timeout_certificate \<Rightarrow> round_t" where
  "tc2_highest_hqc_round tc \<equiv> t2_hqc_round (tc2_timeout tc)"

definition tc2_add ::
    "two_chain_timeout_certificate \<Rightarrow> author_t \<Rightarrow> two_chain_timeout \<Rightarrow> signature \<Rightarrow> two_chain_timeout_certificate" where
  "tc2_add tc author t sg =
     (let hqc_round = t2_hqc_round t;
          tc' = (if t2_hqc_round t > t2_hqc_round (tc2_timeout tc) then tc\<lparr>tc2_timeout := t\<rparr> else tc)
      in tc'\<lparr>tc2_signatures := bt_insert author (hqc_round, sg) (tc2_signatures tc')\<rparr>)"

section \<open>Votes\<close>

definition vote_new_with_signature :: "vote_data \<Rightarrow> author_t \<Rightarrow> ledger_info \<Rightarrow> signature \<Rightarrow> vote" where
  "vote_new_with_signature vd author li sg =
     \<lparr>vote_vote_data = vd, vote_author = author, vote_ledger_info = li, vote_signature = sg,
      vote_timeout_signature = None, vote_two_chain_timeout = None\<rparr>"

definition add_timeout_signature :: "vote \<Rightarrow> signature \<Rightarrow> ('e, vote) result" where
  "add_timeout_signature v sg =
     bind_res (assert_that (vote_two_chain_timeout v = None)) (\<lambda>_.
       if vote_timeout_signature v \<noteq> None then Ok v
       else Ok (v\<lparr>vote_timeout_signature := Some sg\<rparr>))"

definition add_2chain_timeout :: "vote \<Rightarrow> two_chain_timeout \<Rightarrow> signature \<Rightarrow> ('e, vote) result" where
  "add_2chain_timeout v t sg =
     bind_res (assert_that (vote_timeout_signature v = None)) (\<lambda>_.
       Ok (v\<lparr>vote_two_chain_timeout := Some (t, sg)\<rparr>))"

abbreviation vote_epoch :: "vote \<Rightarrow> u64" where "vote_epoch v \<equiv> bi_epoch (vd_proposed (vote_vote_data v))"
abbreviation vote_round :: "vote \<Rightarrow> round_t" where "vote_round v \<equiv> bi_round (vd_proposed (vote_vote_data v))"

definition generate_timeout :: "vote \<Rightarrow> timeout" where
  "generate_timeout v = \<lparr>to_epoch = vote_epoch v, to_round = vote_round v\<rparr>"

definition generate_2chain_timeout :: "vote \<Rightarrow> quorum_cert \<Rightarrow> two_chain_timeout" where
  "generate_2chain_timeout v qc = \<lparr>t2_epoch = vote_epoch v, t2_round = vote_round v, t2_quorum_cert = qc\<rparr>"

definition vote_is_timeout :: "vote \<Rightarrow> bool" where
  "vote_is_timeout v \<longleftrightarrow> vote_timeout_signature v \<noteq> None \<or> vote_two_chain_timeout v \<noteq> None"

definition vote_verify ::
    "consensus_crypto \<Rightarrow> vote \<Rightarrow> validator_verifier \<Rightarrow> (anyhow_error, unit) result" where
  "vote_verify cc v validator =
     bind_res (ensure (li_consensus_data_hash (vote_ledger_info v) = cc_hash_vote_data cc (vote_vote_data v))
       (Msg ''Vote's hash mismatch with LedgerInfo'')) (\<lambda>_.
     bind_res (ensure (vote_timeout_signature v = None \<or> vote_two_chain_timeout v = None)
       (Msg ''Only one timeout should exist'')) (\<lambda>_.
     bind_res (map_err (\<lambda>e. Context ''Failed to verify Vote'' (FromVerifyError e))
       (verify (cc_li_sigs cc) validator (vote_author v) (vote_ledger_info v) (vote_signature v))) (\<lambda>_.
     bind_res (case vote_timeout_signature v of
         None \<Rightarrow> Ok ()
       | Some sg \<Rightarrow> map_err (\<lambda>e. Context ''Failed to verify Timeout Vote'' (FromVerifyError e))
           (verify (cc_timeout_sigs cc) validator (vote_author v) (generate_timeout v) sg)) (\<lambda>_.
     bind_res (case vote_two_chain_timeout v of
         None \<Rightarrow> Ok ()
       | Some (t, sg) \<Rightarrow>
           bind_res (ensure ((t2_epoch t, t2_round t) = (vote_epoch v, vote_round v))
             (Msg ''2-chain timeout has different (epoch, round) than Vote'')) (\<lambda>_.
           bind_res (t2_verify cc t validator) (\<lambda>_.
           map_err (\<lambda>e. Context ''Failed to verify 2-chain timeout signature'' (FromVerifyError e))
             (verify (cc_timeout2_sigs cc) validator (vote_author v) (signing_format t) sg)))) (\<lambda>_.
     bind_res (vote_data_verify (vote_vote_data v)) (\<lambda>_.
     Ok ()))))))"

section \<open>Vote proposals\<close>

definition vote_data_ordering_only :: "vote_proposal \<Rightarrow> vote_data" where
  "vote_data_ordering_only vp =
     \<lparr>vd_proposed = gen_block_info (vp_block vp) accumulator_placeholder_hash 0 (vp_next_epoch_state vp),
      vd_parent = qc_certified_block (blk_quorum_cert (vp_block vp))\<rparr>"

definition vote_data_with_extension_proof :: "vote_proposal \<Rightarrow> in_memory_accumulator \<Rightarrow> vote_data" where
  "vote_data_with_extension_proof vp new_tree =
     \<lparr>vd_proposed = gen_block_info (vp_block vp) (acc_root_hash new_tree) (accumulator_version new_tree)
        (vp_next_epoch_state vp),
      vd_parent = qc_certified_block (blk_quorum_cert (vp_block vp))\<rparr>"

definition gen_vote_data :: "consensus_crypto \<Rightarrow> vote_proposal \<Rightarrow> (anyhow_error, vote_data) result" where
  "gen_vote_data cc vp =
     (if vp_decoupled_execution vp then Ok (vote_data_ordering_only vp)
      else
        bind_res (extension_proof_verify (cc_txn_accumulator_hash cc) (vp_accumulator_extension_proof vp)
          (bi_executed_state_id (qc_certified_block (blk_quorum_cert (vp_block vp))))) (\<lambda>new_tree.
        Ok (vote_data_with_extension_proof vp new_tree)))"

section \<open>What verification establishes\<close>

lemma vote_data_verify_Ok_iff:
  "vote_data_verify vd = Ok () \<longleftrightarrow>
     bi_epoch (vd_parent vd) = bi_epoch (vd_proposed vd) \<and>
     bi_round (vd_parent vd) < bi_round (vd_proposed vd) \<and>
     bi_timestamp_usecs (vd_parent vd) \<le> bi_timestamp_usecs (vd_proposed vd) \<and>
     (bi_version (vd_proposed vd) = 0 \<or> bi_version (vd_parent vd) \<le> bi_version (vd_proposed vd))"
  by (auto simp: vote_data_verify_def bind_res_Ok_iff)

lemma qc_verify_Ok_iff:
  "qc_verify cc qc v = Ok () \<longleftrightarrow>
     li_consensus_data_hash (qc_ledger_info qc) = cc_hash_vote_data cc (qc_vote_data qc) \<and>
     (if bi_round (qc_certified_block qc) = 0 then
        qc_parent_block qc = qc_certified_block qc \<and> qc_certified_block qc = qc_commit_info qc \<and>
        ls_signatures (qc_signed_ledger_info qc) = []
      else verify_signatures (cc_ledger cc) (qc_signed_ledger_info qc) v = Ok () \<and>
        vote_data_verify (qc_vote_data qc) = Ok ())"
  by (auto simp: qc_verify_def bind_res_Ok_iff)

lemma qc_verify_signed:
  assumes "qc_verify cc qc v = Ok ()" "batch_sound (cc_li_sigs cc)" "bi_round (qc_certified_block qc) \<noteq> 0"
  shows "quorum_signed (cc_ledger cc) v (qc_signed_ledger_info qc)"
  using assms verify_signatures_quorum_signed by (auto simp: qc_verify_Ok_iff)

lemma verify_Ok_iff:
  "verify ops v a m sg = Ok () \<longleftrightarrow> (\<exists>pk. get_public_key v a = Some pk \<and> sig_verify ops pk m sg)"
  by (auto simp: verify_def split: option.splits)

lemma vote_verify_Ok:
  assumes "vote_verify cc v vv = Ok ()"
  shows "li_consensus_data_hash (vote_ledger_info v) = cc_hash_vote_data cc (vote_vote_data v)"
    "verify (cc_li_sigs cc) vv (vote_author v) (vote_ledger_info v) (vote_signature v) = Ok ()"
    "vote_data_verify (vote_vote_data v) = Ok ()"
    "vote_timeout_signature v = Some sg \<Longrightarrow>
       verify (cc_timeout_sigs cc) vv (vote_author v) (generate_timeout v) sg = Ok ()"
    "vote_two_chain_timeout v = Some (t, sg) \<Longrightarrow>
       t2_epoch t = vote_epoch v \<and> t2_round t = vote_round v \<and> t2_verify cc t vv = Ok () \<and>
       verify (cc_timeout2_sigs cc) vv (vote_author v) (signing_format t) sg = Ok ()"
  using assms by (auto simp: vote_verify_def bind_res_Ok_iff)

lemma verify_well_formed_Ok:
  assumes "verify_well_formed now b = Ok ()"
  shows "\<not> bd_is_genesis_block (blk_block_data b)"
    "bi_round (qc_certified_block (blk_quorum_cert b)) < blk_round b"
    "bi_epoch (qc_certified_block (blk_quorum_cert b)) = blk_epoch b"
    "\<not> qc_ends_epoch (blk_quorum_cert b)"
  using assms by (auto simp: verify_well_formed_def Let_def bind_res_Ok_iff)

text \<open>The rounds that the signers of a 2-chain timeout certificate have signed.\<close>

definition tc2_signed_rounds :: "(author_t \<times> round_t \<times> signature) list \<Rightarrow> round_t set" where
  "tc2_signed_rounds sigs = (\<lambda>(a, q, sg). q) ` set sigs"

lemma tc2_verify_loop_Ok_iff:
  "tc2_verify_loop cc v t m sigs = Ok r \<longleftrightarrow>
     (\<forall>(a, q, sg) \<in> set sigs. verify (cc_timeout2_sigs cc) v a
        \<lparr>tsr_epoch = t2_epoch t, tsr_round = t2_round t, tsr_hqc_round = q\<rparr> sg = Ok ()) \<and>
     r = Max (insert m (tc2_signed_rounds sigs))"
proof (induction cc v t m sigs rule: tc2_verify_loop.induct)
  case (1 cc v t m)
  then show ?case by (auto simp: tc2_signed_rounds_def)
next
  case (2 cc v t m a q sg rest)
  have "Max (insert m (insert q (tc2_signed_rounds rest))) = Max (insert (max m q) (tc2_signed_rounds rest))"
    by (simp add: tc2_signed_rounds_def Max_insert2 Max.insert_not_elem max.assoc
        flip: Max.infinite) (cases "rest = []"; simp add: max.assoc)
  then show ?case
    using 2 by (auto simp: bind_res_Ok_iff tc2_signed_rounds_def)
qed

lemma tc2_verify_Ok_iff:
  "tc2_verify cc tc v = Ok () \<longleftrightarrow>
     t2_verify cc (tc2_timeout tc) v = Ok () \<and>
     check_voting_power v (bt_keys (tc2_signatures tc)) = Ok () \<and>
     (\<forall>(a, q, sg) \<in> set (tc2_signatures tc). verify (cc_timeout2_sigs cc) v a
        \<lparr>tsr_epoch = tc2_epoch tc, tsr_round = tc2_round tc, tsr_hqc_round = q\<rparr> sg = Ok ()) \<and>
     tc2_highest_hqc_round tc = Max (insert 0 (tc2_signed_rounds (tc2_signatures tc)))"
  by (auto simp: tc2_verify_def bind_res_Ok_iff tc2_verify_loop_Ok_iff Let_def)

lemma tc2_signer_le:
  assumes "tc2_verify cc tc v = Ok ()" "(a, q, sg) \<in> set (tc2_signatures tc)"
  shows "q \<le> tc2_highest_hqc_round tc"
  using assms by (force simp: tc2_verify_Ok_iff tc2_signed_rounds_def intro!: Max_ge)

section \<open>Properties\<close>

text \<open>C32: The certificate that every validator makes for the genesis block of an epoch is accepted
  by \<open>QuorumCert::verify\<close> without signatures, and it certifies and commits the genesis block in
  the following epoch; it fails (with the source's panic) only at the last epoch number.\<close>

theorem genesis_certificate_verifies:
  "certificate_for_genesis_from_ledger_info cc li genesis_id = Panic \<and> li_epoch li = u64_max \<or>
   (\<exists>qc. certificate_for_genesis_from_ledger_info cc li genesis_id = Ok qc \<and>
      qc_verify cc qc v = Ok () \<and> bi_id (qc_certified_block qc) = genesis_id \<and>
      qc_commit_info qc = qc_certified_block qc \<and> bi_round (qc_certified_block qc) = 0 \<and>
      unat (bi_epoch (qc_certified_block qc)) = unat (li_epoch li) + 1)"
proof (cases "checked_add (li_epoch li) 1")
  case None
  then have "unat (li_epoch li) = unat u64_max"
    using unat_u64_less [of "li_epoch li"] by (simp add: checked_add_def unat_u64_max split: if_splits)
  then show ?thesis
    using None by (simp add: certificate_for_genesis_from_ledger_info_def word_unat_eq_iff)
next
  case (Some e)
  then show ?thesis
    using checked_add_Some [OF Some]
    by (simp add: certificate_for_genesis_from_ledger_info_def Let_def qc_verify_Ok_iff)
qed

text \<open>C33: A nil block made by \<open>Block::new_nil\<close> for a certificate is well formed exactly when its
  round is greater than the certified round and the certificate does not end the epoch.\<close>

theorem nil_block_well_formed:
  "verify_well_formed now (block_new_nil cc r qc) = Ok () \<longleftrightarrow>
     bi_round (qc_certified_block qc) < r \<and> \<not> qc_ends_epoch qc"
  by (auto simp: verify_well_formed_def block_new_nil_def block_of_data_def bd_new_nil_def Let_def
      bind_res_Ok_iff bd_is_genesis_block_def bd_is_nil_block_def bd_payload_def)

lemma tc2_add_keeps_max:
  assumes "bt_wf (tc2_signatures tc)" "author \<notin> set (bt_keys (tc2_signatures tc))"
    and "tc2_signatures tc = [] \<and> tc2_timeout tc = t \<or>
      tc2_highest_hqc_round tc = Max (insert 0 (tc2_signed_rounds (tc2_signatures tc)))"
  shows "bt_wf (tc2_signatures (tc2_add tc author t sg)) \<and>
    tc2_highest_hqc_round (tc2_add tc author t sg) =
      Max (insert 0 (tc2_signed_rounds (tc2_signatures (tc2_add tc author t sg))))"
proof -
  let ?R = "tc2_signed_rounds (tc2_signatures tc)"
  have sigs: "tc2_signatures (tc2_add tc author t sg) = bt_insert author (t2_hqc_round t, sg) (tc2_signatures tc)"
    and hqc: "tc2_highest_hqc_round (tc2_add tc author t sg) = max (tc2_highest_hqc_round tc) (t2_hqc_round t)"
    by (auto simp: tc2_add_def Let_def max_def)
  have "set (bt_insert author (t2_hqc_round t, sg) (tc2_signatures tc)) =
      insert (author, t2_hqc_round t, sg) (set (tc2_signatures tc))"
    using assms(2) by (rule set_bt_insert_fresh)
  then have rounds: "tc2_signed_rounds (tc2_signatures (tc2_add tc author t sg)) = insert (t2_hqc_round t) ?R"
    by (auto simp: tc2_signed_rounds_def sigs)
  have "Max (insert (t2_hqc_round t) (insert 0 ?R)) = max (t2_hqc_round t) (Max (insert 0 ?R))"
    by (rule Max_insert) (simp_all add: tc2_signed_rounds_def)
  then have "Max (insert 0 (insert (t2_hqc_round t) ?R)) = max (Max (insert 0 ?R)) (t2_hqc_round t)"
    by (simp only: insert_commute max.commute)
  moreover have "max (tc2_highest_hqc_round tc) (t2_hqc_round t) = max (Max (insert 0 ?R)) (t2_hqc_round t)"
    using assms(3) by (auto simp: tc2_signed_rounds_def)
  ultimately show ?thesis
    using assms(1) unfolding hqc rounds by (simp only: sigs bt_wf_insert simp_thms)
qed

end
