(* ===== verification/Safety_Storage.thy ===== *)
theory Safety_Storage
  imports Consensus_Types
begin

text \<open>
  The secure key-value storage and the persistent safety storage on top of it:
  \<^verbatim>\<open>secure/storage/src\<close> (\<^verbatim>\<open>in_memory.rs\<close>, \<^verbatim>\<open>crypto_kv_storage.rs\<close>,
  \<^verbatim>\<open>namespaced.rs\<close>, \<^verbatim>\<open>error.rs\<close>) and
  \<^verbatim>\<open>consensus/safety-rules/src/persistent_safety_storage.rs\<close> with its \<^verbatim>\<open>error.rs\<close>.

  Values are stored as JSON and read at the type the reader asks for; \<open>stored_value\<close> has a
  constructor per type that is stored, and reading at another type is a serialisation error. The
  backends other than the in-memory one (Vault, on-disk) can fail: \<open>kv_fault\<close> gives the error
  with which an access to a key fails, and is empty for the in-memory backend.
\<close>

section \<open>Errors\<close>

datatype storage_error =
    EntropyError
  | StorageInternalError
  | KeyAlreadyExists string
  | KeyNotSet string
  | PermissionDenied
  | StorageSerializationError
  | KeyVersionNotFound string public_key

datatype sr_error =
    IncorrectEpoch u64 u64
  | IncorrectRound u64
  | IncorrectLastVotedRound u64 u64
  | IncorrectPreferredRound u64 u64
  | InvalidAccumulatorExtension anyhow_error
  | InvalidEpochChangeProof anyhow_error
  | InternalError anyhow_error
  | InvalidLedgerInfo
  | InvalidProposal anyhow_error
  | InvalidQuorumCertificate anyhow_error
  | NotInitialized string
  | SecureStorageMissingDataError storage_error
  | SecureStorageUnexpectedError storage_error
  | SerializationError
  | ValidatorKeyNotFound sr_error
  | ValidatorNotInSet account_address
  | VoteProposalSignatureNotFound
  | NotSafeToVote u64 u64 u64 u64
  | NotSafeToTimeout u64 u64 u64 u64
  | InvalidTimeoutCertificate anyhow_error
  | InconsistentExecutionResult block_info block_info
  | InvalidOrderedLedgerInfo ledger_info
  | WaypointOutOfDate u64 u64 u64 u64
  | InvalidTimeout anyhow_error

text \<open>\<open>From<diem_secure_storage::Error>\<close>: a permission failure panics.\<close>

definition from_storage_error :: "storage_error \<Rightarrow> (sr_error, 'a) result" where
  "from_storage_error e =
     (case e of
        PermissionDenied \<Rightarrow> Panic
      | KeyVersionNotFound _ _ \<Rightarrow> Err (SecureStorageMissingDataError e)
      | KeyNotSet _ \<Rightarrow> Err (SecureStorageMissingDataError e)
      | _ \<Rightarrow> Err (SecureStorageUnexpectedError e))"

definition storage_try :: "(storage_error, 'a) result \<Rightarrow> (sr_error, 'a) result" where
  "storage_try r = (case r of Ok x \<Rightarrow> Ok x | Err e \<Rightarrow> from_storage_error e | Panic \<Rightarrow> Panic)"

section \<open>Key-value storage\<close>

datatype stored_value =
    SvAccount account_address
  | SvPrivateKey private_key
  | SvSafetyData safety_data
  | SvSafetyDataResult "(sr_error, safety_data) result"
  | SvWaypoint waypoint

record kv_storage =
  kv_data :: "string \<rightharpoonup> stored_value \<times> u64"
  kv_now :: u64
  kv_fault :: "string \<rightharpoonup> storage_error"

definition in_memory_new :: "u64 \<Rightarrow> kv_storage" where
  "in_memory_new now = \<lparr>kv_data = Map.empty, kv_now = now, kv_fault = Map.empty\<rparr>"

definition kv_get :: "kv_storage \<Rightarrow> string \<Rightarrow> (storage_error, stored_value) result" where
  "kv_get s key =
     (case kv_fault s key of
        Some e \<Rightarrow> Err e
      | None \<Rightarrow> (case kv_data s key of None \<Rightarrow> Err (KeyNotSet key) | Some (v, _) \<Rightarrow> Ok v))"

definition kv_set :: "string \<Rightarrow> stored_value \<Rightarrow> (kv_storage, storage_error, unit) action" where
  "kv_set key v s =
     (case kv_fault s key of
        Some e \<Rightarrow> (Err e, s)
      | None \<Rightarrow> (Ok (), s\<lparr>kv_data := (kv_data s)(key \<mapsto> (v, kv_now s))\<rparr>))"

text \<open>Reading at a type.\<close>

definition get_private_key :: "kv_storage \<Rightarrow> string \<Rightarrow> (storage_error, private_key) result" where
  "get_private_key s key =
     bind_res (kv_get s key) (\<lambda>v. case v of SvPrivateKey k \<Rightarrow> Ok k | _ \<Rightarrow> Err StorageSerializationError)"

definition get_account :: "kv_storage \<Rightarrow> string \<Rightarrow> (storage_error, account_address) result" where
  "get_account s key =
     bind_res (kv_get s key) (\<lambda>v. case v of SvAccount a \<Rightarrow> Ok a | _ \<Rightarrow> Err StorageSerializationError)"

definition get_safety_data :: "kv_storage \<Rightarrow> string \<Rightarrow> (storage_error, safety_data) result" where
  "get_safety_data s key =
     bind_res (kv_get s key) (\<lambda>v. case v of SvSafetyData d \<Rightarrow> Ok d | _ \<Rightarrow> Err StorageSerializationError)"

definition get_safety_data_result ::
    "kv_storage \<Rightarrow> string \<Rightarrow> (storage_error, (sr_error, safety_data) result) result" where
  "get_safety_data_result s key =
     bind_res (kv_get s key) (\<lambda>v. case v of SvSafetyDataResult r \<Rightarrow> Ok r | _ \<Rightarrow> Err StorageSerializationError)"

definition get_waypoint :: "kv_storage \<Rightarrow> string \<Rightarrow> (storage_error, waypoint) result" where
  "get_waypoint s key =
     bind_res (kv_get s key) (\<lambda>v. case v of SvWaypoint w \<Rightarrow> Ok w | _ \<Rightarrow> Err StorageSerializationError)"

section \<open>Keys in key-value storage\<close>

text \<open>
  \<open>pub\<close> is the public key of a private key; a fresh key pair for rotation is an argument, since the
  source draws it from the operating system.
\<close>

definition get_previous_version_name :: "string \<Rightarrow> string" where
  "get_previous_version_name name = name @ ''_previous''"

definition import_private_key :: "string \<Rightarrow> private_key \<Rightarrow> (kv_storage, storage_error, unit) action" where
  "import_private_key name key = kv_set name (SvPrivateKey key)"

definition export_private_key_for_version ::
    "(private_key \<Rightarrow> public_key) \<Rightarrow> kv_storage \<Rightarrow> string \<Rightarrow> public_key \<Rightarrow> (storage_error, private_key) result" where
  "export_private_key_for_version pub s name version =
     bind_res (get_private_key s name) (\<lambda>current.
       if pub current = version then Ok current
       else
         (case get_private_key s (get_previous_version_name name) of
            Ok previous \<Rightarrow>
              if pub previous = version then Ok previous else Err (KeyVersionNotFound name version)
          | Err e \<Rightarrow> (case e of KeyNotSet _ \<Rightarrow> Err (KeyVersionNotFound name version) | _ \<Rightarrow> Err e)
          | Panic \<Rightarrow> Panic))"

definition kv_get_public_key ::
    "(private_key \<Rightarrow> public_key) \<Rightarrow> kv_storage \<Rightarrow> string \<Rightarrow> (storage_error, public_key) result" where
  "kv_get_public_key pub s name = bind_res (get_private_key s name) (\<lambda>k. Ok (pub k))"

definition get_public_key_previous_version ::
    "(private_key \<Rightarrow> public_key) \<Rightarrow> kv_storage \<Rightarrow> string \<Rightarrow> (storage_error, public_key) result" where
  "get_public_key_previous_version pub s name =
     (case get_private_key s (get_previous_version_name name) of
        Ok previous \<Rightarrow> Ok (pub previous)
      | Err e \<Rightarrow> (case e of KeyNotSet _ \<Rightarrow> Err (KeyVersionNotFound name 0) | _ \<Rightarrow> Err e)
      | Panic \<Rightarrow> Panic)"

definition rotate_key ::
    "(private_key \<Rightarrow> public_key) \<Rightarrow> private_key \<Rightarrow> string \<Rightarrow> (kv_storage, storage_error, public_key) action" where
  "rotate_key pub fresh name =
     bindS get_state (\<lambda>s.
     bindS (lift_res (get_private_key s name)) (\<lambda>private_key.
     bindS (kv_set (get_previous_version_name name) (SvPrivateKey private_key)) (\<lambda>_.
     bindS (kv_set name (SvPrivateKey fresh)) (\<lambda>_.
     ret (pub fresh)))))"

definition kv_sign ::
    "(private_key \<Rightarrow> 'm \<Rightarrow> signature) \<Rightarrow> kv_storage \<Rightarrow> string \<Rightarrow> 'm \<Rightarrow> (storage_error, signature) result" where
  "kv_sign sign_fn s name message = bind_res (get_private_key s name) (\<lambda>k. Ok (sign_fn k message))"

definition sign_using_version ::
    "(private_key \<Rightarrow> public_key) \<Rightarrow> (private_key \<Rightarrow> 'm \<Rightarrow> signature) \<Rightarrow> kv_storage \<Rightarrow> string \<Rightarrow> public_key \<Rightarrow> 'm
      \<Rightarrow> (storage_error, signature) result" where
  "sign_using_version pub sign_fn s name version message =
     bind_res (export_private_key_for_version pub s name version) (\<lambda>k. Ok (sign_fn k message))"

section \<open>Namespaces\<close>

definition namespaced :: "string \<Rightarrow> string \<Rightarrow> string" where
  "namespaced namespace name = namespace @ ''/'' @ name"

definition namespaced_get :: "string \<Rightarrow> kv_storage \<Rightarrow> string \<Rightarrow> (storage_error, stored_value) result" where
  "namespaced_get namespace s key = kv_get s (namespaced namespace key)"

definition namespaced_set ::
    "string \<Rightarrow> string \<Rightarrow> stored_value \<Rightarrow> (kv_storage, storage_error, unit) action" where
  "namespaced_set namespace key v = kv_set (namespaced namespace key) v"

section \<open>Persistent safety storage\<close>

abbreviation (input) CONSENSUS_KEY :: string where "CONSENSUS_KEY \<equiv> ''consensus''"
abbreviation (input) EXECUTION_KEY :: string where "EXECUTION_KEY \<equiv> ''execution''"
abbreviation (input) OWNER_ACCOUNT :: string where "OWNER_ACCOUNT \<equiv> ''owner_account''"
abbreviation (input) SAFETY_DATA :: string where "SAFETY_DATA \<equiv> ''safety_data''"
abbreviation (input) WAYPOINT :: string where "WAYPOINT \<equiv> ''waypoint''"

record persistent_safety_storage =
  pss_enable_cached_safety_data :: bool
  pss_cached_safety_data :: "safety_data option"
  pss_internal_store :: kv_storage

definition pss_new :: "kv_storage \<Rightarrow> bool \<Rightarrow> persistent_safety_storage" where
  "pss_new internal_store enable_cached_safety_data =
     \<lparr>pss_enable_cached_safety_data = enable_cached_safety_data, pss_cached_safety_data = None,
      pss_internal_store = internal_store\<rparr>"

definition pss_author :: "persistent_safety_storage \<Rightarrow> (sr_error, account_address) result" where
  "pss_author st = storage_try (get_account (pss_internal_store st) OWNER_ACCOUNT)"

definition pss_consensus_key_for_version ::
    "(private_key \<Rightarrow> public_key) \<Rightarrow> persistent_safety_storage \<Rightarrow> public_key \<Rightarrow> (sr_error, private_key) result" where
  "pss_consensus_key_for_version pub st version =
     storage_try (export_private_key_for_version pub (pss_internal_store st) CONSENSUS_KEY version)"

definition pss_execution_public_key ::
    "(private_key \<Rightarrow> public_key) \<Rightarrow> persistent_safety_storage \<Rightarrow> (sr_error, public_key) result" where
  "pss_execution_public_key pub st = storage_try (kv_get_public_key pub (pss_internal_store st) EXECUTION_KEY)"

definition pss_sign ::
    "(private_key \<Rightarrow> public_key) \<Rightarrow> (private_key \<Rightarrow> 'm \<Rightarrow> signature) \<Rightarrow> persistent_safety_storage \<Rightarrow> string
      \<Rightarrow> public_key \<Rightarrow> 'm \<Rightarrow> (sr_error, signature) result" where
  "pss_sign pub sign_fn st key_name key_version message =
     storage_try (sign_using_version pub sign_fn (pss_internal_store st) key_name key_version message)"

definition pss_safety_data :: "(persistent_safety_storage, sr_error, safety_data) action" where
  "pss_safety_data st =
     (if \<not> pss_enable_cached_safety_data st then
        (bind_res (storage_try (get_safety_data_result (pss_internal_store st) SAFETY_DATA)) (\<lambda>r. r), st)
      else
        (case pss_cached_safety_data st of
           Some d \<Rightarrow> (Ok d, st)
         | None \<Rightarrow>
             (case storage_try (get_safety_data (pss_internal_store st) SAFETY_DATA) of
                Ok d \<Rightarrow> (Ok d, st\<lparr>pss_cached_safety_data := Some d\<rparr>)
              | Err e \<Rightarrow> (Err e, st)
              | Panic \<Rightarrow> (Panic, st))))"

definition pss_set_safety_data :: "safety_data \<Rightarrow> (persistent_safety_storage, sr_error, unit) action" where
  "pss_set_safety_data data st =
     (case kv_set SAFETY_DATA (SvSafetyData data) (pss_internal_store st) of
        (Ok _, store) \<Rightarrow>
          (Ok (), st\<lparr>pss_cached_safety_data := Some data, pss_internal_store := store\<rparr>)
      | (Err e, store) \<Rightarrow>
          (Err (SecureStorageUnexpectedError e),
           st\<lparr>pss_cached_safety_data := None, pss_internal_store := store\<rparr>)
      | (Panic, store) \<Rightarrow> (Panic, st\<lparr>pss_internal_store := store\<rparr>))"

definition pss_waypoint :: "persistent_safety_storage \<Rightarrow> (sr_error, waypoint) result" where
  "pss_waypoint st = storage_try (get_waypoint (pss_internal_store st) WAYPOINT)"

definition pss_set_waypoint :: "waypoint \<Rightarrow> (persistent_safety_storage, sr_error, unit) action" where
  "pss_set_waypoint w st =
     (case kv_set WAYPOINT (SvWaypoint w) (pss_internal_store st) of
        (r, store) \<Rightarrow> (storage_try r, st\<lparr>pss_internal_store := store\<rparr>))"

definition pss_initialize_keys_and_accounts ::
    "author_t \<Rightarrow> private_key \<Rightarrow> private_key \<Rightarrow> (kv_storage, sr_error, unit) action" where
  "pss_initialize_keys_and_accounts author consensus_private_key execution_private_key s =
     (case import_private_key CONSENSUS_KEY consensus_private_key s of
        (Err (KeyAlreadyExists _), s1) \<Rightarrow> (Ok (), s1)
      | (_, s1) \<Rightarrow>
          (case import_private_key EXECUTION_KEY execution_private_key s1 of
             (Ok _, s2) \<Rightarrow> (case kv_set OWNER_ACCOUNT (SvAccount author) s2 of (r, s3) \<Rightarrow> (storage_try r, s3))
           | (r, s2) \<Rightarrow> (storage_try r, s2)))"

definition pss_initialize ::
    "kv_storage \<Rightarrow> author_t \<Rightarrow> private_key \<Rightarrow> private_key \<Rightarrow> waypoint \<Rightarrow> bool
      \<Rightarrow> (sr_error, persistent_safety_storage) result" where
  "pss_initialize internal_store author consensus_private_key execution_private_key waypoint enable_cached =
     (case pss_initialize_keys_and_accounts author consensus_private_key execution_private_key internal_store of
        (Ok _, store) \<Rightarrow>
          (let sd = \<lparr>sd_epoch = 1, sd_last_voted_round = 0, sd_preferred_round = 0, sd_one_chain_round = 0,
                 sd_last_vote = None\<rparr>;
               st = \<lparr>pss_enable_cached_safety_data = enable_cached, pss_cached_safety_data = Some sd,
                 pss_internal_store = store\<rparr>
           in case pss_set_safety_data sd st of
                (Ok _, st1) \<Rightarrow> (case pss_set_waypoint waypoint st1 of (Ok _, st2) \<Rightarrow> Ok st2 | _ \<Rightarrow> Panic)
              | _ \<Rightarrow> Panic)
      | _ \<Rightarrow> Panic)"

section \<open>The storage contract\<close>

locale kv_store =
  fixes get :: "'s \<Rightarrow> string \<Rightarrow> (storage_error, stored_value) result"
    and set :: "string \<Rightarrow> stored_value \<Rightarrow> ('s, storage_error, unit) action"
  assumes get_set_same: "set key v s = (Ok (), s') \<Longrightarrow> get s' key = Ok v"
    and get_set_other: "set key v s = (r, s') \<Longrightarrow> key' \<noteq> key \<Longrightarrow> get s' key' = get s key'"
    and set_fails_keeps: "set key v s = (Err e, s') \<Longrightarrow> get s' key = get s key"
    and set_no_panic: "fst (set key v s) \<noteq> Panic"
begin

text \<open>A write either takes effect on its key only or leaves every key as it was.\<close>

lemma set_frame: "set key v s = (r, s') \<Longrightarrow> get s' key' = get s key' \<or> (key' = key \<and> get s' key' = Ok v)"
  using get_set_same get_set_other set_fails_keeps set_no_panic [of key v s]
  by (cases r; cases "key' = key") auto

end

interpretation kvs: kv_store kv_get kv_set
  by unfold_locales (auto simp: kv_get_def kv_set_def split: option.splits if_splits)

lemma namespaced_inj: "namespaced ns k = namespaced ns k' \<longleftrightarrow> k = k'"
  by (simp add: namespaced_def)

interpretation nss: kv_store "namespaced_get ns" "namespaced_set ns" for ns
proof unfold_locales
  show "namespaced_set ns key v s = (Ok (), s') \<Longrightarrow> namespaced_get ns s' key = Ok v" for key v s s'
    unfolding namespaced_get_def namespaced_set_def by (rule kvs.get_set_same)
  show "namespaced_set ns key v s = (r, s') \<Longrightarrow> key' \<noteq> key \<Longrightarrow> namespaced_get ns s' key' = namespaced_get ns s key'"
    for key v s r s' key'
    unfolding namespaced_get_def namespaced_set_def using kvs.get_set_other namespaced_inj by metis
  show "namespaced_set ns key v s = (Err e, s') \<Longrightarrow> namespaced_get ns s' key = namespaced_get ns s key"
    for key v s e s'
    unfolding namespaced_get_def namespaced_set_def by (rule kvs.set_fails_keeps)
  show "fst (namespaced_set ns key v s) \<noteq> Panic" for key v s
    unfolding namespaced_set_def by (rule kvs.set_no_panic)
qed

section \<open>Coherence of the cache\<close>

text \<open>The safety data that a restarted process would read.\<close>

definition stored_safety_data :: "persistent_safety_storage \<Rightarrow> safety_data option" where
  "stored_safety_data st =
     (case kv_data (pss_internal_store st) SAFETY_DATA of Some (SvSafetyData d, _) \<Rightarrow> Some d | _ \<Rightarrow> None)"

definition pss_inv :: "persistent_safety_storage \<Rightarrow> bool" where
  "pss_inv st \<longleftrightarrow>
     (\<forall>d. pss_cached_safety_data st = Some d \<longrightarrow> stored_safety_data st = Some d) \<and>
     (\<forall>r t. kv_data (pss_internal_store st) SAFETY_DATA \<noteq> Some (SvSafetyDataResult r, t))"

lemma storage_try_Ok_iff [simp]: "storage_try r = Ok x \<longleftrightarrow> r = Ok x"
  by (cases r) (auto simp: storage_try_def from_storage_error_def split: storage_error.splits)

lemma storage_try_Ok [simp]: "storage_try (Ok x) = Ok x"
  by simp

lemma kv_get_Ok_iff: "kv_get s key = Ok v \<longleftrightarrow> kv_fault s key = None \<and> (\<exists>t. kv_data s key = Some (v, t))"
  by (auto simp: kv_get_def split: option.splits)

lemma get_safety_data_Ok:
  "get_safety_data s key = Ok d \<Longrightarrow> \<exists>t. kv_data s key = Some (SvSafetyData d, t)"
proof -
  assume "get_safety_data s key = Ok d"
  then obtain v where "kv_get s key = Ok v" "v = SvSafetyData d"
    unfolding get_safety_data_def bind_res_Ok_iff by (elim exE conjE) (rename_tac v, case_tac v; simp)
  then show ?thesis by (simp add: kv_get_Ok_iff)
qed

lemma get_safety_data_result_Ok:
  "get_safety_data_result s key = Ok r \<Longrightarrow> \<exists>t. kv_data s key = Some (SvSafetyDataResult r, t)"
proof -
  assume "get_safety_data_result s key = Ok r"
  then obtain v where "kv_get s key = Ok v" "v = SvSafetyDataResult r"
    unfolding get_safety_data_result_def bind_res_Ok_iff by (elim exE conjE) (rename_tac v, case_tac v; simp)
  then show ?thesis by (simp add: kv_get_Ok_iff)
qed

lemma pss_safety_data_cases:
  obtains (cached) d where "pss_cached_safety_data st = Some d" "pss_enable_cached_safety_data st"
      "pss_safety_data st = (Ok d, st)"
  | (loaded) d where "pss_cached_safety_data st = None" "pss_enable_cached_safety_data st"
      "get_safety_data (pss_internal_store st) SAFETY_DATA = Ok d"
      "pss_safety_data st = (Ok d, st\<lparr>pss_cached_safety_data := Some d\<rparr>)"
  | (uncached) r where "get_safety_data_result (pss_internal_store st) SAFETY_DATA = Ok r"
      "pss_safety_data st = (r, st)"
  | (failed) r where "\<And>d. r \<noteq> Ok d" "pss_safety_data st = (r, st)"
proof (cases "pss_enable_cached_safety_data st")
  case True
  then show ?thesis
    using that by (cases "pss_cached_safety_data st";
        cases "storage_try (get_safety_data (pss_internal_store st) SAFETY_DATA)")
      (auto simp: pss_safety_data_def)
next
  case False
  then show ?thesis
    using that by (cases "storage_try (get_safety_data_result (pss_internal_store st) SAFETY_DATA)")
      (auto simp: pss_safety_data_def)
qed

lemma pss_safety_data_keeps:
  assumes "pss_inv st"
  shows "pss_inv (snd (pss_safety_data st))"
    "stored_safety_data (snd (pss_safety_data st)) = stored_safety_data st"
    "pss_internal_store (snd (pss_safety_data st)) = pss_internal_store st"
  using assms get_safety_data_Ok
  by (cases st rule: pss_safety_data_cases; force simp: pss_inv_def stored_safety_data_def)+

lemma pss_safety_data_Ok:
  assumes "pss_inv st" "pss_safety_data st = (Ok d, st')"
  shows "stored_safety_data st = Some d" "stored_safety_data st' = Some d" "pss_inv st'"
    "pss_internal_store st' = pss_internal_store st"
proof -
  show 1: "stored_safety_data st = Some d"
  proof (cases st rule: pss_safety_data_cases)
    case (cached d)
    then show ?thesis using assms by (simp add: pss_inv_def)
  next
    case (loaded d)
    then show ?thesis using assms(2) get_safety_data_Ok [OF loaded(3)] by (auto simp: stored_safety_data_def)
  next
    case (uncached r)
    then show ?thesis using assms(1) get_safety_data_result_Ok [OF uncached(1)] by (auto simp: pss_inv_def)
  next
    case (failed r)
    then show ?thesis using assms(2) failed(1) [of d] by simp
  qed
  show "stored_safety_data st' = Some d" "pss_inv st'" "pss_internal_store st' = pss_internal_store st"
    using pss_safety_data_keeps [OF assms(1)] assms(2) 1 by simp_all
qed

lemma pss_set_safety_data_Ok:
  assumes "pss_inv st" "pss_set_safety_data d st = (Ok (), st')"
  shows "stored_safety_data st' = Some d" "pss_inv st'"
  using assms
  by (auto simp: pss_set_safety_data_def kv_set_def stored_safety_data_def pss_inv_def split: option.splits)

lemma pss_set_safety_data_Err:
  assumes "pss_inv st" "pss_set_safety_data d st = (r, st')" "r \<noteq> Ok ()"
  shows "stored_safety_data st' = stored_safety_data st" "pss_inv st'"
  using assms
  by (auto simp: pss_set_safety_data_def kv_set_def stored_safety_data_def pss_inv_def split: option.splits)

lemma pss_set_waypoint_keeps:
  assumes "pss_inv st" "pss_set_waypoint w st = (r, st')"
  shows "stored_safety_data st' = stored_safety_data st" "pss_inv st'"
    "pss_cached_safety_data st' = pss_cached_safety_data st"
  using assms
  by (auto simp: pss_set_waypoint_def kv_set_def stored_safety_data_def pss_inv_def split: option.splits)

section \<open>Properties\<close>

text \<open>C27: Safety data is durable. With the cache enabled, once \<open>set_safety_data\<close> has succeeded both
  the running process (through its cache) and a process restarted on the same storage (with an
  empty cache) read the data that was set.\<close>

theorem safety_data_durable:
  assumes "pss_enable_cached_safety_data st" "pss_set_safety_data d st = (Ok (), st')"
  shows "fst (pss_safety_data st') = Ok d \<and>
    fst (pss_safety_data (pss_new (pss_internal_store st') True)) = Ok d"
  using assms
  by (auto simp: pss_set_safety_data_def kv_set_def pss_safety_data_def pss_new_def get_safety_data_def kv_get_def
      storage_try_def split: option.splits)

definition empty_safety_data :: "u64 \<Rightarrow> safety_data" where
  "empty_safety_data e =
     \<lparr>sd_epoch = e, sd_last_voted_round = 0, sd_preferred_round = 0, sd_one_chain_round = 0, sd_last_vote = None\<rparr>"

lemma pss_set_fresh:
  "pss_set_safety_data d (pss_new (in_memory_new 0) b) =
     (Ok (), \<lparr>pss_enable_cached_safety_data = b, pss_cached_safety_data = Some d,
       pss_internal_store = \<lparr>kv_data = [SAFETY_DATA \<mapsto> (SvSafetyData d, 0)], kv_now = 0, kv_fault = Map.empty\<rparr>\<rparr>)"
  by (simp add: pss_set_safety_data_def pss_new_def in_memory_new_def kv_set_def)

theorem safety_data_durable_witness:
  "fst (pss_safety_data (pss_new \<lparr>kv_data = [SAFETY_DATA \<mapsto> (SvSafetyData (empty_safety_data 3), 0)], kv_now = 0,
     kv_fault = Map.empty\<rparr> True)) = Ok (empty_safety_data 3)"
  using safety_data_durable [OF _ pss_set_fresh [of "empty_safety_data 3" True]] by (simp add: pss_new_def)

text \<open>C28: Rotating a key keeps both versions usable: afterwards the storage signs with the new key
  for the new public key and with the old key for the old public key.\<close>

theorem rotate_key_versions:
  assumes "get_private_key s name = Ok old"
    and "rotate_key pub fresh name s = (Ok v, s')" and "pub old \<noteq> pub fresh"
  shows "v = pub fresh \<and>
    sign_using_version pub sign_fn s' name (pub fresh) m = Ok (sign_fn fresh m) \<and>
    sign_using_version pub sign_fn s' name (pub old) m = Ok (sign_fn old m)"
proof -
  have ne: "name @ ''_previous'' \<noteq> name" by simp
  from assms(2) obtain s1 where v: "v = pub fresh"
    and s1: "kv_set (name @ ''_previous'') (SvPrivateKey old) s = (Ok (), s1)"
    and s': "kv_set name (SvPrivateKey fresh) s1 = (Ok (), s')"
    using assms(1) by (auto simp: rotate_key_def bindS_Ok_iff get_previous_version_name_def)
  have "kv_get s' name = Ok (SvPrivateKey fresh)"
    by (rule kvs.get_set_same [OF s'])
  moreover have "kv_get s' (name @ ''_previous'') = Ok (SvPrivateKey old)"
    using kvs.get_set_other [OF s' ne] kvs.get_set_same [OF s1] by simp
  ultimately show ?thesis
    using v assms(3)
    by (simp add: sign_using_version_def export_private_key_for_version_def get_private_key_def
        get_previous_version_name_def)
qed

theorem rotate_key_versions_witness:
  "sign_using_version (\<lambda>k. k + 1) (\<lambda>k m. ucast k + m)
     (snd (rotate_key (\<lambda>k. k + 1) 9 ''consensus''
        \<lparr>kv_data = [''consensus'' \<mapsto> (SvPrivateKey 4, 0)], kv_now = 0, kv_fault = Map.empty\<rparr>))
     ''consensus'' 5 (100 :: signature) = Ok 104"
proof -
  let ?s = "\<lparr>kv_data = [''consensus'' \<mapsto> (SvPrivateKey 4, 0)], kv_now = 0, kv_fault = Map.empty\<rparr>"
  let ?pub = "\<lambda>k :: private_key. k + 1 :: public_key"
  have get: "get_private_key ?s ''consensus'' = Ok 4"
    by (simp add: get_private_key_def kv_get_def)
  let ?s' = "\<lparr>kv_data = [''consensus'' \<mapsto> (SvPrivateKey 9, 0), ''consensus_previous'' \<mapsto> (SvPrivateKey 4, 0)],
     kv_now = 0, kv_fault = Map.empty\<rparr>"
  have rot: "rotate_key ?pub 9 ''consensus'' ?s = (Ok 10, ?s')"
    unfolding rotate_key_def bindS_def get_state_def lift_res_def get result.case prod.case kv_set_def
      get_previous_version_name_def ret_def
    by (simp add: fun_eq_iff)
  show ?thesis
    using rotate_key_versions [OF get rot, of "\<lambda>k m. ucast k + m" "100 :: signature"]
    unfolding rot by simp
qed

text \<open>C36: With the cache disabled the safety data cannot be read back: \<open>safety_data\<close> asks the storage
  for a \<open>Result<SafetyData, Error>\<close> (the type that \<open>return ...map(|v| v.value)?\<close> demands), which is
  never what \<open>set_safety_data\<close> stored, and fails with a serialisation error.\<close>

theorem safety_data_uncached_fails:
  assumes "\<not> pss_enable_cached_safety_data st" "pss_set_safety_data d st = (Ok (), st')"
  shows "fst (pss_safety_data st') = Err (SecureStorageUnexpectedError StorageSerializationError)"
  using assms
  by (auto simp: pss_set_safety_data_def kv_set_def pss_safety_data_def get_safety_data_result_def kv_get_def
      storage_try_def from_storage_error_def split: option.splits)

theorem safety_data_uncached_fails_witness:
  "fst (pss_safety_data \<lparr>pss_enable_cached_safety_data = False, pss_cached_safety_data = Some (empty_safety_data 3),
     pss_internal_store = \<lparr>kv_data = [SAFETY_DATA \<mapsto> (SvSafetyData (empty_safety_data 3), 0)], kv_now = 0,
       kv_fault = Map.empty\<rparr>\<rparr>) = Err (SecureStorageUnexpectedError StorageSerializationError)"
  by (rule safety_data_uncached_fails [OF _ pss_set_fresh]) (simp add: pss_new_def)

end
