(* ===== verification/Safety_Rules.thy ===== *)
theory Safety_Rules
  imports Safety_Storage Epoch_Change
begin

text \<open>
  The safety rules of a validator: \<^verbatim>\<open>consensus/safety-rules/src/safety_rules.rs\<close>, the 2-chain
  rules of \<^verbatim>\<open>safety_rules_2chain.rs\<close>, the signer of \<^verbatim>\<open>configurable_validator_signer.rs\<close>
  and the dispatch of \<^verbatim>\<open>serializer.rs\<close>. Every handler acts on the record
  \<open>safety_rules\<close>; what it leaves behind on an error is the state at the early return. The clock
  that \<open>verify_well_formed\<close> reads is an argument of the handlers that check a proposal, and
  Ed25519 signing is the parameter \<open>sr_env\<close>. Where the source keeps the text of an error inside
  another error, the model keeps the error itself.
\<close>

section \<open>Signing\<close>

record sr_env =
  env_crypto :: consensus_crypto
  env_public_key :: "private_key \<Rightarrow> public_key"
  env_sign_li :: "private_key \<Rightarrow> ledger_info \<Rightarrow> signature"
  env_sign_block :: "private_key \<Rightarrow> block_data \<Rightarrow> signature"
  env_sign_timeout :: "private_key \<Rightarrow> timeout \<Rightarrow> signature"
  env_sign_timeout2 :: "private_key \<Rightarrow> timeout_signing_repr \<Rightarrow> signature"

datatype configurable_validator_signer =
    Signer author_t private_key
  | Handle author_t public_key

fun cvs_author :: "configurable_validator_signer \<Rightarrow> author_t" where
  "cvs_author (Signer author _) = author"
| "cvs_author (Handle author _) = author"

fun cvs_public_key :: "sr_env \<Rightarrow> configurable_validator_signer \<Rightarrow> public_key" where
  "cvs_public_key env (Signer _ key) = env_public_key env key"
| "cvs_public_key env (Handle _ key_version) = key_version"

fun cvs_sign ::
    "sr_env \<Rightarrow> (private_key \<Rightarrow> 'm \<Rightarrow> signature) \<Rightarrow> configurable_validator_signer \<Rightarrow> 'm
      \<Rightarrow> persistent_safety_storage \<Rightarrow> (sr_error, signature) result" where
  "cvs_sign env sign_fn (Signer _ key) message storage = Ok (sign_fn key message)"
| "cvs_sign env sign_fn (Handle _ key_version) message storage =
     pss_sign (env_public_key env) sign_fn storage CONSENSUS_KEY key_version message"

section \<open>State\<close>

record safety_rules =
  sr_persistent_storage :: persistent_safety_storage
  sr_execution_public_key :: "public_key option"
  sr_export_consensus_key :: bool
  sr_validator_signer :: "configurable_validator_signer option"
  sr_epoch_state :: "epoch_state option"

type_synonym 'a sr_action = "(safety_rules, sr_error, 'a) action"

record consensus_state =
  cs_safety_data :: safety_data
  cs_waypoint :: waypoint
  cs_in_validator_set :: bool

definition on_storage :: "(persistent_safety_storage, sr_error, 'a) action \<Rightarrow> 'a sr_action" where
  "on_storage m s = (case m (sr_persistent_storage s) of (r, st) \<Rightarrow> (r, s\<lparr>sr_persistent_storage := st\<rparr>))"

definition reads :: "(safety_rules \<Rightarrow> (sr_error, 'a) result) \<Rightarrow> 'a sr_action" where
  "reads f s = (f s, s)"

definition set_signer :: "configurable_validator_signer option \<Rightarrow> unit sr_action" where
  "set_signer sg s = (Ok (), s\<lparr>sr_validator_signer := sg\<rparr>)"

definition set_epoch_state :: "epoch_state \<Rightarrow> unit sr_action" where
  "set_epoch_state es s = (Ok (), s\<lparr>sr_epoch_state := Some es\<rparr>)"

definition safety_rules_new ::
    "sr_env \<Rightarrow> persistent_safety_storage \<Rightarrow> bool \<Rightarrow> bool \<Rightarrow> (sr_error, safety_rules) result" where
  "safety_rules_new env persistent_storage verify_vote_proposal_signature export_consensus_key =
     bind_res (if verify_vote_proposal_signature then
         (case pss_execution_public_key (env_public_key env) persistent_storage of
            Ok k \<Rightarrow> Ok (Some k) | _ \<Rightarrow> Panic)
       else Ok None) (\<lambda>execution_public_key.
     Ok \<lparr>sr_persistent_storage = persistent_storage, sr_execution_public_key = execution_public_key,
         sr_export_consensus_key = export_consensus_key, sr_validator_signer = None, sr_epoch_state = None\<rparr>)"

section \<open>Checks shared by the handlers\<close>

definition next_round :: "round_t \<Rightarrow> (sr_error, round_t) result" where
  "next_round r = ok_or (checked_add r 1) (IncorrectRound r)"

definition signer :: "safety_rules \<Rightarrow> (sr_error, configurable_validator_signer) result" where
  "signer s = ok_or (sr_validator_signer s) (NotInitialized ''validator_signer'')"

definition current_epoch_state :: "safety_rules \<Rightarrow> (sr_error, epoch_state) result" where
  "current_epoch_state s = ok_or (sr_epoch_state s) (NotInitialized ''epoch_state'')"

definition sr_sign ::
    "sr_env \<Rightarrow> (private_key \<Rightarrow> 'm \<Rightarrow> signature) \<Rightarrow> 'm \<Rightarrow> safety_rules \<Rightarrow> (sr_error, signature) result" where
  "sr_sign env sign_fn message s =
     bind_res (signer s) (\<lambda>sg. cvs_sign env sign_fn sg message (sr_persistent_storage s))"

definition verify_epoch :: "u64 \<Rightarrow> safety_data \<Rightarrow> (sr_error, unit) result" where
  "verify_epoch epoch sd = ensure (epoch = sd_epoch sd) (IncorrectEpoch epoch (sd_epoch sd))"

definition verify_qc :: "sr_env \<Rightarrow> quorum_cert \<Rightarrow> safety_rules \<Rightarrow> (sr_error, unit) result" where
  "verify_qc env qc s =
     bind_res (current_epoch_state s) (\<lambda>es.
     map_err InvalidQuorumCertificate (qc_verify (env_crypto env) qc (es_verifier es)))"

definition verify_execution_signature ::
    "sr_env \<Rightarrow> maybe_signed_vote_proposal \<Rightarrow> safety_rules \<Rightarrow> (sr_error, unit) result" where
  "verify_execution_signature env mvp s =
     when_some (sr_execution_public_key s) (\<lambda>public_key.
       bind_res (ok_or (mvp_signature mvp) VoteProposalSignatureNotFound) (\<lambda>sg.
       ensure (sig_verify (cc_vote_proposal_sigs (env_crypto env)) public_key (mvp_vote_proposal mvp) sg)
         (InternalError (FromVerifyError InvalidSignature))))"

definition verify_proposal :: "sr_env \<Rightarrow> u64 \<Rightarrow> maybe_signed_vote_proposal \<Rightarrow> vote_data sr_action" where
  "verify_proposal env now mvp =
     (let vp = mvp_vote_proposal mvp; proposed_block = vp_block vp; cc = env_crypto env in
      bindS (reads (verify_execution_signature env mvp)) (\<lambda>_.
      bindS (on_storage pss_safety_data) (\<lambda>sd.
      bindS (lift_res (verify_epoch (blk_epoch proposed_block) sd)) (\<lambda>_.
      bindS (reads (verify_qc env (blk_quorum_cert proposed_block))) (\<lambda>_.
      bindS (reads current_epoch_state) (\<lambda>es.
      bindS (lift_res (map_err InvalidProposal (validate_signature cc proposed_block (es_verifier es)))) (\<lambda>_.
      bindS (lift_res (map_err InvalidProposal (verify_well_formed now proposed_block))) (\<lambda>_.
      lift_res (map_err InvalidAccumulatorExtension (gen_vote_data cc vp))))))))))"

definition observe_qc :: "quorum_cert \<Rightarrow> safety_data \<Rightarrow> bool \<times> safety_data" where
  "observe_qc qc sd =
     (let one_chain = bi_round (qc_certified_block qc); two_chain = bi_round (qc_parent_block qc);
          (u1, sd1) = (if one_chain > sd_one_chain_round sd then (True, sd\<lparr>sd_one_chain_round := one_chain\<rparr>)
                       else (False, sd));
          (u2, sd2) = (if two_chain > sd_preferred_round sd1 then (True, sd1\<lparr>sd_preferred_round := two_chain\<rparr>)
                       else (u1, sd1))
      in (u2, sd2))"

definition construct_ledger_info :: "block \<Rightarrow> hash_value \<Rightarrow> (sr_error, ledger_info) result" where
  "construct_ledger_info proposed_block consensus_data_hash =
     (let block2 = blk_round proposed_block;
          block1 = bi_round (qc_certified_block (blk_quorum_cert proposed_block));
          block0 = bi_round (qc_parent_block (blk_quorum_cert proposed_block)) in
      bind_res (next_round block0) (\<lambda>next0.
      bind_res (if next0 = block1 then bind_res (next_round block1) (\<lambda>next1. Ok (next1 = block2)) else Ok False)
        (\<lambda>commit.
      Ok \<lparr>li_commit_info = (if commit then qc_parent_block (blk_quorum_cert proposed_block) else block_info_empty),
          li_consensus_data_hash = consensus_data_hash\<rparr>)))"

definition verify_and_update_preferred_round ::
    "quorum_cert \<Rightarrow> safety_data \<Rightarrow> (sr_error, bool \<times> safety_data) result" where
  "verify_and_update_preferred_round qc sd =
     (let one_chain_round = bi_round (qc_certified_block qc) in
      if one_chain_round < sd_preferred_round sd then
        Err (IncorrectPreferredRound one_chain_round (sd_preferred_round sd))
      else Ok (observe_qc qc sd))"

definition verify_author :: "author_t option \<Rightarrow> safety_rules \<Rightarrow> (sr_error, unit) result" where
  "verify_author author s =
     bind_res (signer s) (\<lambda>sg.
     bind_res (ok_or author (InvalidProposal (Msg ''No author found in the proposal''))) (\<lambda>a.
     ensure (cvs_author sg = a) (InvalidProposal (Msg ''Proposal author is not validator signer!''))))"

definition verify_and_update_last_vote_round :: "round_t \<Rightarrow> safety_data \<Rightarrow> (sr_error, safety_data) result" where
  "verify_and_update_last_vote_round r sd =
     (if r \<le> sd_last_voted_round sd then Err (IncorrectLastVotedRound r (sd_last_voted_round sd))
      else Ok (sd\<lparr>sd_last_voted_round := r\<rparr>))"

section \<open>Handlers\<close>

definition guarded_consensus_state :: "consensus_state sr_action" where
  "guarded_consensus_state =
     bindS (reads (\<lambda>s. pss_waypoint (sr_persistent_storage s))) (\<lambda>_.
     bindS (on_storage pss_safety_data) (\<lambda>_.
     bindS (reads (\<lambda>s. pss_author (sr_persistent_storage s))) (\<lambda>_.
     bindS (on_storage pss_safety_data) (\<lambda>sd.
     bindS (reads (\<lambda>s. pss_waypoint (sr_persistent_storage s))) (\<lambda>w.
     bindS get_state (\<lambda>s.
     ret \<lparr>cs_safety_data = sd, cs_waypoint = w, cs_in_validator_set = is_ok (signer s)\<rparr>))))))"

text \<open>The reconciliation of the consensus key that ends \<open>initialize\<close>.\<close>

definition reconcile_key :: "sr_env \<Rightarrow> epoch_state \<Rightarrow> author_t \<Rightarrow> unit sr_action" where
  "reconcile_key env es author s =
     (case get_public_key (es_verifier es) author of
        None \<Rightarrow> (Err (ValidatorNotInSet author), s)
      | Some expected_key \<Rightarrow>
          if map_option (cvs_public_key env) (sr_validator_signer s) = Some expected_key then (Ok (), s)
          else if sr_export_consensus_key s then
            (case pss_consensus_key_for_version (env_public_key env) (sr_persistent_storage s) expected_key of
               Ok consensus_key \<Rightarrow> set_signer (Some (Signer author consensus_key)) s
             | Err (SecureStorageMissingDataError e) \<Rightarrow> (Err (ValidatorKeyNotFound (SecureStorageMissingDataError e)), s)
             | Err e \<Rightarrow> (Err e, s)
             | Panic \<Rightarrow> (Panic, s))
          else
            bindS (set_signer (Some (Handle author expected_key))) (\<lambda>_.
            bindS (reads (\<lambda>s. map_err ValidatorKeyNotFound
              (sr_sign env (env_sign_timeout env) \<lparr>to_epoch = 0, to_round = 0\<rparr> s))) (\<lambda>_. ret ())) s)"

definition clear_signer_on_error :: "unit sr_action \<Rightarrow> unit sr_action" where
  "clear_signer_on_error m s =
     (case m s of (Err e, s') \<Rightarrow> (Err e, s'\<lparr>sr_validator_signer := None\<rparr>) | out \<Rightarrow> out)"

definition guarded_initialize :: "sr_env \<Rightarrow> epoch_change_proof \<Rightarrow> unit sr_action" where
  "guarded_initialize env proof =
     (let lc = cc_ledger (env_crypto env) in
      bindS (reads (\<lambda>s. pss_waypoint (sr_persistent_storage s))) (\<lambda>w.
      bindS (lift_res (map_err InvalidEpochChangeProof (ecp_verify lc proof (waypoint_verifier lc w)))) (\<lambda>last_li.
      bindS (lift_res (ok_or (li_next_epoch_state (ls_ledger_info last_li)) InvalidLedgerInfo)) (\<lambda>es.
      bindS (lift_res (map_err InternalError (waypoint_new_epoch_boundary lc (ls_ledger_info last_li)))) (\<lambda>new_w.
      bindS (if wp_version new_w > wp_version w then on_storage (pss_set_waypoint new_w) else ret ()) (\<lambda>_.
      bindS (on_storage pss_safety_data) (\<lambda>sd.
      bindS (if sd_epoch sd > es_epoch es then
               lift_res (Err (WaypointOutOfDate (wp_version w) (wp_version new_w) (sd_epoch sd) (es_epoch es)))
             else if sd_epoch sd < es_epoch es then
               on_storage (pss_set_safety_data (empty_safety_data (es_epoch es)))
             else ret ()) (\<lambda>_.
      bindS (set_epoch_state es) (\<lambda>_.
      bindS (reads (\<lambda>s. pss_author (sr_persistent_storage s))) (\<lambda>author.
      clear_signer_on_error (reconcile_key env es author)))))))))))"

definition already_voted :: "safety_data \<Rightarrow> round_t \<Rightarrow> vote option" where
  "already_voted sd r =
     (case sd_last_vote sd of Some v \<Rightarrow> if vote_round v = r then Some v else None | None \<Rightarrow> None)"

text \<open>The signing and persisting of a vote with which both voting handlers end.\<close>

definition sign_and_persist_vote ::
    "sr_env \<Rightarrow> vote_data \<Rightarrow> (sr_error, ledger_info) result \<Rightarrow> safety_data \<Rightarrow> vote sr_action" where
  "sign_and_persist_vote env vd make_li sd =
     bindS (reads signer) (\<lambda>sgn.
     bindS (lift_res make_li) (\<lambda>li.
     bindS (reads (sr_sign env (env_sign_li env) li)) (\<lambda>sg.
     let v = vote_new_with_signature vd (cvs_author sgn) li sg in
     bindS (on_storage (pss_set_safety_data (sd\<lparr>sd_last_vote := Some v\<rparr>))) (\<lambda>_.
     ret v))))"

definition guarded_construct_and_sign_vote ::
    "sr_env \<Rightarrow> u64 \<Rightarrow> maybe_signed_vote_proposal \<Rightarrow> vote sr_action" where
  "guarded_construct_and_sign_vote env now mvp =
     (let proposed_block = vp_block (mvp_vote_proposal mvp) in
      bindS (reads signer) (\<lambda>_.
      bindS (verify_proposal env now mvp) (\<lambda>vd.
      bindS (on_storage pss_safety_data) (\<lambda>sd.
      case already_voted sd (blk_round proposed_block) of
        Some v \<Rightarrow> ret v
      | None \<Rightarrow>
          bindS (lift_res (verify_and_update_preferred_round (blk_quorum_cert proposed_block) sd)) (\<lambda>(_, sd1).
          bindS (lift_res (verify_and_update_last_vote_round (blk_round proposed_block) sd1)) (\<lambda>sd2.
          sign_and_persist_vote env vd
            (construct_ledger_info proposed_block (cc_hash_vote_data (env_crypto env) vd)) sd2))))))"

definition guarded_sign_proposal :: "sr_env \<Rightarrow> block_data \<Rightarrow> signature sr_action" where
  "guarded_sign_proposal env bd =
     bindS (reads signer) (\<lambda>_.
     bindS (reads (verify_author (bd_author bd))) (\<lambda>_.
     bindS (on_storage pss_safety_data) (\<lambda>sd.
     bindS (lift_res (verify_epoch (bd_epoch bd) sd)) (\<lambda>_.
     bindS (lift_res (ensure (\<not> bd_round bd \<le> sd_last_voted_round sd)
       (InvalidProposal (Msg ''Proposed round is not higher than last voted round'')))) (\<lambda>_.
     bindS (reads (verify_qc env (bd_quorum_cert bd))) (\<lambda>_.
     bindS (lift_res (verify_and_update_preferred_round (bd_quorum_cert bd) sd)) (\<lambda>_.
     reads (sr_sign env (env_sign_block env) bd))))))))"

text \<open>The update of the last voted round that both timeout handlers make.\<close>

definition raise_last_voted_round :: "round_t \<Rightarrow> safety_data \<Rightarrow> unit sr_action" where
  "raise_last_voted_round r sd =
     bindS (lift_res (ensure (\<not> r < sd_last_voted_round sd) (IncorrectLastVotedRound r (sd_last_voted_round sd)))) (\<lambda>_.
     if r > sd_last_voted_round sd then
       bindS (lift_res (verify_and_update_last_vote_round r sd)) (\<lambda>sd'. on_storage (pss_set_safety_data sd'))
     else ret ())"

definition guarded_sign_timeout :: "sr_env \<Rightarrow> timeout \<Rightarrow> signature sr_action" where
  "guarded_sign_timeout env t =
     bindS (reads signer) (\<lambda>_.
     bindS (on_storage pss_safety_data) (\<lambda>sd.
     bindS (lift_res (verify_epoch (to_epoch t) sd)) (\<lambda>_.
     bindS (lift_res (ensure (\<not> to_round t \<le> sd_preferred_round sd)
       (IncorrectPreferredRound (to_round t) (sd_preferred_round sd)))) (\<lambda>_.
     bindS (raise_last_voted_round (to_round t) sd) (\<lambda>_.
     reads (sr_sign env (env_sign_timeout env) t))))))"

definition guarded_sign_commit_vote ::
    "sr_env \<Rightarrow> ledger_info_with_signatures \<Rightarrow> ledger_info \<Rightarrow> signature sr_action" where
  "guarded_sign_commit_vote env liws new_li =
     (let old_li = ls_ledger_info liws in
      bindS (reads signer) (\<lambda>_.
      bindS (lift_res (ensure (is_ordered_only (li_commit_info old_li)) (InvalidOrderedLedgerInfo old_li))) (\<lambda>_.
      bindS (lift_res (ensure (match_ordered_only (li_commit_info old_li) (li_commit_info new_li))
        (InconsistentExecutionResult (li_commit_info old_li) (li_commit_info new_li)))) (\<lambda>_.
      bindS (reads current_epoch_state) (\<lambda>es.
      bindS (lift_res (map_err (\<lambda>e. InvalidQuorumCertificate (FromVerifyError e))
        (verify_signatures (cc_ledger (env_crypto env)) liws (es_verifier es)))) (\<lambda>_.
      reads (sr_sign env (env_sign_li env) new_li)))))))"

section \<open>Handlers of the 2-chain protocol\<close>

definition tc_round_or_zero :: "two_chain_timeout_certificate option \<Rightarrow> round_t" where
  "tc_round_or_zero maybe_tc = (case maybe_tc of None \<Rightarrow> 0 | Some tc \<Rightarrow> tc2_round tc)"

definition tc_hqc_round_or_zero :: "two_chain_timeout_certificate option \<Rightarrow> round_t" where
  "tc_hqc_round_or_zero maybe_tc = (case maybe_tc of None \<Rightarrow> 0 | Some tc \<Rightarrow> tc2_highest_hqc_round tc)"

definition safe_to_timeout ::
    "two_chain_timeout \<Rightarrow> two_chain_timeout_certificate option \<Rightarrow> safety_data \<Rightarrow> (sr_error, unit) result" where
  "safe_to_timeout t maybe_tc sd =
     (let r = t2_round t; qc_round = t2_hqc_round t; tc_round = tc_round_or_zero maybe_tc in
      bind_res (next_round qc_round) (\<lambda>n1.
      bind_res (if r = n1 then Ok True else bind_res (next_round tc_round) (\<lambda>n2. Ok (r = n2))) (\<lambda>consecutive.
      ensure (consecutive \<and> qc_round \<ge> sd_one_chain_round sd)
        (NotSafeToTimeout r qc_round tc_round (sd_one_chain_round sd)))))"

definition safe_to_vote :: "block \<Rightarrow> two_chain_timeout_certificate option \<Rightarrow> (sr_error, unit) result" where
  "safe_to_vote b maybe_tc =
     (let r = blk_round b; qc_round = bi_round (qc_certified_block (blk_quorum_cert b));
          tc_round = tc_round_or_zero maybe_tc; hqc_round = tc_hqc_round_or_zero maybe_tc in
      bind_res (next_round qc_round) (\<lambda>n1.
      bind_res (if r = n1 then Ok True
                else bind_res (next_round tc_round) (\<lambda>n2. Ok (r = n2 \<and> qc_round \<ge> hqc_round))) (\<lambda>safe.
      ensure safe (NotSafeToVote r qc_round tc_round hqc_round))))"

definition verify_tc :: "sr_env \<Rightarrow> two_chain_timeout_certificate \<Rightarrow> safety_rules \<Rightarrow> (sr_error, unit) result" where
  "verify_tc env tc s =
     bind_res (current_epoch_state s) (\<lambda>es.
     map_err InvalidTimeoutCertificate (tc2_verify (env_crypto env) tc (es_verifier es)))"

definition construct_ledger_info_2chain :: "block \<Rightarrow> hash_value \<Rightarrow> (sr_error, ledger_info) result" where
  "construct_ledger_info_2chain proposed_block consensus_data_hash =
     (let block1 = blk_round proposed_block;
          block0 = bi_round (qc_certified_block (blk_quorum_cert proposed_block)) in
      bind_res (next_round block0) (\<lambda>next0.
      Ok \<lparr>li_commit_info =
            (if next0 = block1 then qc_certified_block (blk_quorum_cert proposed_block) else block_info_empty),
          li_consensus_data_hash = consensus_data_hash\<rparr>))"

definition guarded_sign_timeout_with_qc ::
    "sr_env \<Rightarrow> two_chain_timeout \<Rightarrow> two_chain_timeout_certificate option \<Rightarrow> signature sr_action" where
  "guarded_sign_timeout_with_qc env t timeout_cert =
     bindS (reads signer) (\<lambda>_.
     bindS (on_storage pss_safety_data) (\<lambda>sd.
     bindS (lift_res (verify_epoch (t2_epoch t) sd)) (\<lambda>_.
     bindS (reads current_epoch_state) (\<lambda>es.
     bindS (lift_res (map_err InvalidTimeout (t2_verify (env_crypto env) t (es_verifier es)))) (\<lambda>_.
     bindS (reads (\<lambda>s. when_some timeout_cert (\<lambda>tc. verify_tc env tc s))) (\<lambda>_.
     bindS (lift_res (safe_to_timeout t timeout_cert sd)) (\<lambda>_.
     bindS (raise_last_voted_round (t2_round t) sd) (\<lambda>_.
     reads (sr_sign env (env_sign_timeout2 env) (signing_format t))))))))))"

definition guarded_construct_and_sign_vote_two_chain ::
    "sr_env \<Rightarrow> u64 \<Rightarrow> maybe_signed_vote_proposal \<Rightarrow> two_chain_timeout_certificate option \<Rightarrow> vote sr_action" where
  "guarded_construct_and_sign_vote_two_chain env now mvp timeout_cert =
     (let proposed_block = vp_block (mvp_vote_proposal mvp) in
      bindS (reads signer) (\<lambda>_.
      bindS (verify_proposal env now mvp) (\<lambda>vd.
      bindS (reads (\<lambda>s. when_some timeout_cert (\<lambda>tc. verify_tc env tc s))) (\<lambda>_.
      bindS (on_storage pss_safety_data) (\<lambda>sd.
      case already_voted sd (blk_round proposed_block) of
        Some v \<Rightarrow> ret v
      | None \<Rightarrow>
          bindS (lift_res (verify_and_update_last_vote_round (blk_round proposed_block) sd)) (\<lambda>sd1.
          bindS (lift_res (safe_to_vote proposed_block timeout_cert)) (\<lambda>_.
          sign_and_persist_vote env vd
            (construct_ledger_info_2chain proposed_block (cc_hash_vote_data (env_crypto env) vd))
            (snd (observe_qc (blk_quorum_cert proposed_block) sd1)))))))))"

section \<open>Dispatch\<close>

datatype safety_rules_input =
    ConsensusState
  | Initialize epoch_change_proof
  | ConstructAndSignVote maybe_signed_vote_proposal
  | SignProposal block_data
  | SignTimeout timeout
  | SignTimeoutWithQC two_chain_timeout "two_chain_timeout_certificate option"
  | ConstructAndSignVoteTwoChain maybe_signed_vote_proposal "two_chain_timeout_certificate option"
  | SignCommitVote ledger_info_with_signatures ledger_info

datatype safety_rules_output = OutState consensus_state | OutUnit | OutVote vote | OutSignature signature

definition output_as :: "('a \<Rightarrow> safety_rules_output) \<Rightarrow> 'a sr_action \<Rightarrow> safety_rules_output sr_action" where
  "output_as f m = bindS m (\<lambda>a. ret (f a))"

fun handle_message :: "sr_env \<Rightarrow> u64 \<Rightarrow> safety_rules_input \<Rightarrow> safety_rules_output sr_action" where
  "handle_message env now ConsensusState = output_as OutState guarded_consensus_state"
| "handle_message env now (Initialize proof) = output_as (\<lambda>_. OutUnit) (guarded_initialize env proof)"
| "handle_message env now (ConstructAndSignVote mvp) = output_as OutVote (guarded_construct_and_sign_vote env now mvp)"
| "handle_message env now (SignProposal bd) = output_as OutSignature (guarded_sign_proposal env bd)"
| "handle_message env now (SignTimeout t) = output_as OutSignature (guarded_sign_timeout env t)"
| "handle_message env now (SignTimeoutWithQC t tc) = output_as OutSignature (guarded_sign_timeout_with_qc env t tc)"
| "handle_message env now (ConstructAndSignVoteTwoChain mvp tc) =
     output_as OutVote (guarded_construct_and_sign_vote_two_chain env now mvp tc)"
| "handle_message env now (SignCommitVote liws li) = output_as OutSignature (guarded_sign_commit_vote env liws li)"

section \<open>What a handler may change\<close>

abbreviation sr_store :: "safety_rules \<Rightarrow> kv_storage" where
  "sr_store s \<equiv> pss_internal_store (sr_persistent_storage s)"

abbreviation sr_stored :: "safety_rules \<Rightarrow> safety_data option" where
  "sr_stored s \<equiv> stored_safety_data (sr_persistent_storage s)"

abbreviation sr_coherent :: "safety_rules \<Rightarrow> bool" where
  "sr_coherent s \<equiv> pss_inv (sr_persistent_storage s)"

text \<open>\<open>same s s'\<close>: nothing but the cache of the safety data differs.\<close>

definition same :: "safety_rules \<Rightarrow> safety_rules \<Rightarrow> bool" where
  "same s s' \<longleftrightarrow> sr_coherent s' \<and> sr_store s' = sr_store s \<and> sr_epoch_state s' = sr_epoch_state s \<and>
     sr_validator_signer s' = sr_validator_signer s \<and> sr_execution_public_key s' = sr_execution_public_key s \<and>
     sr_export_consensus_key s' = sr_export_consensus_key s"

text \<open>An action is silent when it changes nothing but the cache, and transactional when it changes
  nothing but the cache unless it succeeds.\<close>

definition silent :: "'a sr_action \<Rightarrow> bool" where
  "silent m \<longleftrightarrow> (\<forall>s. sr_coherent s \<longrightarrow> same s (snd (m s)))"

definition transactional :: "'a sr_action \<Rightarrow> bool" where
  "transactional m \<longleftrightarrow> (\<forall>s. sr_coherent s \<longrightarrow> \<not> is_ok (fst (m s)) \<longrightarrow> same s (snd (m s)))"

named_theorems silent_intros \<open>actions that change nothing but the cache\<close>
named_theorems transactional_intros \<open>actions that change nothing but the cache when they fail\<close>

lemma same_refl: "sr_coherent s \<Longrightarrow> same s s"
  by (simp add: same_def)

lemma same_trans: "same s t \<Longrightarrow> same t u \<Longrightarrow> same s u"
  by (simp add: same_def)

lemma same_coherent: "same s s' \<Longrightarrow> sr_coherent s'"
  by (simp add: same_def)

lemma same_stored: "same s s' \<Longrightarrow> sr_stored s' = sr_stored s"
  by (simp add: same_def stored_safety_data_def)

lemma silent_snd: "silent m \<Longrightarrow> sr_coherent s \<Longrightarrow> m s = (r, s') \<Longrightarrow> same s s'"
  by (metis silent_def snd_conv)

lemma transactional_fails:
  "transactional m \<Longrightarrow> sr_coherent s \<Longrightarrow> m s = (r, s') \<Longrightarrow> \<not> is_ok r \<Longrightarrow> same s s'"
  by (metis transactional_def fst_conv snd_conv)

lemma silent_reads [silent_intros]: "silent (reads f)"
  by (simp add: silent_def reads_def same_refl)

lemma silent_lift_res [silent_intros]: "silent (lift_res r)"
  by (simp add: silent_def same_refl)

lemma silent_ret [silent_intros]: "silent (ret a)"
  by (simp add: silent_def same_refl)

lemma silent_get_state [silent_intros]: "silent get_state"
  by (simp add: silent_def same_refl)

lemma silent_safety_data [silent_intros]: "silent (on_storage pss_safety_data)"
  using pss_safety_data_keeps by (auto simp: silent_def on_storage_def same_def split: prod.split) force+

lemma silent_bindS [silent_intros]:
  assumes "silent m" "\<And>a. silent (f a)"
  shows "silent (bindS m f)"
  unfolding silent_def
proof (intro allI impI)
  fix s assume s: "sr_coherent s"
  have st: "same s (snd (m s))"
    using assms(1) s by (simp add: silent_def)
  show "same s (snd (bindS m f s))"
  proof (rule bindS_keeps [where P = "same s" and m = m and s = s and f = f])
    show "same s (snd (m s))" by (rule st)
    show "same s (snd (f a (snd (m s))))" for a
      using assms(2) [of a] same_coherent [OF st] same_trans [OF st] by (simp add: silent_def)
  qed
qed

lemma transactional_silent [transactional_intros]: "silent m \<Longrightarrow> transactional m"
  by (simp add: silent_def transactional_def)

lemma transactional_bindS [transactional_intros]:
  assumes "silent m" "\<And>a. transactional (f a)"
  shows "transactional (bindS m f)"
  unfolding transactional_def
proof (intro allI impI)
  fix s assume s: "sr_coherent s" and fail: "\<not> is_ok (fst (bindS m f s))"
  obtain r t where m: "m s = (r, t)" by fastforce
  have st: "same s t" by (rule silent_snd [OF assms(1) s m])
  show "same s (snd (bindS m f s))"
  proof (cases r)
    case (Ok a)
    then have "same t (snd (f a t))"
      using fail assms(2) [of a] same_coherent [OF st] m by (simp add: transactional_def bindS_def)
    then show ?thesis
      using same_trans [OF st] m Ok by (simp add: bindS_def)
  qed (use m st in \<open>simp_all add: bindS_def\<close>)
qed

lemma transactional_bindS_ret: "transactional m \<Longrightarrow> transactional (bindS m (\<lambda>a. ret (g a)))"
  unfolding transactional_def
  by (auto simp: bindS_def ret_def split: prod.splits result.splits)

lemma transactional_set_safety_data [transactional_intros]: "transactional (on_storage (pss_set_safety_data d))"
  by (auto simp: transactional_def on_storage_def same_def pss_set_safety_data_def kv_set_def pss_inv_def
      stored_safety_data_def split: prod.splits option.splits)

lemma transactional_case_option [transactional_intros]:
  "transactional m \<Longrightarrow> (\<And>v. transactional (f v)) \<Longrightarrow> transactional (case x of None \<Rightarrow> m | Some v \<Rightarrow> f v)"
  by (cases x) auto

lemma transactional_case_prod [transactional_intros]:
  "(\<And>a b. transactional (f a b)) \<Longrightarrow> transactional (case p of (a, b) \<Rightarrow> f a b)"
  by (cases p) auto

section \<open>Successful steps\<close>

lemma reads_Ok_iff [outcome_simps, simp]: "reads f s = (Ok a, t) \<longleftrightarrow> f s = Ok a \<and> t = s"
  by (auto simp: reads_def)

lemma on_storage_safety_data_Ok:
  assumes "sr_coherent s" "on_storage pss_safety_data s = (Ok d, s')"
  shows "sr_stored s = Some d" "same s s'"
proof -
  show "same s s'" by (rule silent_snd [OF silent_safety_data assms])
  show "sr_stored s = Some d"
    using assms pss_safety_data_Ok(1) by (auto simp: on_storage_def split: prod.splits)
qed

lemma on_storage_set_safety_data_Ok:
  assumes "sr_coherent s" "on_storage (pss_set_safety_data d) s = (Ok u, s')"
  shows "sr_stored s' = Some d" "sr_coherent s'" "sr_epoch_state s' = sr_epoch_state s"
    "sr_validator_signer s' = sr_validator_signer s"
  using assms pss_set_safety_data_Ok
  by (auto simp: on_storage_def split: prod.splits)

lemma silent_verify_proposal [silent_intros]: "silent (verify_proposal env now mvp)"
  unfolding verify_proposal_def Let_def by (intro silent_intros)

lemma next_round_Ok_iff [outcome_simps]: "next_round r = Ok n \<longleftrightarrow> unat n = unat r + 1"
  by (simp add: next_round_def checked_add_Some_iff)

end
