(* ===== verification/Safety_Rules_Correct.thy ===== *)
theory Safety_Rules_Correct
  imports Safety_Rules
begin

text \<open>
  Correctness of the safety rules: what a successful call of each handler has checked and stored,
  that a failing call leaves the safety data alone, and the invariant of the state over every
  message. The specification of the two voting rules is stated over the stored safety data, so
  that it does not depend on the cache.
\<close>

section \<open>Proposals\<close>

lemma gen_vote_data_Ok:
  assumes "gen_vote_data cc vp = Ok vd"
  shows "vd_parent vd = qc_certified_block (blk_quorum_cert (vp_block vp))"
    "bi_epoch (vd_proposed vd) = blk_epoch (vp_block vp)" "bi_round (vd_proposed vd) = blk_round (vp_block vp)"
    "bi_id (vd_proposed vd) = blk_id (vp_block vp)"
    "bi_timestamp_usecs (vd_proposed vd) = blk_timestamp_usecs (vp_block vp)"
    "vp_decoupled_execution vp \<Longrightarrow> bi_version (vd_proposed vd) = 0"
  using assms
  by (auto simp: gen_vote_data_def vote_data_ordering_only_def vote_data_with_extension_proof_def gen_block_info_def
      bind_res_Ok_iff split: if_splits)

text \<open>What \<open>verify_proposal\<close> has established when it returns vote data.\<close>

definition checked_proposal ::
    "sr_env \<Rightarrow> u64 \<Rightarrow> maybe_signed_vote_proposal \<Rightarrow> safety_rules \<Rightarrow> safety_data \<Rightarrow> epoch_state \<Rightarrow> vote_data \<Rightarrow> bool" where
  "checked_proposal env now mvp s d es vd \<longleftrightarrow>
     (let b = vp_block (mvp_vote_proposal mvp); cc = env_crypto env in
      verify_execution_signature env mvp s = Ok () \<and> sr_stored s = Some d \<and> sr_epoch_state s = Some es \<and>
      blk_epoch b = sd_epoch d \<and> qc_verify cc (blk_quorum_cert b) (es_verifier es) = Ok () \<and>
      validate_signature cc b (es_verifier es) = Ok () \<and> verify_well_formed now b = Ok () \<and>
      gen_vote_data cc (mvp_vote_proposal mvp) = Ok vd)"

lemma verify_qc_Ok_iff:
  "verify_qc env qc s = Ok () \<longleftrightarrow>
     (\<exists>es. sr_epoch_state s = Some es \<and> qc_verify (env_crypto env) qc (es_verifier es) = Ok ())"
  by (simp add: verify_qc_def current_epoch_state_def bind_res_Ok_iff)

lemma verify_tc_Ok_iff:
  "verify_tc env tc s = Ok () \<longleftrightarrow>
     (\<exists>es. sr_epoch_state s = Some es \<and> tc2_verify (env_crypto env) tc (es_verifier es) = Ok ())"
  by (simp add: verify_tc_def current_epoch_state_def bind_res_Ok_iff)

lemma verify_proposal_Ok:
  assumes s: "sr_coherent s" and ok: "verify_proposal env now mvp s = (Ok vd, s')"
  obtains d es where "checked_proposal env now mvp s d es vd" "same s s'"
proof -
  let ?b = "vp_block (mvp_vote_proposal mvp)" and ?cc = "env_crypto env"
  obtain d es where "verify_execution_signature env mvp s = Ok ()"
    and d: "on_storage pss_safety_data s = (Ok d, s')"
    and "verify_epoch (blk_epoch ?b) d = Ok ()" "verify_qc env (blk_quorum_cert ?b) s' = Ok ()"
    "current_epoch_state s' = Ok es" "validate_signature ?cc ?b (es_verifier es) = Ok ()"
    "verify_well_formed now ?b = Ok ()" "gen_vote_data ?cc (mvp_vote_proposal mvp) = Ok vd"
    using ok by (auto simp: verify_proposal_def Let_def bindS_Ok_iff)
  note r = on_storage_safety_data_Ok [OF s d]
  have "checked_proposal env now mvp s d es vd"
    using \<open>verify_execution_signature env mvp s = Ok ()\<close> \<open>verify_epoch (blk_epoch ?b) d = Ok ()\<close>
      \<open>verify_qc env (blk_quorum_cert ?b) s' = Ok ()\<close> \<open>current_epoch_state s' = Ok es\<close> r
      \<open>validate_signature ?cc ?b (es_verifier es) = Ok ()\<close> \<open>verify_well_formed now ?b = Ok ()\<close>
      \<open>gen_vote_data ?cc (mvp_vote_proposal mvp) = Ok vd\<close>
    by (auto simp: checked_proposal_def Let_def verify_epoch_def verify_qc_Ok_iff current_epoch_state_def same_def)
  then show thesis using that r(2) by blast
qed

section \<open>Voting\<close>

lemma observe_qc_eq:
  "snd (observe_qc qc sd) =
     sd\<lparr>sd_one_chain_round := max (sd_one_chain_round sd) (bi_round (qc_certified_block qc)),
        sd_preferred_round := max (sd_preferred_round sd) (bi_round (qc_parent_block qc))\<rparr>"
  by (auto simp: observe_qc_def Let_def max_def)

lemma observe_qc_Pair:
  assumes "observe_qc qc sd = (u, sd')"
  shows "sd' = sd\<lparr>sd_one_chain_round := max (sd_one_chain_round sd) (bi_round (qc_certified_block qc)),
    sd_preferred_round := max (sd_preferred_round sd) (bi_round (qc_parent_block qc))\<rparr>"
  using observe_qc_eq [of qc sd] assms by simp

lemma already_voted_Some:
  "already_voted d r = Some v \<longleftrightarrow> sd_last_vote d = Some v \<and> vote_round v = r"
  by (auto simp: already_voted_def split: option.splits if_splits)

text \<open>The safety data after voting for a block.\<close>

definition voted_data :: "block \<Rightarrow> vote \<Rightarrow> safety_data \<Rightarrow> safety_data" where
  "voted_data b v d =
     \<lparr>sd_epoch = sd_epoch d, sd_last_voted_round = blk_round b,
      sd_preferred_round = max (sd_preferred_round d) (bi_round (qc_parent_block (blk_quorum_cert b))),
      sd_one_chain_round = max (sd_one_chain_round d) (bi_round (qc_certified_block (blk_quorum_cert b))),
      sd_last_vote = Some v\<rparr>"

lemma sign_and_persist_vote_Ok:
  assumes "sr_coherent s" "sign_and_persist_vote env vd make_li sd s = (Ok v, s')"
  obtains sgn li sg where "sr_validator_signer s = Some sgn" "make_li = Ok li"
    "sr_sign env (env_sign_li env) li s = Ok sg" "v = vote_new_with_signature vd (cvs_author sgn) li sg"
    "sr_stored s' = Some (sd\<lparr>sd_last_vote := Some v\<rparr>)" "sr_coherent s'" "sr_epoch_state s' = sr_epoch_state s"
    "sr_validator_signer s' = sr_validator_signer s"
proof -
  obtain sgn li sg where 1: "sr_validator_signer s = Some sgn" "make_li = Ok li"
    "sr_sign env (env_sign_li env) li s = Ok sg" "v = vote_new_with_signature vd (cvs_author sgn) li sg"
    and p: "on_storage (pss_set_safety_data (sd\<lparr>sd_last_vote := Some v\<rparr>)) s = (Ok (), s')"
    using assms(2) by (auto simp: sign_and_persist_vote_def bindS_Ok_iff signer_def Let_def)
  show thesis
    using that [OF 1] on_storage_set_safety_data_Ok [OF assms(1) p] by simp
qed

text \<open>A fresh vote: the outcome of signing for a checked proposal under a voting rule.\<close>

definition fresh_vote ::
    "sr_env \<Rightarrow> block \<Rightarrow> vote_data \<Rightarrow> (sr_error, ledger_info) result \<Rightarrow> safety_rules \<Rightarrow> safety_data \<Rightarrow> vote
      \<Rightarrow> safety_rules \<Rightarrow> bool" where
  "fresh_vote env b vd make_li s d v s' \<longleftrightarrow>
     already_voted d (blk_round b) = None \<and> sd_last_voted_round d < blk_round b \<and>
     vote_vote_data v = vd \<and> make_li = Ok (vote_ledger_info v) \<and>
     map_option cvs_author (sr_validator_signer s) = Some (vote_author v) \<and>
     sr_sign env (env_sign_li env) (vote_ledger_info v) s = Ok (vote_signature v) \<and>
     vote_timeout_signature v = None \<and> vote_two_chain_timeout v = None \<and>
     sr_stored s' = Some (voted_data b v d) \<and> sr_coherent s' \<and> sr_epoch_state s' = sr_epoch_state s \<and>
     sr_validator_signer s' = sr_validator_signer s"

text \<open>A repeated vote: the stored vote of the round, with nothing signed and nothing stored.\<close>

definition repeated_vote :: "block \<Rightarrow> safety_rules \<Rightarrow> safety_data \<Rightarrow> vote \<Rightarrow> safety_rules \<Rightarrow> bool" where
  "repeated_vote b s d v s' \<longleftrightarrow> sd_last_vote d = Some v \<and> vote_round v = blk_round b \<and> same s s'"

lemma same_sign: "same s s' \<Longrightarrow> sr_sign env f m s' = sr_sign env f m s"
proof -
  assume a: "same s s'"
  have "cvs_sign env f sg m (sr_persistent_storage s') = cvs_sign env f sg m (sr_persistent_storage s)" for sg
    using a by (cases sg) (simp_all add: same_def pss_sign_def)
  then show ?thesis using a by (simp add: sr_sign_def signer_def same_def)
qed

lemma same_checked_proposal:
  "same s s' \<Longrightarrow> checked_proposal env now mvp s' d es vd \<longleftrightarrow> checked_proposal env now mvp s d es vd"
  using same_stored [of s s']
  by (auto simp: checked_proposal_def Let_def verify_execution_signature_def same_def)

lemma persist_fresh_vote:
  assumes "same s t" "sign_and_persist_vote env vd make_li sd t = (Ok v, s')"
    and "already_voted d (blk_round b) = None" "sd_last_voted_round d < blk_round b"
    and "\<And>v. sd\<lparr>sd_last_vote := Some v\<rparr> = voted_data b v d"
  shows "fresh_vote env b vd make_li s d v s'"
  using assms same_sign [OF assms(1), of env "env_sign_li env"]
  by (auto simp: fresh_vote_def vote_new_with_signature_def same_def
      elim!: sign_and_persist_vote_Ok [OF same_coherent [OF assms(1)]])

lemma construct_and_sign_vote_Ok:
  assumes s: "sr_coherent s" and ok: "guarded_construct_and_sign_vote env now mvp s = (Ok v, s')"
  defines "b \<equiv> vp_block (mvp_vote_proposal mvp)"
  obtains d es vd where "checked_proposal env now mvp s d es vd"
    "repeated_vote b s d v s' \<or>
     sd_preferred_round d \<le> bi_round (qc_certified_block (blk_quorum_cert b)) \<and>
     fresh_vote env b vd (construct_ledger_info b (cc_hash_vote_data (env_crypto env) vd)) s d v s'"
proof -
  obtain vd t u sd where t: "verify_proposal env now mvp s = (Ok vd, t)"
    and u: "on_storage pss_safety_data t = (Ok sd, u)"
    and rest: "(case already_voted sd (blk_round b) of Some v \<Rightarrow> ret v
      | None \<Rightarrow> bindS (lift_res (verify_and_update_preferred_round (blk_quorum_cert b) sd)) (\<lambda>(_, sd1).
          bindS (lift_res (verify_and_update_last_vote_round (blk_round b) sd1)) (\<lambda>sd2.
          sign_and_persist_vote env vd
            (construct_ledger_info b (cc_hash_vote_data (env_crypto env) vd)) sd2))) u = (Ok v, s')"
    using ok [unfolded guarded_construct_and_sign_vote_def Let_def, folded b_def] by (auto simp: bindS_Ok_iff)
  obtain d es where chk: "checked_proposal env now mvp s d es vd" and st: "same s t"
    using verify_proposal_Ok [OF s t] .
  have su: "same s u" and sd: "sd = d"
    using on_storage_safety_data_Ok [OF same_coherent [OF st] u] same_trans [OF st] same_stored [OF st] chk
    by (auto simp: checked_proposal_def Let_def)
  show thesis
  proof (cases "already_voted d (blk_round b)")
    case None
    let ?sd1 = "snd (observe_qc (blk_quorum_cert b) d)"
    have rule: "sd_preferred_round d \<le> bi_round (qc_certified_block (blk_quorum_cert b))"
      and lt: "sd_last_voted_round d < blk_round b"
      and p: "sign_and_persist_vote env vd (construct_ledger_info b (cc_hash_vote_data (env_crypto env) vd))
        (?sd1\<lparr>sd_last_voted_round := blk_round b\<rparr>) u = (Ok v, s')"
      using rest None
      by (auto simp: sd bindS_Ok_iff verify_and_update_preferred_round_def verify_and_update_last_vote_round_def
          Let_def observe_qc_eq not_less not_le split: if_splits prod.splits dest!: observe_qc_Pair)
    show thesis
      using that [OF chk] rule persist_fresh_vote [OF su p None lt] by (simp add: observe_qc_eq voted_data_def)
  next
    case (Some w)
    then have "w = v" "s' = u"
      using rest by (simp_all add: sd)
    then show thesis
      using that [OF chk] Some su by (simp add: repeated_vote_def already_voted_Some)
  qed
qed

text \<open>The voting and timeout rules of the 2-chain protocol, on rounds as numbers.\<close>

lemma safe_to_vote_Ok:
  assumes "safe_to_vote b tc = Ok ()"
  shows "unat (blk_round b) = unat (bi_round (qc_certified_block (blk_quorum_cert b))) + 1 \<or>
    unat (blk_round b) = unat (tc_round_or_zero tc) + 1 \<and>
    tc_hqc_round_or_zero tc \<le> bi_round (qc_certified_block (blk_quorum_cert b))"
  using assms by (auto simp: safe_to_vote_def Let_def bind_res_Ok_iff next_round_Ok_iff split: if_splits)

lemma safe_to_timeout_Ok:
  assumes "safe_to_timeout t tc d = Ok ()"
  shows "sd_one_chain_round d \<le> t2_hqc_round t"
    "unat (t2_round t) = unat (t2_hqc_round t) + 1 \<or> unat (t2_round t) = unat (tc_round_or_zero tc) + 1"
  using assms by (auto simp: safe_to_timeout_def Let_def bind_res_Ok_iff next_round_Ok_iff split: if_splits)

lemma construct_and_sign_vote_two_chain_Ok:
  assumes s: "sr_coherent s" and ok: "guarded_construct_and_sign_vote_two_chain env now mvp tc s = (Ok v, s')"
  defines "b \<equiv> vp_block (mvp_vote_proposal mvp)"
  obtains d es vd where "checked_proposal env now mvp s d es vd"
    "when_some tc (\<lambda>c. tc2_verify (env_crypto env) c (es_verifier es)) = Ok ()"
    "repeated_vote b s d v s' \<or>
     safe_to_vote b tc = Ok () \<and>
     fresh_vote env b vd (construct_ledger_info_2chain b (cc_hash_vote_data (env_crypto env) vd)) s d v s'"
proof -
  obtain vd t u sd where t: "verify_proposal env now mvp s = (Ok vd, t)"
    and tc: "when_some tc (\<lambda>tc. verify_tc env tc t) = Ok ()"
    and u: "on_storage pss_safety_data t = (Ok sd, u)"
    and rest: "(case already_voted sd (blk_round b) of Some v \<Rightarrow> ret v
      | None \<Rightarrow> bindS (lift_res (verify_and_update_last_vote_round (blk_round b) sd)) (\<lambda>sd1.
          bindS (lift_res (safe_to_vote b tc)) (\<lambda>_.
          sign_and_persist_vote env vd
            (construct_ledger_info_2chain b (cc_hash_vote_data (env_crypto env) vd))
            (snd (observe_qc (blk_quorum_cert b) sd1))))) u = (Ok v, s')"
    using ok [unfolded guarded_construct_and_sign_vote_two_chain_def Let_def, folded b_def]
    by (auto simp: bindS_Ok_iff)
  obtain d es where chk: "checked_proposal env now mvp s d es vd" and st: "same s t"
    using verify_proposal_Ok [OF s t] .
  have su: "same s u" and sd: "sd = d"
    using on_storage_safety_data_Ok [OF same_coherent [OF st] u] same_trans [OF st] same_stored [OF st] chk
    by (auto simp: checked_proposal_def Let_def)
  have "sr_epoch_state t = Some es"
    using chk st by (simp add: checked_proposal_def Let_def same_def)
  then have tc': "when_some tc (\<lambda>c. tc2_verify (env_crypto env) c (es_verifier es)) = Ok ()"
    using tc by (cases tc) (auto simp: verify_tc_Ok_iff)
  show thesis
  proof (cases "already_voted d (blk_round b)")
    case None
    have rule: "safe_to_vote b tc = Ok ()" and lt: "sd_last_voted_round d < blk_round b"
      and p: "sign_and_persist_vote env vd (construct_ledger_info_2chain b (cc_hash_vote_data (env_crypto env) vd))
        (snd (observe_qc (blk_quorum_cert b) (d\<lparr>sd_last_voted_round := blk_round b\<rparr>))) u = (Ok v, s')"
      using rest None
      by (auto simp: sd bindS_Ok_iff verify_and_update_last_vote_round_def not_le split: if_splits)
    show thesis
      using that [OF chk tc'] rule persist_fresh_vote [OF su p None lt] by (simp add: observe_qc_eq voted_data_def)
  next
    case (Some w)
    then have "w = v" "s' = u"
      using rest by (simp_all add: sd)
    then show thesis
      using that [OF chk tc'] Some su by (simp add: repeated_vote_def already_voted_Some)
  qed
qed

section \<open>Timeouts\<close>

text \<open>Raising the last voted round: the stored data afterwards, whatever the outcome.\<close>

definition raised :: "round_t \<Rightarrow> safety_data \<Rightarrow> safety_data" where
  "raised r d = d\<lparr>sd_last_voted_round := max (sd_last_voted_round d) r\<rparr>"

lemma raise_last_voted_round_stored:
  assumes "sr_coherent s" "sr_stored s = Some d" "raise_last_voted_round r d s = (out, s')"
  shows "sr_coherent s'" "sr_epoch_state s' = sr_epoch_state s" "sr_validator_signer s' = sr_validator_signer s"
    "sr_stored s' = Some d \<or> sr_stored s' = Some (raised r d)"
    "out = Ok () \<Longrightarrow> sr_stored s' = Some (raised r d) \<and> sd_last_voted_round d \<le> r"
proof -
  consider (keep) "same s s'" "out = Ok () \<longrightarrow> r = sd_last_voted_round d"
    | (store) "r > sd_last_voted_round d" "on_storage (pss_set_safety_data (d\<lparr>sd_last_voted_round := r\<rparr>)) s = (out, s')"
    using assms(1,3) same_refl [OF assms(1)]
    by (auto simp: raise_last_voted_round_def bindS_def verify_and_update_last_vote_round_def lift_res_def ret_def
        ensure_def split: if_splits prod.splits result.splits)
  note cases = this
  have "sr_coherent s' \<and> sr_epoch_state s' = sr_epoch_state s \<and> sr_validator_signer s' = sr_validator_signer s \<and>
    (sr_stored s' = Some d \<or> sr_stored s' = Some (raised r d)) \<and>
    (out = Ok () \<longrightarrow> sr_stored s' = Some (raised r d) \<and> sd_last_voted_round d \<le> r)"
  proof (cases rule: cases)
    case keep
    then show ?thesis
      using assms(2) same_stored [of s s'] by (auto simp: same_def raised_def)
  next
    case store
    have eq: "d\<lparr>sd_last_voted_round := r\<rparr> = raised r d"
      using store(1) by (simp add: raised_def max_def)
    show ?thesis
    proof (cases "is_ok out")
      case True
      then show ?thesis
        using on_storage_set_safety_data_Ok [OF assms(1)] store eq by (auto simp: is_ok_iff)
    next
      case False
      then have "same s s'"
        using transactional_fails [OF transactional_set_safety_data assms(1) store(2)] by simp
      then show ?thesis
        using False assms(2) same_stored [of s s'] by (auto simp: same_def)
    qed
  qed
  then show "sr_coherent s'" "sr_epoch_state s' = sr_epoch_state s" "sr_validator_signer s' = sr_validator_signer s"
    "sr_stored s' = Some d \<or> sr_stored s' = Some (raised r d)"
    "out = Ok () \<Longrightarrow> sr_stored s' = Some (raised r d) \<and> sd_last_voted_round d \<le> r"
    by auto
qed

text \<open>
  The effect of an action on the stored data, whatever its outcome. A silent prefix is skipped
  with what it has read.
\<close>

definition raises :: "u64 \<Rightarrow> round_t \<Rightarrow> safety_rules \<Rightarrow> safety_rules \<Rightarrow> bool" where
  "raises e r s s' \<longleftrightarrow> sr_coherent s' \<and> sr_epoch_state s' = sr_epoch_state s \<and>
     sr_validator_signer s' = sr_validator_signer s \<and>
     (sr_stored s' = sr_stored s \<or>
      (\<exists>d. sr_stored s = Some d \<and> sd_epoch d = e \<and> sr_stored s' = Some (raised r d)))"

lemma raises_same: "same s s' \<Longrightarrow> raises e r s s'"
  using same_stored [of s s'] by (simp add: raises_def same_def)

lemma raises_after_same: "same s t \<Longrightarrow> raises e r t u \<Longrightarrow> raises e r s u"
  using same_stored [of s t] by (auto simp: raises_def same_def)

lemma raises_before_same: "raises e r s t \<Longrightarrow> same t u \<Longrightarrow> raises e r s u"
  using same_stored [of t u] by (auto simp: raises_def same_def)

lemma raises_prefix:
  assumes s: "sr_coherent s" and m: "silent m"
    and f: "\<And>a t. m s = (Ok a, t) \<Longrightarrow> same s t \<Longrightarrow> raises e r t (snd (f a t))"
  shows "raises e r s (snd (bindS m f s))"
proof -
  obtain x t where x: "m s = (x, t)" by fastforce
  have st: "same s t" by (rule silent_snd [OF m s x])
  show ?thesis
    using x st raises_same [OF st] raises_after_same [OF st] f [OF _ st] by (cases x) (auto simp: bindS_def)
qed

lemma raises_raise:
  assumes s: "sr_coherent s" "sr_stored s = Some d" "sd_epoch d = e" and f: "\<And>a. silent (f a)"
  shows "raises e r s (snd (bindS (raise_last_voted_round r d) f s))"
proof -
  obtain x t where x: "raise_last_voted_round r d s = (x, t)" by fastforce
  note w = raise_last_voted_round_stored [OF s(1,2) x]
  have t: "raises e r s t" using w(1-4) s(2,3) by (auto simp: raises_def)
  show ?thesis
    using x t raises_before_same [OF t] w(1) f by (cases x) (auto simp: bindS_def silent_def)
qed

lemma raises_reads:
  "sr_coherent s \<Longrightarrow> (\<And>a. g s = Ok a \<Longrightarrow> raises e r s (snd (f a s))) \<Longrightarrow> raises e r s (snd (bindS (reads g) f s))"
  by (rule raises_prefix) (auto intro: silent_intros)

lemma raises_lift_res:
  "sr_coherent s \<Longrightarrow> (\<And>a. (x :: (sr_error, _) result) = Ok a \<Longrightarrow> raises e r s (snd (f a s))) \<Longrightarrow> raises e r s (snd (bindS (lift_res x) f s))"
  by (rule raises_prefix) (auto intro: silent_intros)

lemma raises_safety_data:
  assumes "sr_coherent s"
    and "\<And>d t. sr_stored t = Some d \<Longrightarrow> sr_coherent t \<Longrightarrow> raises e r t (snd (f d t))"
  shows "raises e r s (snd (bindS (on_storage pss_safety_data) f s))"
  using assms(1) silent_safety_data
proof (rule raises_prefix)
  fix d t assume d: "on_storage pss_safety_data s = (Ok d, t)" and st: "same s t"
  show "raises e r t (snd (f d t))"
    using assms(2) on_storage_safety_data_Ok(1) [OF assms(1) d] same_stored [OF st] same_coherent [OF st] by simp
qed

lemmas raises_intros = raises_reads raises_lift_res raises_safety_data raises_raise

lemma sign_timeout_raises:
  "sr_coherent s \<Longrightarrow> raises (to_epoch t) (to_round t) s (snd (guarded_sign_timeout env t s))"
  unfolding guarded_sign_timeout_def
  by (intro raises_intros silent_intros) (simp_all add: verify_epoch_def)

lemma sign_timeout_with_qc_raises:
  "sr_coherent s \<Longrightarrow> raises (t2_epoch t) (t2_round t) s (snd (guarded_sign_timeout_with_qc env t tc s))"
  unfolding guarded_sign_timeout_with_qc_def
  by (intro raises_intros silent_intros) (simp_all add: verify_epoch_def)

lemma sign_timeout_Ok:
  assumes s: "sr_coherent s" and ok: "guarded_sign_timeout env t s = (Ok sg, s')"
  obtains d where "sr_stored s = Some d" "to_epoch t = sd_epoch d" "sd_preferred_round d < to_round t"
    "sd_last_voted_round d \<le> to_round t" "sr_stored s' = Some (raised (to_round t) d)"
proof -
  obtain d u where d: "on_storage pss_safety_data s = (Ok d, u)" and "to_epoch t = sd_epoch d"
    "sd_preferred_round d < to_round t" and r: "raise_last_voted_round (to_round t) d u = (Ok (), s')"
    using ok by (auto simp: guarded_sign_timeout_def bindS_Ok_iff verify_epoch_def not_le)
  note rd = on_storage_safety_data_Ok [OF s d]
  note w = raise_last_voted_round_stored [OF same_coherent [OF rd(2)] _ r]
  show thesis
    using that [OF rd(1) \<open>to_epoch t = sd_epoch d\<close> \<open>sd_preferred_round d < to_round t\<close>] w(5) rd same_stored [OF rd(2)]
    by simp
qed

lemma sign_timeout_with_qc_Ok:
  assumes s: "sr_coherent s" and ok: "guarded_sign_timeout_with_qc env t tc s = (Ok sg, s')"
  obtains d es where "sr_stored s = Some d" "sr_epoch_state s = Some es" "t2_epoch t = sd_epoch d"
    "t2_verify (env_crypto env) t (es_verifier es) = Ok ()"
    "when_some tc (\<lambda>c. tc2_verify (env_crypto env) c (es_verifier es)) = Ok ()" "safe_to_timeout t tc d = Ok ()"
    "sd_last_voted_round d \<le> t2_round t" "sr_stored s' = Some (raised (t2_round t) d)"
    "sr_epoch_state s' = sr_epoch_state s"
proof -
  obtain d u es where d: "on_storage pss_safety_data s = (Ok d, u)" and e: "t2_epoch t = sd_epoch d"
    and es: "current_epoch_state u = Ok es" and t: "t2_verify (env_crypto env) t (es_verifier es) = Ok ()"
    and tc: "when_some tc (\<lambda>c. verify_tc env c u) = Ok ()" and safe: "safe_to_timeout t tc d = Ok ()"
    and r: "raise_last_voted_round (t2_round t) d u = (Ok (), s')"
    using ok by (auto simp: guarded_sign_timeout_with_qc_def bindS_Ok_iff verify_epoch_def)
  note rd = on_storage_safety_data_Ok [OF s d]
  have es': "sr_epoch_state s = Some es" "sr_epoch_state u = Some es"
    using es rd(2) by (simp_all add: current_epoch_state_def same_def)
  have tc': "when_some tc (\<lambda>c. tc2_verify (env_crypto env) c (es_verifier es)) = Ok ()"
    using tc es'(2) by (cases tc) (auto simp: verify_tc_Ok_iff)
  have u: "sr_stored u = Some d" using rd same_stored by simp
  note w = raise_last_voted_round_stored [OF same_coherent [OF rd(2)] u r]
  show thesis
    using that [OF rd(1) es'(1) e t tc' safe] w(2,5) es' by simp
qed

section \<open>Initialisation\<close>

text \<open>\<open>quiet s s'\<close>: neither the stored safety data nor the epoch state changed.\<close>

definition quiet :: "safety_rules \<Rightarrow> safety_rules \<Rightarrow> bool" where
  "quiet s s' \<longleftrightarrow> sr_coherent s' \<and> sr_stored s' = sr_stored s \<and> sr_epoch_state s' = sr_epoch_state s"

definition quietly :: "'a sr_action \<Rightarrow> bool" where
  "quietly m \<longleftrightarrow> (\<forall>s. sr_coherent s \<longrightarrow> quiet s (snd (m s)))"

named_theorems quietly_intros \<open>actions that change neither safety data nor epoch state\<close>

lemma quiet_trans: "quiet s t \<Longrightarrow> quiet t u \<Longrightarrow> quiet s u"
  by (simp add: quiet_def)

lemma quiet_refl: "sr_coherent s \<Longrightarrow> quiet s s"
  by (simp add: quiet_def)

lemma quietly_snd: "quietly m \<Longrightarrow> sr_coherent s \<Longrightarrow> m s = (r, s') \<Longrightarrow> quiet s s'"
  by (metis quietly_def snd_conv)

lemma same_quiet: "same s s' \<Longrightarrow> quiet s s'"
  using same_stored [of s s'] by (simp add: same_def quiet_def)

lemma quietly_silent [quietly_intros]: "silent m \<Longrightarrow> quietly m"
  unfolding silent_def quietly_def using same_quiet by blast

lemma quietly_bindS [quietly_intros]:
  assumes "quietly m" "\<And>a. quietly (f a)"
  shows "quietly (bindS m f)"
  unfolding quietly_def
proof (intro allI impI)
  fix s assume s: "sr_coherent s"
  have st: "quiet s (snd (m s))" using assms(1) s by (simp add: quietly_def)
  show "quiet s (snd (bindS m f s))"
  proof (rule bindS_keeps [where P = "quiet s" and m = m and s = s and f = f])
    show "quiet s (snd (m s))" by (rule st)
    show "quiet s (snd (f a (snd (m s))))" for a
      using assms(2) [of a] st quiet_trans [OF st] by (simp add: quietly_def quiet_def)
  qed
qed

lemma quietly_set_signer [quietly_intros]: "quietly (set_signer sg)"
  by (simp add: quietly_def quiet_def set_signer_def)

lemma quietly_set_waypoint [quietly_intros]: "quietly (on_storage (pss_set_waypoint w))"
  using pss_set_waypoint_keeps by (force simp: quietly_def quiet_def on_storage_def split: prod.splits)

lemma quietly_reconcile_key [quietly_intros]: "quietly (reconcile_key env es author)"
proof -
  let ?handle = "\<lambda>key. bindS (set_signer (Some (Handle author key))) (\<lambda>_.
    bindS (reads (\<lambda>s. map_err ValidatorKeyNotFound
      (sr_sign env (env_sign_timeout env) \<lparr>to_epoch = 0, to_round = 0\<rparr> s))) (\<lambda>_. ret ()))"
  have "quietly (?handle key)" for key
    by (intro quietly_intros silent_intros)
  then show ?thesis
    unfolding quietly_def reconcile_key_def
    by (auto simp: quiet_refl set_signer_def quiet_def split: option.splits result.splits sr_error.splits)
qed

lemma quietly_clear_signer [quietly_intros]: "quietly m \<Longrightarrow> quietly (clear_signer_on_error m)"
  unfolding quietly_def
proof (intro allI impI)
  fix s assume m: "\<forall>s. sr_coherent s \<longrightarrow> quiet s (snd (m s))" and s: "sr_coherent s"
  obtain x t where x: "m s = (x, t)" by fastforce
  then have "quiet s t" using m s by (metis snd_conv)
  then show "quiet s (snd (clear_signer_on_error m s))"
    using x by (cases x) (simp_all add: clear_signer_on_error_def quiet_def)
qed

text \<open>
  Initialisation either leaves the safety data alone, possibly adopting an epoch state of the
  current epoch, or starts a later epoch with fresh safety data and adopts its epoch state.
\<close>

definition initializes :: "safety_rules \<Rightarrow> safety_rules \<Rightarrow> bool" where
  "initializes s s' \<longleftrightarrow> quiet s s' \<or>
     sr_coherent s' \<and> (\<exists>es d. sr_epoch_state s' = Some es \<and> sr_stored s = Some d \<and>
       (sd_epoch d = es_epoch es \<and> sr_stored s' = Some d \<or>
        sd_epoch d < es_epoch es \<and> sr_stored s' = Some (empty_safety_data (es_epoch es))))"

lemma initializes_prefix:
  assumes s: "sr_coherent s" and m: "quietly m"
    and f: "\<And>a t. m s = (Ok a, t) \<Longrightarrow> quiet s t \<Longrightarrow> initializes t (snd (f a t))"
  shows "initializes s (snd (bindS m f s))"
proof -
  obtain x t where x: "m s = (x, t)" by fastforce
  have st: "quiet s t" by (rule quietly_snd [OF m s x])
  have "initializes s (snd (f a t))" if "x = Ok a" for a
    using f [OF _ st] x that st by (auto simp: initializes_def quiet_def)
  then show ?thesis
    using x st by (cases x) (auto simp: bindS_def initializes_def)
qed

lemma initializes_adopt:
  assumes m: "m s = (x, t)" and fail: "\<not> is_ok x \<Longrightarrow> quiet s t"
    and ok: "is_ok x \<Longrightarrow> sr_coherent t \<and> sr_stored s = Some d \<and>
      (sd_epoch d = es_epoch es \<and> sr_stored t = Some d \<or>
       sd_epoch d < es_epoch es \<and> sr_stored t = Some (empty_safety_data (es_epoch es)))"
    and f: "\<And>u. quietly (f u)"
  shows "initializes s (snd (bindS m (\<lambda>_. bindS (set_epoch_state es) f) s))"
proof (cases x)
  case (Ok a)
  let ?t = "t\<lparr>sr_epoch_state := Some es\<rparr>"
  have "quiet ?t (snd (f () ?t))" using f [of "()"] ok Ok by (simp add: quietly_def)
  then show ?thesis
    using m ok Ok by (auto simp: bindS_def set_epoch_state_def initializes_def quiet_def)
qed (use m fail in \<open>simp_all add: bindS_def initializes_def\<close>)

lemma initializes_epoch:
  assumes s: "sr_coherent s" "sr_stored s = Some d" and f: "\<And>u. quietly (f u)"
  shows "initializes s (snd (bindS
    (if sd_epoch d > es_epoch es then lift_res (Err err)
     else if sd_epoch d < es_epoch es then on_storage (pss_set_safety_data (empty_safety_data (es_epoch es)))
     else ret ()) (\<lambda>_. bindS (set_epoch_state es) f) s))"
    (is "initializes s (snd (bindS ?m _ s))")
proof -
  obtain x t where x: "?m s = (x, t)" by fastforce
  consider (late) "sd_epoch d > es_epoch es" | (current) "sd_epoch d = es_epoch es"
    | (new) "sd_epoch d < es_epoch es" "\<not> sd_epoch d > es_epoch es" by fastforce
  then show ?thesis
  proof cases
    case late
    then show ?thesis
      using x s by (intro initializes_adopt [where m = ?m and x = x and t = t and d = d, OF x _ _ f]) (auto simp: lift_res_def quiet_refl)
  next
    case current
    then show ?thesis
      using x s by (intro initializes_adopt [where m = ?m and x = x and t = t and d = d, OF x _ _ f]) (auto simp: ret_def)
  next
    case new
    then have w: "on_storage (pss_set_safety_data (empty_safety_data (es_epoch es))) s = (x, t)"
      using x by simp
    have "quiet s t" if "\<not> is_ok x"
      using transactional_fails [OF transactional_set_safety_data s(1) w that] by (rule same_quiet)
    then show ?thesis
      using new on_storage_set_safety_data_Ok [OF s(1)] w s(2)
      by (intro initializes_adopt [where m = ?m and x = x and t = t and d = d, OF x _ _ f]) (auto simp: is_ok_iff)
  qed
qed

lemma initializes_quietly:
  assumes "sr_coherent s" "quietly m" "\<And>a t. sr_coherent t \<Longrightarrow> initializes t (snd (f a t))"
  shows "initializes s (snd (bindS m f s))"
  using assms by (intro initializes_prefix) (auto simp: quiet_def)

lemma initializes_safety_data:
  assumes "sr_coherent s" "\<And>d t. sr_coherent t \<Longrightarrow> sr_stored t = Some d \<Longrightarrow> initializes t (snd (f d t))"
  shows "initializes s (snd (bindS (on_storage pss_safety_data) f s))"
  using assms(1) quietly_silent [OF silent_safety_data]
proof (rule initializes_prefix)
  fix d t assume d: "on_storage pss_safety_data s = (Ok d, t)"
  then show "initializes t (snd (f d t))"
    using assms(2) on_storage_safety_data_Ok [OF assms(1) d] same_stored [of s t] same_coherent [of s t] by simp
qed

lemma quietly_if [quietly_intros]: "quietly m \<Longrightarrow> quietly n \<Longrightarrow> quietly (if c then m else n)"
  by simp

lemma initialize_initializes:
  "sr_coherent s \<Longrightarrow> initializes s (snd (guarded_initialize env proof s))"
  unfolding guarded_initialize_def Let_def
  by (rule initializes_epoch initializes_safety_data initializes_quietly, assumption, assumption?,
      (intro quietly_intros silent_intros; fail)?)+

end
