(* ===== verification/Consensus_Messages.thy ===== *)
theory Consensus_Messages
  imports Consensus_Types
begin

text \<open>
  The messages validators exchange, from \<^verbatim>\<open>consensus/consensus-types/src\<close>: \<open>SyncInfo\<close>
  (\<^verbatim>\<open>sync_info.rs\<close>), \<open>ProposalMsg\<close>, \<open>VoteMsg\<close> and block retrieval
  (\<^verbatim>\<open>proposal_msg.rs\<close>, \<^verbatim>\<open>vote_msg.rs\<close>, \<^verbatim>\<open>block_retrieval.rs\<close>), each with the
  verification that its receiver runs.
\<close>

section \<open>Sync info\<close>

record sync_info =
  si_highest_quorum_cert :: quorum_cert
  si_highest_ordered_cert :: "quorum_cert option"
  si_highest_ledger_info :: "ledger_info_with_signatures option"
  si_highest_timeout_cert :: "timeout_certificate option"
  si_highest_2chain_timeout_cert :: "two_chain_timeout_certificate option"

definition option_filter :: "('a \<Rightarrow> bool) \<Rightarrow> 'a option \<Rightarrow> 'a option" where
  "option_filter P x = (case x of Some a \<Rightarrow> if P a then Some a else None | None \<Rightarrow> None)"

definition sync_info_new_decoupled ::
    "quorum_cert \<Rightarrow> quorum_cert \<Rightarrow> ledger_info_with_signatures option \<Rightarrow> timeout_certificate option
      \<Rightarrow> two_chain_timeout_certificate option \<Rightarrow> (anyhow_error, sync_info) result" where
  "sync_info_new_decoupled hqc hoc hli htc h2tc =
     (let htc' = option_filter (\<lambda>tc. to_round (tc_timeout tc) > bi_round (qc_certified_block hqc)) htc;
          h2tc' = option_filter (\<lambda>tc. tc2_round tc > bi_round (qc_certified_block hqc)) h2tc;
          hoc' = option_filter (\<lambda>c. c \<noteq> hqc) (Some hoc)
      in bind_res (assert_that (htc' = None \<or> h2tc' = None)) (\<lambda>_.
         Ok \<lparr>si_highest_quorum_cert = hqc, si_highest_ordered_cert = hoc', si_highest_ledger_info = hli,
             si_highest_timeout_cert = htc', si_highest_2chain_timeout_cert = h2tc'\<rparr>))"

definition sync_info_new ::
    "quorum_cert \<Rightarrow> quorum_cert \<Rightarrow> timeout_certificate option \<Rightarrow> two_chain_timeout_certificate option
      \<Rightarrow> (anyhow_error, sync_info) result" where
  "sync_info_new hqc hoc htc h2tc =
     sync_info_new_decoupled hqc hoc (Some (qc_signed_ledger_info hoc)) htc h2tc"

definition highest_ordered_cert :: "sync_info \<Rightarrow> quorum_cert" where
  "highest_ordered_cert si =
     (case si_highest_ordered_cert si of Some c \<Rightarrow> c | None \<Rightarrow> si_highest_quorum_cert si)"

definition highest_ledger_info :: "sync_info \<Rightarrow> ledger_info_with_signatures" where
  "highest_ledger_info si =
     (case si_highest_ledger_info si of Some li \<Rightarrow> li | None \<Rightarrow> qc_signed_ledger_info (highest_ordered_cert si))"

definition highest_certified_round :: "sync_info \<Rightarrow> round_t" where
  "highest_certified_round si = bi_round (qc_certified_block (si_highest_quorum_cert si))"

definition highest_timeout_round :: "sync_info \<Rightarrow> round_t" where
  "highest_timeout_round si =
     max (case si_highest_timeout_cert si of None \<Rightarrow> 0 | Some tc \<Rightarrow> to_round (tc_timeout tc))
         (case si_highest_2chain_timeout_cert si of None \<Rightarrow> 0 | Some tc \<Rightarrow> tc2_round tc)"

definition highest_ordered_round :: "sync_info \<Rightarrow> round_t" where
  "highest_ordered_round si = bi_round (qc_commit_info (highest_ordered_cert si))"

definition highest_ledger_info_round :: "sync_info \<Rightarrow> round_t" where
  "highest_ledger_info_round si = li_round (ls_ledger_info (highest_ledger_info si))"

definition highest_round :: "sync_info \<Rightarrow> round_t" where
  "highest_round si = max (highest_certified_round si) (highest_timeout_round si)"

definition si_epoch :: "sync_info \<Rightarrow> u64" where
  "si_epoch si = bi_epoch (qc_certified_block (si_highest_quorum_cert si))"

definition sync_info_verify ::
    "consensus_crypto \<Rightarrow> sync_info \<Rightarrow> validator_verifier \<Rightarrow> (anyhow_error, unit) result" where
  "sync_info_verify cc si validator =
     (let epoch = bi_epoch (qc_certified_block (si_highest_quorum_cert si)) in
      bind_res (ensure (epoch = bi_epoch (qc_certified_block (highest_ordered_cert si)))
        (Msg ''Multi epoch in SyncInfo - HOC and HQC'')) (\<lambda>_.
      bind_res (case si_highest_timeout_cert si of
          None \<Rightarrow> Ok ()
        | Some tc \<Rightarrow> ensure (epoch = to_epoch (tc_timeout tc)) (Msg ''Multi epoch in SyncInfo - TC and HQC'')) (\<lambda>_.
      bind_res (ensure (bi_round (qc_certified_block (si_highest_quorum_cert si)) \<ge>
          bi_round (qc_certified_block (highest_ordered_cert si))) (Msg ''HQC has lower round than HOC'')) (\<lambda>_.
      bind_res (ensure (bi_round (qc_certified_block (highest_ordered_cert si)) \<ge> highest_ledger_info_round si)
        (Msg ''HOC has lower round than HLI'')) (\<lambda>_.
      bind_res (ensure (qc_commit_info (highest_ordered_cert si) \<noteq> block_info_empty)
        (Msg ''HOC has no committed block'')) (\<lambda>_.
      bind_res (ensure (li_commit_info (ls_ledger_info (highest_ledger_info si)) \<noteq> block_info_empty)
        (Msg ''HLI has empty commit info'')) (\<lambda>_.
      bind_res (ensure (si_highest_timeout_cert si = None \<or> si_highest_2chain_timeout_cert si = None)
        (Msg ''Only One timeout cert should be carried'')) (\<lambda>_.
      bind_res (map_err (Context ''Fail to verify SyncInfo'')
        (bind_res (qc_verify cc (si_highest_quorum_cert si) validator) (\<lambda>_.
         bind_res (case si_highest_ordered_cert si of None \<Rightarrow> Ok () | Some cert \<Rightarrow> qc_verify cc cert validator) (\<lambda>_.
         bind_res (case si_highest_timeout_cert si of None \<Rightarrow> Ok () | Some tc \<Rightarrow> tc_verify cc tc validator) (\<lambda>_.
         bind_res (case si_highest_ledger_info si of
             None \<Rightarrow> Ok ()
           | Some hli \<Rightarrow>
               if li_round (ls_ledger_info hli) > 0
               then map_err FromVerifyError (verify_signatures (cc_ledger cc) hli validator) else Ok ()) (\<lambda>_.
         case si_highest_2chain_timeout_cert si of None \<Rightarrow> Ok () | Some tc \<Rightarrow> tc2_verify cc tc validator)))))) (\<lambda>_.
      Ok ())))))))))"

definition has_newer_certificates :: "sync_info \<Rightarrow> sync_info \<Rightarrow> bool" where
  "has_newer_certificates si other \<longleftrightarrow>
     highest_certified_round si > highest_certified_round other \<or>
     highest_timeout_round si > highest_timeout_round other \<or>
     highest_ordered_round si > highest_ordered_round other \<or>
     highest_ledger_info_round si > highest_ledger_info_round other"

section \<open>Proposal messages\<close>

record proposal_msg =
  pm_proposal :: block
  pm_sync_info :: sync_info

definition pm_verify_well_formed :: "u64 \<Rightarrow> proposal_msg \<Rightarrow> (anyhow_error, unit) result" where
  "pm_verify_well_formed now pm =
     (let proposal = pm_proposal pm; si = pm_sync_info pm in
      bind_res (ensure (\<not> bd_is_nil_block (blk_block_data proposal)) (Msg ''Proposal for a NIL block'')) (\<lambda>_.
      bind_res (map_err (Context ''Fail to verify ProposalMsg's block'') (verify_well_formed now proposal)) (\<lambda>_.
      bind_res (ensure (blk_round proposal > 0) (Msg ''Proposal has an incorrect round of 0'')) (\<lambda>_.
      bind_res (ensure (blk_epoch proposal = si_epoch si)
        (Msg ''ProposalMsg has different epoch number from SyncInfo'')) (\<lambda>_.
      bind_res (ensure (blk_parent_id proposal = bi_id (qc_certified_block (si_highest_quorum_cert si)))
        (Msg ''Proposal HQC in SyncInfo does not certify the parent'')) (\<lambda>_.
      bind_res (ok_or (checked_sub (blk_round proposal) 1) (Msg ''proposal round overflowed!'')) (\<lambda>previous_round.
      let highest_certified_round = max (bi_round (qc_certified_block (blk_quorum_cert proposal))) (highest_timeout_round si) in
      bind_res (ensure (previous_round = highest_certified_round)
        (Msg ''Proposal does not have a certified round'')) (\<lambda>_.
      bind_res (ensure (blk_author proposal \<noteq> None) (Msg ''Proposal does not define an author'')) (\<lambda>_.
      Ok ())))))))))"

definition pm_verify ::
    "consensus_crypto \<Rightarrow> u64 \<Rightarrow> proposal_msg \<Rightarrow> validator_verifier \<Rightarrow> (anyhow_error, unit) result" where
  "pm_verify cc now pm validator =
     bind_res (validate_signature cc (pm_proposal pm) validator) (\<lambda>_.
     bind_res (case si_highest_timeout_cert (pm_sync_info pm) of None \<Rightarrow> Ok () | Some tc \<Rightarrow> tc_verify cc tc validator) (\<lambda>_.
     bind_res (case si_highest_2chain_timeout_cert (pm_sync_info pm) of None \<Rightarrow> Ok () | Some tc \<Rightarrow> tc2_verify cc tc validator) (\<lambda>_.
     pm_verify_well_formed now pm)))"

definition pm_proposer :: "proposal_msg \<Rightarrow> ('e, author_t) result" where
  "pm_proposer pm = expect (blk_author (pm_proposal pm))"

section \<open>Vote messages\<close>

record vote_msg =
  vm_vote :: vote
  vm_sync_info :: sync_info

definition vm_verify ::
    "consensus_crypto \<Rightarrow> vote_msg \<Rightarrow> validator_verifier \<Rightarrow> (anyhow_error, unit) result" where
  "vm_verify cc vm validator =
     bind_res (ensure (vote_epoch (vm_vote vm) = si_epoch (vm_sync_info vm)) (Msg ''VoteMsg has different epoch'')) (\<lambda>_.
     bind_res (ensure (vote_round (vm_vote vm) > highest_round (vm_sync_info vm))
       (Msg ''Vote Round should be higher than SyncInfo'')) (\<lambda>_.
     bind_res (case vote_two_chain_timeout (vm_vote vm) of
         None \<Rightarrow> Ok ()
       | Some (t, _) \<Rightarrow> ensure (t2_hqc_round t \<le> highest_certified_round (vm_sync_info vm))
           (Msg ''2-chain Timeout hqc should be less or equal than the sync info hqc'')) (\<lambda>_.
     vote_verify cc (vm_vote vm) validator)))"

section \<open>Block retrieval\<close>

record block_retrieval_request =
  brq_block_id :: hash_value
  brq_num_blocks :: u64
  brq_target_block_id :: "hash_value option"

datatype block_retrieval_status = Succeeded | IdNotFound | NotEnoughBlocks | SucceededWithTarget

record block_retrieval_response =
  brs_status :: block_retrieval_status
  brs_blocks :: "block list"

definition match_target_id :: "block_retrieval_request \<Rightarrow> hash_value \<Rightarrow> bool" where
  "match_target_id rq h = (case brq_target_block_id rq of None \<Rightarrow> False | Some i \<Rightarrow> i = h)"

fun verify_chain ::
    "consensus_crypto \<Rightarrow> u64 \<Rightarrow> validator_verifier \<Rightarrow> hash_value \<Rightarrow> block list \<Rightarrow> (anyhow_error, hash_value) result" where
  "verify_chain cc now v expected_id [] = Ok expected_id"
| "verify_chain cc now v expected_id (b # bs) =
     bind_res (validate_signature cc b v) (\<lambda>_.
     bind_res (verify_well_formed now b) (\<lambda>_.
     bind_res (ensure (blk_id b = expected_id) (Msg ''blocks doesn't form a chain'')) (\<lambda>_.
     verify_chain cc now v (blk_parent_id b) bs)))"

definition retrieval_verify ::
    "consensus_crypto \<Rightarrow> u64 \<Rightarrow> block_retrieval_response \<Rightarrow> block_retrieval_request \<Rightarrow> validator_verifier
      \<Rightarrow> (anyhow_error, unit) result" where
  "retrieval_verify cc now rs rq v =
     bind_res (ensure (brs_status rs \<noteq> Succeeded \<or> word_of_nat (length (brs_blocks rs)) = brq_num_blocks rq)
       (Msg ''not enough blocks returned'')) (\<lambda>_.
     bind_res (ensure (brs_status rs \<noteq> SucceededWithTarget \<or>
         (brs_blocks rs \<noteq> [] \<and> match_target_id rq (blk_id (last (brs_blocks rs)))))
       (Msg ''target not found in blocks returned'')) (\<lambda>_.
     bind_res (verify_chain cc now v (brq_block_id rq) (brs_blocks rs)) (\<lambda>_. Ok ())))"

section \<open>Lemmas\<close>

text \<open>A chain of blocks, newest first: each block is well formed, certified and links to the next.\<close>

fun linked_chain :: "hash_value \<Rightarrow> block list \<Rightarrow> bool" where
  "linked_chain h [] \<longleftrightarrow> True"
| "linked_chain h (b # bs) \<longleftrightarrow> blk_id b = h \<and> linked_chain (blk_parent_id b) bs"

lemma verify_chain_Ok:
  "verify_chain cc now v h bs = Ok h' \<Longrightarrow>
     linked_chain h bs \<and>
     (\<forall>b \<in> set bs. validate_signature cc b v = Ok () \<and> verify_well_formed now b = Ok ())"
  by (induction bs arbitrary: h) (auto simp: bind_res_Ok_iff)

lemma sync_info_verify_Ok:
  assumes "sync_info_verify cc si v = Ok ()"
  shows "qc_verify cc (si_highest_quorum_cert si) v = Ok ()"
    "qc_verify cc (highest_ordered_cert si) v = Ok ()"
    "si_highest_timeout_cert si = Some tc \<Longrightarrow> tc_verify cc tc v = Ok () \<and> to_epoch (tc_timeout tc) = si_epoch si"
    "si_highest_2chain_timeout_cert si = Some tc2 \<Longrightarrow> tc2_verify cc tc2 v = Ok ()"
    "highest_ledger_info_round si \<le> highest_certified_round si"
    "bi_epoch (qc_certified_block (highest_ordered_cert si)) = si_epoch si"
proof -
  note ok = assms [unfolded sync_info_verify_def Let_def bind_res_Ok_iff ensure_Ok_iff map_err_Ok_iff, simplified]
  show hqc: "qc_verify cc (si_highest_quorum_cert si) v = Ok ()"
    using ok by simp
  show "qc_verify cc (highest_ordered_cert si) v = Ok ()"
    using ok hqc by (cases "si_highest_ordered_cert si") (simp_all add: highest_ordered_cert_def)
  show "tc_verify cc tc v = Ok () \<and> to_epoch (tc_timeout tc) = si_epoch si" if "si_highest_timeout_cert si = Some tc"
    unfolding si_epoch_def using ok that by (elim conjE) simp
  show "tc2_verify cc tc2 v = Ok ()" if "si_highest_2chain_timeout_cert si = Some tc2"
    using ok that by simp
  show "highest_ledger_info_round si \<le> highest_certified_round si"
    unfolding highest_certified_round_def using ok by (elim conjE) (rule order_trans)
  show "bi_epoch (qc_certified_block (highest_ordered_cert si)) = si_epoch si"
    unfolding si_epoch_def using ok by (elim conjE) simp
qed

lemma validate_signature_qc:
  "validate_signature cc b v = Ok () \<Longrightarrow> qc_verify cc (blk_quorum_cert b) v = Ok ()"
  by (auto simp: validate_signature_def bind_res_Ok_iff split: block_type.splits)

section \<open>Properties\<close>

text \<open>A concrete first proposal of an epoch, on top of the genesis certificate.\<close>

definition toy_crypto :: consensus_crypto where
  "toy_crypto =
     \<lparr>cc_ledger = \<lparr>lc_li_sigs = toy_sig_ops, lc_waypoint_hash = l2w_root_hash\<rparr>,
      cc_hash_vote_data = (\<lambda>vd. bi_id (vd_proposed vd)), cc_hash_block_data = (\<lambda>bd. ucast (bd_round bd)),
      cc_txn_accumulator_hash = (\<lambda>_ _. 9),
      cc_block_sigs = toy_sig_ops, cc_timeout_sigs = toy_sig_ops, cc_timeout2_sigs = toy_sig_ops,
      cc_vote_proposal_sigs = toy_sig_ops\<rparr>"

definition first_genesis_qc :: quorum_cert where
  "first_genesis_qc =
     (let b = block_info_empty\<lparr>bi_epoch := 1\<rparr> in
      \<lparr>qc_vote_data = \<lparr>vd_proposed = b, vd_parent = b\<rparr>,
       qc_signed_ledger_info = \<lparr>ls_ledger_info = \<lparr>li_commit_info = b, li_consensus_data_hash = 0\<rparr>, ls_signatures = []\<rparr>\<rparr>)"

definition first_block :: block where
  "first_block = block_of_data toy_crypto (bd_new_proposal [[1]] 1 1 5 first_genesis_qc) (Some 11)"

definition first_sync_info :: sync_info where
  "first_sync_info =
     \<lparr>si_highest_quorum_cert = first_genesis_qc, si_highest_ordered_cert = None, si_highest_ledger_info = None,
      si_highest_timeout_cert = None, si_highest_2chain_timeout_cert = None\<rparr>"

lemmas first_block_defs = first_block_def first_genesis_qc_def block_of_data_def bd_new_proposal_def
  toy_crypto_def toy_sig_ops_def block_info_empty_def Let_def

lemma first_genesis_qc_ok: "qc_verify toy_crypto first_genesis_qc four_verifier = Ok ()"
  by (simp add: qc_verify_Ok_iff first_genesis_qc_def toy_crypto_def block_info_empty_def Let_def)

lemma first_block_ok:
  "validate_signature toy_crypto first_block four_verifier = Ok ()" "verify_well_formed 100 first_block = Ok ()"
proof -
  have "blk_quorum_cert first_block = first_genesis_qc"
    by (simp add: first_block_def block_of_data_def bd_new_proposal_def)
  then show "validate_signature toy_crypto first_block four_verifier = Ok ()"
    using first_genesis_qc_ok
    by (simp add: validate_signature_def ok_or_def verify_def get_public_key_def four_verifier_def four_validators_def
        first_block_def block_of_data_def bd_new_proposal_def toy_crypto_def toy_sig_ops_def)
  show "verify_well_formed 100 first_block = Ok ()"
    by (simp add: verify_well_formed_def first_block_defs ensure_def bd_is_genesis_block_def bd_is_nil_block_def
        bi_has_reconfiguration_def qc_ends_epoch_def li_ends_epoch_def saturating_add_def)
qed

lemma first_retrieval_ok:
  "retrieval_verify toy_crypto 100 \<lparr>brs_status = Succeeded, brs_blocks = [first_block]\<rparr>
     \<lparr>brq_block_id = blk_id first_block, brq_num_blocks = 1, brq_target_block_id = None\<rparr> four_verifier = Ok ()"
  using first_block_ok by (simp add: retrieval_verify_def ensure_def)

lemma first_proposal_ok:
  "pm_verify toy_crypto 100 \<lparr>pm_proposal = first_block, pm_sync_info = first_sync_info\<rparr> four_verifier = Ok ()"
  using first_block_ok
  by (simp add: pm_verify_def pm_verify_well_formed_def Let_def first_sync_info_def ensure_def ok_or_def
      si_epoch_def highest_timeout_round_def checked_sub_def bd_is_nil_block_def bd_author_def)
    (simp add: first_block_defs)

text \<open>C31: An accepted block retrieval response is a chain of certified blocks: the first block has
  the requested id, each later block is the parent of the one before, every block carries a valid
  certificate for its parent, of a smaller round of the same epoch; and with a target the last
  block is the target.\<close>

theorem retrieval_chain:
  assumes "retrieval_verify cc now rs rq v = Ok ()"
  shows "linked_chain (brq_block_id rq) (brs_blocks rs) \<and>
    list_all (\<lambda>b. qc_verify cc (blk_quorum_cert b) v = Ok () \<and>
       bi_round (qc_certified_block (blk_quorum_cert b)) < blk_round b \<and>
       bi_epoch (qc_certified_block (blk_quorum_cert b)) = blk_epoch b) (brs_blocks rs) \<and>
    (brs_status rs = SucceededWithTarget \<longrightarrow>
       brq_target_block_id rq = Some (blk_id (last (brs_blocks rs))))"
proof -
  from assms obtain h where "verify_chain cc now v (brq_block_id rq) (brs_blocks rs) = Ok h"
    and target: "brs_status rs \<noteq> SucceededWithTarget \<or> match_target_id rq (blk_id (last (brs_blocks rs)))"
    by (auto simp: retrieval_verify_def bind_res_Ok_iff)
  note chain = verify_chain_Ok [OF this(1)]
  then have ok: "validate_signature cc b v = Ok ()" "verify_well_formed now b = Ok ()" if "b \<in> set (brs_blocks rs)" for b
    using that by blast+
  show ?thesis
    using chain target validate_signature_qc [OF ok(1)] verify_well_formed_Ok(2,3) [OF ok(2)]
    by (auto simp: list_all_iff match_target_id_def split: option.splits)
qed

theorem retrieval_chain_witness:
  "linked_chain (blk_id first_block) [first_block] \<and>
   list_all (\<lambda>b. qc_verify toy_crypto (blk_quorum_cert b) four_verifier = Ok () \<and>
       bi_round (qc_certified_block (blk_quorum_cert b)) < blk_round b \<and>
       bi_epoch (qc_certified_block (blk_quorum_cert b)) = blk_epoch b) [first_block]"
  using retrieval_chain [OF first_retrieval_ok] by simp



end
