(* ===== verification/Safety_Invariant.thy ===== *)
theory Safety_Invariant
  imports Safety_Rules_Correct Consensus_Messages
begin

text \<open>
  The invariant of the safety rules and the order in which safety data moves: every message,
  whatever its outcome, keeps the invariant and never moves the safety data back. Conversely a
  proposal that passes the checks and meets the voting rule is voted for.
\<close>

section \<open>The invariant\<close>

text \<open>Stored safety data in good order: the rounds it records are ordered, and its last vote is of
  its epoch and of a round it has accounted for.\<close>

definition sd_wf :: "safety_data \<Rightarrow> bool" where
  "sd_wf d \<longleftrightarrow> sd_preferred_round d \<le> sd_one_chain_round d \<and> sd_one_chain_round d \<le> sd_last_voted_round d \<and>
     (\<forall>v. sd_last_vote d = Some v \<longrightarrow> vote_epoch v = sd_epoch d \<and> vote_round v \<le> sd_last_voted_round d)"

definition sr_inv :: "safety_rules \<Rightarrow> bool" where
  "sr_inv s \<longleftrightarrow> sr_coherent s \<and> (\<forall>d. sr_stored s = Some d \<longrightarrow> sd_wf d) \<and>
     (\<forall>es. sr_epoch_state s = Some es \<longrightarrow> (\<exists>d. sr_stored s = Some d \<and> sd_epoch d = es_epoch es))"

text \<open>The order in which safety data moves: to a later epoch, or within its epoch with no round
  decreasing.\<close>

definition sd_le :: "safety_data \<Rightarrow> safety_data \<Rightarrow> bool" where
  "sd_le d d' \<longleftrightarrow> sd_epoch d < sd_epoch d' \<or>
     sd_epoch d = sd_epoch d' \<and> sd_last_voted_round d \<le> sd_last_voted_round d' \<and>
     sd_preferred_round d \<le> sd_preferred_round d' \<and> sd_one_chain_round d \<le> sd_one_chain_round d'"

lemma sd_le_refl [simp]: "sd_le d d"
  by (simp add: sd_le_def)

lemma sd_le_trans: "sd_le a b \<Longrightarrow> sd_le b c \<Longrightarrow> sd_le a c"
  by (auto simp: sd_le_def)

definition advances :: "safety_rules \<Rightarrow> safety_rules \<Rightarrow> bool" where
  "advances s s' \<longleftrightarrow> sr_inv s' \<and> (\<forall>d. sr_stored s = Some d \<longrightarrow> (\<exists>d'. sr_stored s' = Some d' \<and> sd_le d d'))"

lemma qc_verify_parent_le:
  "qc_verify cc qc v = Ok () \<Longrightarrow> bi_round (qc_parent_block qc) \<le> bi_round (qc_certified_block qc)"
  by (auto simp: qc_verify_Ok_iff vote_data_verify_Ok_iff split: if_splits)

lemma advances_quiet: "sr_inv s \<Longrightarrow> quiet s s' \<Longrightarrow> advances s s'"
  by (auto simp: advances_def sr_inv_def quiet_def)

lemma advances_same: "sr_inv s \<Longrightarrow> same s s' \<Longrightarrow> advances s s'"
  by (rule advances_quiet [OF _ same_quiet])

lemma advances_raises:
  assumes s: "sr_inv s" and r: "raises e r s s'"
  shows "advances s s'"
proof (cases "sr_stored s' = sr_stored s")
  case True
  then show ?thesis using s r by (auto simp: advances_def sr_inv_def raises_def)
next
  case False
  then obtain d where d: "sr_stored s = Some d" "sr_stored s' = Some (raised r d)"
    using r by (auto simp: raises_def)
  moreover have "sd_wf (raised r d)"
    using s d by (auto simp: sr_inv_def sd_wf_def raised_def le_max_iff_disj)
  moreover have "sd_le d (raised r d)"
    by (simp add: sd_le_def raised_def)
  ultimately show ?thesis
    using s r by (auto simp: advances_def sr_inv_def raises_def raised_def)
qed

lemma advances_initializes: "sr_inv s \<Longrightarrow> initializes s s' \<Longrightarrow> advances s s'"
  using advances_quiet [of s s']
  by (auto simp: initializes_def advances_def sr_inv_def sd_le_def empty_safety_data_def sd_wf_def)

lemma advances_fresh_vote:
  assumes s: "sr_inv s" and chk: "checked_proposal env now mvp s d es vd"
    and v: "fresh_vote env (vp_block (mvp_vote_proposal mvp)) vd li s d v s'"
  shows "advances s s'"
proof -
  let ?b = "vp_block (mvp_vote_proposal mvp)"
  let ?qc = "blk_quorum_cert ?b"
  have st: "sr_stored s = Some d" "blk_epoch ?b = sd_epoch d" "sr_epoch_state s = Some es"
    and qc: "qc_verify (env_crypto env) ?qc (es_verifier es) = Ok ()" and wf: "verify_well_formed now ?b = Ok ()"
    and vd: "gen_vote_data (env_crypto env) (mvp_vote_proposal mvp) = Ok vd"
    using chk by (auto simp: checked_proposal_def Let_def)
  have d: "sd_wf d" using s st by (simp add: sr_inv_def)
  have lt: "sd_last_voted_round d < blk_round ?b" and st': "sr_stored s' = Some (voted_data ?b v d)"
    and v': "vote_vote_data v = vd"
    using v by (auto simp: fresh_vote_def)
  have "sd_wf (voted_data ?b v d)"
    using d lt qc_verify_parent_le [OF qc] verify_well_formed_Ok(2) [OF wf] gen_vote_data_Ok(2,3) [OF vd] st(2)
    by (auto simp: sd_wf_def voted_data_def v' le_max_iff_disj)
  moreover have "sd_le d (voted_data ?b v d)"
    using lt by (simp add: sd_le_def voted_data_def)
  moreover have "sd_epoch (voted_data ?b v d) = sd_epoch d" by (simp add: voted_data_def)
  ultimately show ?thesis
    using s v st st' by (auto simp: advances_def sr_inv_def fresh_vote_def)
qed

section \<open>Failing calls\<close>

lemma transactional_sign_and_persist_vote [transactional_intros]:
  "transactional (sign_and_persist_vote env vd make_li sd)"
  unfolding sign_and_persist_vote_def Let_def
  by (intro transactional_bindS silent_intros transactional_bindS_ret transactional_set_safety_data)

lemma transactional_construct_and_sign_vote:
  "transactional (guarded_construct_and_sign_vote env now mvp)"
  unfolding guarded_construct_and_sign_vote_def Let_def
  by (intro transactional_bindS transactional_case_option transactional_case_prod
      transactional_sign_and_persist_vote silent_intros transactional_silent)

lemma transactional_construct_and_sign_vote_two_chain:
  "transactional (guarded_construct_and_sign_vote_two_chain env now mvp tc)"
  unfolding guarded_construct_and_sign_vote_two_chain_def Let_def
  by (intro transactional_bindS transactional_case_option
      transactional_sign_and_persist_vote silent_intros transactional_silent)

lemma silent_handlers:
  "silent guarded_consensus_state" "silent (guarded_sign_proposal env bd)"
  "silent (guarded_sign_commit_vote env liws li)"
  unfolding guarded_consensus_state_def guarded_sign_proposal_def guarded_sign_commit_vote_def Let_def
  by (intro silent_intros)+

lemma output_as_result: "output_as f m s = (r, s') \<Longrightarrow> \<exists>r'. m s = (r', s') \<and> is_ok r = is_ok r'"
  by (auto simp: output_as_def bindS_def ret_def split: prod.splits result.splits)

lemma output_as_Ok: "output_as f m s = (Ok x, s') \<longleftrightarrow> (\<exists>y. m s = (Ok y, s') \<and> x = f y)"
  by (auto simp: output_as_def bindS_Ok_iff)

lemma construct_and_sign_vote_advances:
  assumes s: "sr_inv s" and m: "guarded_construct_and_sign_vote env now mvp s = (r, s')"
  shows "advances s s'"
proof -
  have coh: "sr_coherent s" using s by (simp add: sr_inv_def)
  show ?thesis
  proof (cases "is_ok r")
    case True
    then obtain v where "r = Ok v" by (auto simp: is_ok_iff)
    from construct_and_sign_vote_Ok [OF coh m [unfolded this]] show ?thesis
      using advances_same [OF s] advances_fresh_vote [OF s] by (metis repeated_vote_def)
  next
    case False
    then show ?thesis
      using transactional_fails [OF transactional_construct_and_sign_vote coh m] advances_same [OF s] by blast
  qed
qed

lemma construct_and_sign_vote_two_chain_advances:
  assumes s: "sr_inv s" and m: "guarded_construct_and_sign_vote_two_chain env now mvp tc s = (r, s')"
  shows "advances s s'"
proof -
  have coh: "sr_coherent s" using s by (simp add: sr_inv_def)
  show ?thesis
  proof (cases "is_ok r")
    case True
    then obtain v where "r = Ok v" by (auto simp: is_ok_iff)
    from construct_and_sign_vote_two_chain_Ok [OF coh m [unfolded this]] show ?thesis
      using advances_same [OF s] advances_fresh_vote [OF s] by (metis repeated_vote_def)
  next
    case False
    then show ?thesis
      using transactional_fails [OF transactional_construct_and_sign_vote_two_chain coh m] advances_same [OF s]
      by blast
  qed
qed

lemma handle_message_advances:
  assumes s: "sr_inv s" and m: "handle_message env now i s = (r, s')"
  shows "advances s s'"
proof -
  have coh: "sr_coherent s" using s by (simp add: sr_inv_def)
  note same = advances_same [OF s silent_snd [OF _ coh]]
  show ?thesis
  proof (cases i)
    case ConsensusState
    then show ?thesis using m output_as_result same silent_handlers(1) by fastforce
  next
    case (Initialize p)
    then show ?thesis
      using m output_as_result initialize_initializes [OF coh, of env p] advances_initializes [OF s] by fastforce
  next
    case (ConstructAndSignVote mvp)
    then show ?thesis using m output_as_result construct_and_sign_vote_advances [OF s] by fastforce
  next
    case (SignProposal bd)
    then show ?thesis using m output_as_result same silent_handlers(2) by fastforce
  next
    case (SignTimeout t)
    then show ?thesis
      using m output_as_result sign_timeout_raises [OF coh, of t env] advances_raises [OF s] by fastforce
  next
    case (SignTimeoutWithQC t tc)
    then show ?thesis
      using m output_as_result sign_timeout_with_qc_raises [OF coh, of t env tc] advances_raises [OF s] by fastforce
  next
    case (ConstructAndSignVoteTwoChain mvp tc)
    then show ?thesis using m output_as_result construct_and_sign_vote_two_chain_advances [OF s] by fastforce
  next
    case (SignCommitVote liws li)
    then show ?thesis using m output_as_result same silent_handlers(3) by fastforce
  qed
qed

section \<open>Voting when the rule allows it\<close>

text \<open>The safety data is at hand and can be written.\<close>

definition storage_ready :: "safety_rules \<Rightarrow> safety_data \<Rightarrow> bool" where
  "storage_ready s d \<longleftrightarrow> pss_enable_cached_safety_data (sr_persistent_storage s) \<and>
     pss_cached_safety_data (sr_persistent_storage s) = Some d \<and> kv_fault (sr_store s) SAFETY_DATA = None"

definition storing :: "safety_data \<Rightarrow> safety_rules \<Rightarrow> safety_rules" where
  "storing d s = s\<lparr>sr_persistent_storage := (sr_persistent_storage s)
     \<lparr>pss_cached_safety_data := Some d,
      pss_internal_store := (sr_store s)\<lparr>kv_data := (kv_data (sr_store s))(SAFETY_DATA \<mapsto> (SvSafetyData d, kv_now (sr_store s)))\<rparr>\<rparr>\<rparr>"

lemma storage_ready_read: "storage_ready s d \<Longrightarrow> on_storage pss_safety_data s = (Ok d, s)"
  by (simp add: storage_ready_def on_storage_def pss_safety_data_def)

lemma storage_ready_write: "storage_ready s d \<Longrightarrow> on_storage (pss_set_safety_data d') s = (Ok (), storing d' s)"
  by (simp add: storage_ready_def on_storage_def pss_set_safety_data_def kv_set_def storing_def)

lemma verify_proposal_complete:
  assumes chk: "checked_proposal env now mvp s d es vd" and rdy: "storage_ready s d"
  shows "verify_proposal env now mvp s = (Ok vd, s)"
  using chk storage_ready_read [OF rdy]
  by (simp add: verify_proposal_def checked_proposal_def Let_def bindS_def reads_def lift_res_def verify_epoch_def
      verify_qc_def current_epoch_state_def)

lemma next_round_lt: "r < r' \<Longrightarrow> next_round r = Ok (r + 1)"
  using unat_u64_less [of r'] by (simp add: next_round_def checked_add_def word_less_nat_alt)

lemma construct_ledger_info_lt:
  assumes "bi_round (qc_certified_block (blk_quorum_cert b)) < blk_round b"
    and "bi_round (qc_parent_block (blk_quorum_cert b)) \<le> bi_round (qc_certified_block (blk_quorum_cert b))"
  shows "\<exists>li. construct_ledger_info b h = Ok li"
  using assms next_round_lt [of "bi_round (qc_certified_block (blk_quorum_cert b))"]
    next_round_lt [of "bi_round (qc_parent_block (blk_quorum_cert b))" "blk_round b"]
  by (auto simp: construct_ledger_info_def Let_def)

lemma sign_and_persist_vote_ready:
  assumes "sr_validator_signer s = Some (Signer a k)" "storage_ready s d"
  shows "sign_and_persist_vote env vd (Ok li) sd s =
    (let v = vote_new_with_signature vd a li (env_sign_li env k li) in (Ok v, storing (sd\<lparr>sd_last_vote := Some v\<rparr>) s))"
  using assms storage_ready_write [OF assms(2)]
  by (simp add: sign_and_persist_vote_def signer_def sr_sign_def bindS_def reads_def lift_res_def ret_def Let_def)

lemma construct_and_sign_vote_complete:
  fixes env mvp
  defines "b \<equiv> vp_block (mvp_vote_proposal mvp)"
  assumes chk: "checked_proposal env now mvp s d es vd" and rdy: "storage_ready s d"
    and sgn: "sr_validator_signer s = Some (Signer a k)"
    and new: "already_voted d (blk_round b) = None" "sd_last_voted_round d < blk_round b"
    and rule: "sd_preferred_round d \<le> bi_round (qc_certified_block (blk_quorum_cert b))"
  obtains li v where "construct_ledger_info b (cc_hash_vote_data (env_crypto env) vd) = Ok li"
    "v = vote_new_with_signature vd a li (env_sign_li env k li)"
    "guarded_construct_and_sign_vote env now mvp s = (Ok v, storing (voted_data b v d) s)"
proof -
  have "verify_well_formed now b = Ok ()" "qc_verify (env_crypto env) (blk_quorum_cert b) (es_verifier es) = Ok ()"
    using chk by (auto simp: checked_proposal_def Let_def b_def)
  then obtain li where li: "construct_ledger_info b (cc_hash_vote_data (env_crypto env) vd) = Ok li"
    using construct_ledger_info_lt verify_well_formed_Ok(2) qc_verify_parent_le by blast
  let ?sd = "d\<lparr>sd_one_chain_round := max (sd_one_chain_round d) (bi_round (qc_certified_block (blk_quorum_cert b))),
    sd_preferred_round := max (sd_preferred_round d) (bi_round (qc_parent_block (blk_quorum_cert b)))\<rparr>"
  obtain u where u: "observe_qc (blk_quorum_cert b) d = (u, ?sd)"
    using observe_qc_eq by (metis prod.collapse)
  let ?v = "vote_new_with_signature vd a li (env_sign_li env k li)"
  have sd: "?sd\<lparr>sd_last_voted_round := blk_round b, sd_last_vote := Some v\<rparr> = voted_data b v d" for v
    by (simp add: voted_data_def)
  have n: "\<not> blk_round b \<le> sd_last_voted_round d"
    "\<not> bi_round (qc_certified_block (blk_quorum_cert b)) < sd_preferred_round d"
    using new(2) rule by (simp_all add: not_le not_less)
  have "guarded_construct_and_sign_vote env now mvp s =
      sign_and_persist_vote env vd (Ok li) (?sd\<lparr>sd_last_voted_round := blk_round b\<rparr>) s"
    using new(1) n sgn u li
    by (simp add: guarded_construct_and_sign_vote_def Let_def b_def [symmetric] verify_proposal_complete [OF chk rdy]
        storage_ready_read [OF rdy] signer_def reads_def bindS_def lift_res_def
        verify_and_update_preferred_round_def verify_and_update_last_vote_round_def)
  then show thesis
    using that [OF li refl] sign_and_persist_vote_ready [OF sgn rdy] sd [of ?v] by (simp add: Let_def)
qed

lemma construct_and_sign_vote_two_chain_complete:
  fixes env mvp
  defines "b \<equiv> vp_block (mvp_vote_proposal mvp)"
  assumes chk: "checked_proposal env now mvp s d es vd" and rdy: "storage_ready s d"
    and sgn: "sr_validator_signer s = Some (Signer a k)"
    and new: "already_voted d (blk_round b) = None" "sd_last_voted_round d < blk_round b"
    and tc: "when_some tc (\<lambda>c. tc2_verify (env_crypto env) c (es_verifier es)) = Ok ()"
    and rule: "safe_to_vote b tc = Ok ()"
  obtains li v where "construct_ledger_info_2chain b (cc_hash_vote_data (env_crypto env) vd) = Ok li"
    "v = vote_new_with_signature vd a li (env_sign_li env k li)"
    "guarded_construct_and_sign_vote_two_chain env now mvp tc s = (Ok v, storing (voted_data b v d) s)"
proof -
  have "verify_well_formed now b = Ok ()" and es: "sr_epoch_state s = Some es"
    using chk by (auto simp: checked_proposal_def Let_def b_def)
  then obtain li where li: "construct_ledger_info_2chain b (cc_hash_vote_data (env_crypto env) vd) = Ok li"
    using next_round_lt [OF verify_well_formed_Ok(2)] by (auto simp: construct_ledger_info_2chain_def Let_def)
  let ?sd = "snd (observe_qc (blk_quorum_cert b) (d\<lparr>sd_last_voted_round := blk_round b\<rparr>))"
  let ?v = "vote_new_with_signature vd a li (env_sign_li env k li)"
  have sd: "?sd\<lparr>sd_last_vote := Some v\<rparr> = voted_data b v d" for v
    by (simp add: observe_qc_eq voted_data_def)
  have tc': "when_some tc (\<lambda>c. verify_tc env c s) = Ok ()"
    using tc es by (cases tc) (auto simp: verify_tc_Ok_iff)
  have n: "\<not> blk_round b \<le> sd_last_voted_round d"
    using new(2) by (simp add: not_le)
  have "guarded_construct_and_sign_vote_two_chain env now mvp tc s = sign_and_persist_vote env vd (Ok li) ?sd s"
    using new(1) n sgn li rule tc'
    by (simp add: guarded_construct_and_sign_vote_two_chain_def Let_def b_def [symmetric]
        verify_proposal_complete [OF chk rdy] storage_ready_read [OF rdy] signer_def reads_def bindS_def lift_res_def
        verify_and_update_last_vote_round_def)
  then show thesis
    using that [OF li refl] sign_and_persist_vote_ready [OF sgn rdy] sd [of ?v] by (simp add: Let_def)
qed

section \<open>Properties\<close>

text \<open>A small configuration: validator 1 of four, at the start of epoch 1.\<close>

definition toy_env :: sr_env where
  "toy_env =
     \<lparr>env_crypto = toy_crypto, env_public_key = (\<lambda>k. k), env_sign_li = (\<lambda>k _. ucast k), env_sign_block = (\<lambda>k _. ucast k),
      env_sign_timeout = (\<lambda>k _. ucast k), env_sign_timeout2 = (\<lambda>k _. ucast k)\<rparr>"

definition first_epoch_state :: epoch_state where
  "first_epoch_state = \<lparr>es_epoch = 1, es_verifier = four_verifier\<rparr>"

definition rules_with :: "safety_data \<Rightarrow> safety_rules" where
  "rules_with d =
     \<lparr>sr_persistent_storage =
        \<lparr>pss_enable_cached_safety_data = True, pss_cached_safety_data = Some d,
         pss_internal_store =
           \<lparr>kv_data = [SAFETY_DATA \<mapsto> (SvSafetyData d, 0)], kv_now = 0, kv_fault = Map.empty\<rparr>\<rparr>,
      sr_execution_public_key = None, sr_export_consensus_key = True,
      sr_validator_signer = Some (Signer 1 11), sr_epoch_state = Some first_epoch_state\<rparr>"

definition first_proposal :: maybe_signed_vote_proposal where
  "first_proposal =
     \<lparr>mvp_vote_proposal =
        \<lparr>vp_accumulator_extension_proof = \<lparr>aep_frozen_subtree_roots = [], aep_num_leaves = 0, aep_leaves = []\<rparr>,
         vp_block = first_block, vp_next_epoch_state = None, vp_decoupled_execution = True\<rparr>,
      mvp_signature = None\<rparr>"

definition first_vote_data :: vote_data where
  "first_vote_data = vote_data_ordering_only (mvp_vote_proposal first_proposal)"

definition first_vote :: vote where
  "first_vote = vote_new_with_signature first_vote_data 1
     \<lparr>li_commit_info = block_info_empty, li_consensus_data_hash = bi_id (vd_proposed first_vote_data)\<rparr> 11"

lemma rules_with_inv: "sd_wf d \<Longrightarrow> sd_epoch d = 1 \<Longrightarrow> sr_inv (rules_with d)"
  by (auto simp: sr_inv_def rules_with_def pss_inv_def stored_safety_data_def first_epoch_state_def)

lemma rules_with_stored [simp]: "sr_stored (rules_with d) = Some d"
  by (simp add: rules_with_def stored_safety_data_def)

lemma storing_rules_with: "storing d' (rules_with d) = rules_with d'"
  by (simp add: storing_def rules_with_def)

lemma empty_safety_data_wf: "sd_wf (empty_safety_data e)"
  by (simp add: sd_wf_def empty_safety_data_def)

lemma first_checked:
  "sd_epoch d = 1 \<Longrightarrow>
     checked_proposal toy_env 100 first_proposal (rules_with d) d first_epoch_state first_vote_data"
  using first_block_ok first_genesis_qc_ok
  by (simp add: checked_proposal_def toy_env_def first_proposal_def verify_execution_signature_def rules_with_def
      first_epoch_state_def stored_safety_data_def first_vote_data_def gen_vote_data_def)
    (simp add: first_block_defs)

lemma rules_with_ready: "storage_ready (rules_with d) d" "sr_validator_signer (rules_with d) = Some (Signer 1 11)"
  by (simp_all add: storage_ready_def rules_with_def)

lemma first_vote_signed:
  "guarded_construct_and_sign_vote toy_env 100 first_proposal (rules_with (empty_safety_data 1)) =
     (Ok first_vote, rules_with (voted_data first_block first_vote (empty_safety_data 1)))"
proof -
  let ?d = "empty_safety_data 1"
  have b: "vp_block (mvp_vote_proposal first_proposal) = first_block" by (simp add: first_proposal_def)
  have ep: "sd_epoch ?d = 1" by (simp add: empty_safety_data_def)
  have new: "already_voted ?d (blk_round first_block) = None" "sd_last_voted_round ?d < blk_round first_block"
    "sd_preferred_round ?d \<le> bi_round (qc_certified_block (blk_quorum_cert first_block))"
    by (simp_all add: empty_safety_data_def already_voted_def first_block_defs)
  have li0: "construct_ledger_info first_block h = Ok \<lparr>li_commit_info = block_info_empty, li_consensus_data_hash = h\<rparr>" for h
    by (simp add: construct_ledger_info_def next_round_def checked_add_def first_block_defs)
  obtain li v where "construct_ledger_info first_block (cc_hash_vote_data (env_crypto toy_env) first_vote_data) = Ok li"
    "v = vote_new_with_signature first_vote_data 1 li (env_sign_li toy_env 11 li)"
    "guarded_construct_and_sign_vote toy_env 100 first_proposal (rules_with ?d) =
      (Ok v, storing (voted_data first_block v ?d) (rules_with ?d))"
    using construct_and_sign_vote_complete [OF first_checked [OF ep] rules_with_ready, unfolded b, OF new] .
  then show ?thesis
    by (simp add: li0 storing_rules_with first_vote_def toy_env_def toy_crypto_def)
qed



text \<open>C7: A refused request leaves the storage alone: when voting (under either protocol), signing a
  proposal or signing a commit vote fails, the stored data, the epoch state and the signer are
  those of before.\<close>

theorem refusal_keeps_storage:
  assumes "sr_inv s" "handle_message env now i s = (Err e, s')"
    and "case i of ConstructAndSignVote _ \<Rightarrow> True | ConstructAndSignVoteTwoChain _ _ \<Rightarrow> True
      | SignProposal _ \<Rightarrow> True | SignCommitVote _ _ \<Rightarrow> True | _ \<Rightarrow> False"
  shows "sr_store s' = sr_store s \<and> sr_epoch_state s' = sr_epoch_state s \<and>
    sr_validator_signer s' = sr_validator_signer s"
proof -
  have coh: "sr_coherent s" using assms(1) by (simp add: sr_inv_def)
  have fails: "same s s'" if "transactional m" "output_as f m s = (Err e, s')" for m :: "'a sr_action" and f
    using output_as_result [OF that(2)] transactional_fails [OF that(1) coh] by auto
  have "same s s'"
    using assms(2,3) fails [OF transactional_construct_and_sign_vote]
      fails [OF transactional_construct_and_sign_vote_two_chain]
      fails [OF transactional_silent [OF silent_handlers(2)]] fails [OF transactional_silent [OF silent_handlers(3)]]
    by (cases i) auto
  then show ?thesis by (simp add: same_def)
qed

lemma first_vote_refused:
  fixes d
  defines "d \<equiv> (empty_safety_data 1)\<lparr>sd_last_voted_round := 7\<rparr>"
  shows "handle_message toy_env 100 (ConstructAndSignVote first_proposal) (rules_with d) =
    (Err (IncorrectLastVotedRound 1 7), rules_with d)"
proof -
  have "sd_epoch d = 1" by (simp add: d_def empty_safety_data_def)
  then have vp: "verify_proposal toy_env 100 first_proposal (rules_with d) = (Ok first_vote_data, rules_with d)"
    using verify_proposal_complete first_checked rules_with_ready(1) by blast
  have b: "vp_block (mvp_vote_proposal first_proposal) = first_block" by (simp add: first_proposal_def)
  have av: "already_voted d (blk_round first_block) = None"
    by (simp add: already_voted_def d_def empty_safety_data_def)
  have pr: "verify_and_update_preferred_round (blk_quorum_cert first_block) d = Ok (False, d)"
    by (simp add: verify_and_update_preferred_round_def d_def empty_safety_data_def observe_qc_def first_block_defs)
  have lv: "verify_and_update_last_vote_round (blk_round first_block) d = Err (IncorrectLastVotedRound 1 7)"
    by (simp add: verify_and_update_last_vote_round_def d_def empty_safety_data_def first_block_defs)
  show ?thesis
    using vp av pr lv storage_ready_read [OF rules_with_ready(1)] rules_with_ready(2)
    by (simp add: output_as_def guarded_construct_and_sign_vote_def Let_def b bindS_def reads_def lift_res_def signer_def)
qed

theorem refusal_keeps_storage_witness:
  "sr_store (snd (handle_message toy_env 100 (ConstructAndSignVote first_proposal)
      (rules_with ((empty_safety_data 1)\<lparr>sd_last_voted_round := 7\<rparr>)))) =
   sr_store (rules_with ((empty_safety_data 1)\<lparr>sd_last_voted_round := 7\<rparr>))"
  using refusal_keeps_storage [OF _ first_vote_refused] rules_with_inv first_vote_refused
  by (simp add: sd_wf_def empty_safety_data_def)

definition stale_tc :: two_chain_timeout_certificate where
  "stale_tc =
     \<lparr>tc2_timeout = \<lparr>t2_epoch = 0, t2_round = 5, t2_quorum_cert = first_genesis_qc\<rparr>,
      tc2_signatures = [(1, 0, 11), (2, 0, 12), (3, 0, 13)]\<rparr>"

definition skipping_block :: block where
  "skipping_block = block_of_data toy_crypto (bd_new_proposal [[1]] 1 6 5 first_genesis_qc) (Some 11)"


end
