(* ===== verification/Safety_Log.thy ===== *)
theory Safety_Log
  imports Safety_Invariant
begin

text \<open>
  Runs of the safety rules, arbitrary sequences of messages and restarts, with the log of what the
  validator has signed. Each entry is related to the safety data before and after it, and so to
  every other entry of its epoch: this is what the agreement proof uses of an honest validator.
\<close>

section \<open>Runs\<close>

text \<open>
  The messages a validator has signed and released, each with the epoch state in force. A vote
  that is sent again is not a new entry. Votes name the protocol under which they were cast.
\<close>

datatype voting_rule = ThreeChain | TwoChain "two_chain_timeout_certificate option"

datatype log_entry =
    LVote voting_rule epoch_state block vote
  | LTimeout timeout
  | LTimeout2 epoch_state two_chain_timeout
  | LCommitVote ledger_info
  | LProposal block_data

definition log_vote :: "voting_rule \<Rightarrow> safety_rules \<Rightarrow> maybe_signed_vote_proposal \<Rightarrow> vote \<Rightarrow> log_entry list" where
  "log_vote rule s mvp v =
     (let b = vp_block (mvp_vote_proposal mvp) in
      case (sr_stored s, sr_epoch_state s) of
        (Some d, Some es) \<Rightarrow> if already_voted d (blk_round b) = None then [LVote rule es b v] else []
      | _ \<Rightarrow> [])"

fun log_of :: "safety_rules \<Rightarrow> safety_rules_input \<Rightarrow> (sr_error, safety_rules_output) result \<Rightarrow> log_entry list" where
  "log_of s (ConstructAndSignVote mvp) (Ok (OutVote v)) = log_vote ThreeChain s mvp v"
| "log_of s (ConstructAndSignVoteTwoChain mvp tc) (Ok (OutVote v)) = log_vote (TwoChain tc) s mvp v"
| "log_of s (SignTimeout t) (Ok _) = [LTimeout t]"
| "log_of s (SignTimeoutWithQC t tc) (Ok _) = (case sr_epoch_state s of Some es \<Rightarrow> [LTimeout2 es t] | None \<Rightarrow> [])"
| "log_of s (SignCommitVote liws li) (Ok _) = [LCommitVote li]"
| "log_of s (SignProposal bd) (Ok _) = [LProposal bd]"
| "log_of s _ _ = []"

text \<open>
  A step is a message, with any outcome, or a restart: a new process on the same storage, with an
  empty cache and neither signer nor epoch state.
\<close>

inductive sr_run :: "sr_env \<Rightarrow> safety_rules \<Rightarrow> log_entry list \<Rightarrow> safety_rules \<Rightarrow> bool"
  for env :: sr_env and s0 :: safety_rules where
  run_start: "sr_run env s0 [] s0"
| run_message: "sr_run env s0 (log @ log_of s i r) s'"
    if "sr_run env s0 log s" "handle_message env now i s = (r, s')"
| run_restart: "sr_run env s0 log s'"
    if "sr_run env s0 log s" "safety_rules_new env (pss_new (sr_store s) cached) verify_vp export = Ok s'"

lemma restart_advances:
  assumes s: "sr_inv s" and new: "safety_rules_new env (pss_new (sr_store s) cached) verify_vp export = Ok s'"
  shows "advances s s'"
proof -
  have st: "sr_persistent_storage s' = pss_new (sr_store s) cached" "sr_epoch_state s' = None"
    using new by (auto simp: safety_rules_new_def bind_res_Ok_iff)
  then have "sr_stored s' = sr_stored s" "sr_coherent s'"
    using s by (simp_all add: stored_safety_data_def pss_new_def sr_inv_def pss_inv_def)
  then show ?thesis
    using s st(2) by (auto simp: advances_def sr_inv_def)
qed

lemma advances_trans: "advances s t \<Longrightarrow> advances t u \<Longrightarrow> advances s u"
  unfolding advances_def using sd_le_trans by blast

lemma advances_refl: "sr_inv s \<Longrightarrow> advances s s"
  by (simp add: advances_def)

lemma sr_run_advances:
  assumes "sr_run env s0 log s" "sr_inv s0"
  shows "advances s0 s"
  using assms
proof (induction rule: sr_run.induct)
  case run_start
  then show ?case by (rule advances_refl)
next
  case (run_message log s now i r s')
  then show ?case
    using advances_trans handle_message_advances by (metis advances_def)
next
  case (run_restart log s cached verify_vp export s')
  then show ?case
    using advances_trans restart_advances by (metis advances_def)
qed

section \<open>The log\<close>

text \<open>What was checked of an entry when it was signed.\<close>

fun entry_checked :: "sr_env \<Rightarrow> log_entry \<Rightarrow> bool" where
  "entry_checked env (LVote rule es b v) \<longleftrightarrow>
     vote_epoch v = es_epoch es \<and> vote_round v = blk_round b \<and>
     vd_parent (vote_vote_data v) = qc_certified_block (blk_quorum_cert b) \<and>
     bi_epoch (qc_certified_block (blk_quorum_cert b)) = es_epoch es \<and>
     bi_round (qc_certified_block (blk_quorum_cert b)) < blk_round b \<and>
     qc_verify (env_crypto env) (blk_quorum_cert b) (es_verifier es) = Ok () \<and>
     (case rule of
        ThreeChain \<Rightarrow>
          construct_ledger_info b (cc_hash_vote_data (env_crypto env) (vote_vote_data v)) = Ok (vote_ledger_info v)
      | TwoChain tc \<Rightarrow>
          construct_ledger_info_2chain b (cc_hash_vote_data (env_crypto env) (vote_vote_data v)) = Ok (vote_ledger_info v) \<and>
          safe_to_vote b tc = Ok () \<and>
          when_some tc (\<lambda>c. tc2_verify (env_crypto env) c (es_verifier es)) = Ok ())"
| "entry_checked env (LTimeout2 es t) \<longleftrightarrow>
     t2_epoch t = es_epoch es \<and> t2_verify (env_crypto env) t (es_verifier es) = Ok ()"
| "entry_checked env _ \<longleftrightarrow> True"

text \<open>What the safety data had to satisfy for an entry to be signed, and what it records after.\<close>

fun entry_accepted :: "safety_data \<Rightarrow> log_entry \<Rightarrow> bool" where
  "entry_accepted d (LVote rule es b v) \<longleftrightarrow> es_epoch es = sd_epoch d \<and> sd_last_voted_round d < blk_round b \<and>
     (rule = ThreeChain \<longrightarrow> sd_preferred_round d \<le> bi_round (qc_certified_block (blk_quorum_cert b)))"
| "entry_accepted d (LTimeout t) \<longleftrightarrow> to_epoch t = sd_epoch d \<and> sd_last_voted_round d \<le> to_round t"
| "entry_accepted d (LTimeout2 es t) \<longleftrightarrow> es_epoch es = sd_epoch d \<and> sd_last_voted_round d \<le> t2_round t \<and>
     sd_one_chain_round d \<le> t2_hqc_round t"
| "entry_accepted d _ \<longleftrightarrow> True"

fun entry_recorded :: "safety_data \<Rightarrow> log_entry \<Rightarrow> bool" where
  "entry_recorded d (LVote rule es b v) \<longleftrightarrow> es_epoch es < sd_epoch d \<or>
     es_epoch es = sd_epoch d \<and> blk_round b \<le> sd_last_voted_round d \<and>
     bi_round (qc_parent_block (blk_quorum_cert b)) \<le> sd_preferred_round d \<and>
     bi_round (qc_certified_block (blk_quorum_cert b)) \<le> sd_one_chain_round d"
| "entry_recorded d (LTimeout t) \<longleftrightarrow> to_epoch t < sd_epoch d \<or>
     to_epoch t = sd_epoch d \<and> to_round t \<le> sd_last_voted_round d"
| "entry_recorded d (LTimeout2 es t) \<longleftrightarrow> es_epoch es < sd_epoch d \<or>
     es_epoch es = sd_epoch d \<and> t2_round t \<le> sd_last_voted_round d"
| "entry_recorded d _ \<longleftrightarrow> True"

text \<open>How an entry is related to the later entries of its epoch.\<close>

fun entry_before :: "log_entry \<Rightarrow> log_entry \<Rightarrow> bool" where
  "entry_before (LVote rule1 es1 b1 v1) (LVote rule2 es2 b2 v2) \<longleftrightarrow> es_epoch es1 \<le> es_epoch es2 \<and>
     (es_epoch es1 = es_epoch es2 \<longrightarrow> blk_round b1 < blk_round b2 \<and>
       (rule2 = ThreeChain \<longrightarrow>
         bi_round (qc_parent_block (blk_quorum_cert b1)) \<le> bi_round (qc_certified_block (blk_quorum_cert b2))))"
| "entry_before (LVote rule1 es1 b1 v1) (LTimeout2 es2 t2) \<longleftrightarrow> es_epoch es1 \<le> es_epoch es2 \<and>
     (es_epoch es1 = es_epoch es2 \<longrightarrow>
       blk_round b1 \<le> t2_round t2 \<and> bi_round (qc_certified_block (blk_quorum_cert b1)) \<le> t2_hqc_round t2)"
| "entry_before (LTimeout t1) (LVote rule2 es2 b2 v2) \<longleftrightarrow> to_epoch t1 \<le> es_epoch es2 \<and>
     (to_epoch t1 = es_epoch es2 \<longrightarrow> to_round t1 < blk_round b2)"
| "entry_before (LTimeout2 es1 t1) (LVote rule2 es2 b2 v2) \<longleftrightarrow> es_epoch es1 \<le> es_epoch es2 \<and>
     (es_epoch es1 = es_epoch es2 \<longrightarrow> t2_round t1 < blk_round b2)"
| "entry_before _ _ \<longleftrightarrow> True"

lemma entry_recorded_mono: "sd_le d d' \<Longrightarrow> entry_recorded d e \<Longrightarrow> entry_recorded d' e"
  by (cases e) (auto simp: sd_le_def)

lemma recorded_accepted_before: "entry_recorded d e1 \<Longrightarrow> entry_accepted d e2 \<Longrightarrow> entry_before e1 e2"
  by (cases e1; cases e2) auto

lemma fresh_vote_entry:
  assumes s: "sr_inv s" and chk: "checked_proposal env now mvp s d es vd"
    and b: "b = vp_block (mvp_vote_proposal mvp)" and v: "fresh_vote env b vd li s d v s'"
    and li: "case rule of ThreeChain \<Rightarrow> li = construct_ledger_info b (cc_hash_vote_data (env_crypto env) vd) \<and>
          sd_preferred_round d \<le> bi_round (qc_certified_block (blk_quorum_cert b))
      | TwoChain tc \<Rightarrow> li = construct_ledger_info_2chain b (cc_hash_vote_data (env_crypto env) vd) \<and>
          safe_to_vote b tc = Ok () \<and> when_some tc (\<lambda>c. tc2_verify (env_crypto env) c (es_verifier es)) = Ok ()"
  shows "entry_checked env (LVote rule es b v)" "entry_accepted d (LVote rule es b v)"
    "entry_recorded (voted_data b v d) (LVote rule es b v)"
proof -
  have st: "sr_stored s = Some d" "blk_epoch b = sd_epoch d" "sr_epoch_state s = Some es"
    and qc: "qc_verify (env_crypto env) (blk_quorum_cert b) (es_verifier es) = Ok ()"
    and wf: "verify_well_formed now b = Ok ()"
    and vd: "gen_vote_data (env_crypto env) (mvp_vote_proposal mvp) = Ok vd"
    using chk b by (auto simp: checked_proposal_def Let_def)
  have ep: "es_epoch es = sd_epoch d"
    using s st by (auto simp: sr_inv_def)
  have f: "sd_last_voted_round d < blk_round b" "vote_vote_data v = vd" "li = Ok (vote_ledger_info v)"
    using v by (auto simp: fresh_vote_def)
  show "entry_checked env (LVote rule es b v)"
    using qc st ep f li gen_vote_data_Ok(1-3) [OF vd] verify_well_formed_Ok(2,3) [OF wf] b
    by (auto split: voting_rule.splits)
  show "entry_accepted d (LVote rule es b v)"
    using ep f li by (auto split: voting_rule.splits)
  show "entry_recorded (voted_data b v d) (LVote rule es b v)"
    using ep by (simp add: voted_data_def)
qed

text \<open>A message adds at most one entry, accepted on the data before and recorded in the data after.\<close>

definition log_step :: "sr_env \<Rightarrow> safety_rules \<Rightarrow> log_entry list \<Rightarrow> safety_rules \<Rightarrow> bool" where
  "log_step env s new s' \<longleftrightarrow> new = [] \<or>
     (\<exists>e d d'. new = [e] \<and> sr_stored s = Some d \<and> sr_stored s' = Some d' \<and>
        entry_checked env e \<and> entry_accepted d e \<and> entry_recorded d' e)"

lemma vote_log_step:
  assumes s: "sr_inv s" and ok: "guarded_construct_and_sign_vote env now mvp s = (Ok v, s')"
  shows "log_step env s (log_vote ThreeChain s mvp v) s'"
proof -
  let ?b = "vp_block (mvp_vote_proposal mvp)"
  have coh: "sr_coherent s" using s by (simp add: sr_inv_def)
  obtain d es vd where chk: "checked_proposal env now mvp s d es vd"
    and v: "repeated_vote ?b s d v s' \<or>
      sd_preferred_round d \<le> bi_round (qc_certified_block (blk_quorum_cert ?b)) \<and>
      fresh_vote env ?b vd (construct_ledger_info ?b (cc_hash_vote_data (env_crypto env) vd)) s d v s'"
    using construct_and_sign_vote_Ok [OF coh ok] .
  have st: "sr_stored s = Some d" "sr_epoch_state s = Some es"
    using chk by (auto simp: checked_proposal_def Let_def)
  from v show ?thesis
  proof
    assume "repeated_vote ?b s d v s'"
    then have "already_voted d (blk_round ?b) = Some v"
      by (simp add: repeated_vote_def already_voted_Some)
    then show ?thesis using st by (simp add: log_step_def log_vote_def Let_def)
  next
    assume fr: "sd_preferred_round d \<le> bi_round (qc_certified_block (blk_quorum_cert ?b)) \<and>
      fresh_vote env ?b vd (construct_ledger_info ?b (cc_hash_vote_data (env_crypto env) vd)) s d v s'"
    then show ?thesis
      using st fresh_vote_entry [OF s chk refl conjunct2 [OF fr], of ThreeChain]
      by (simp add: log_step_def log_vote_def Let_def fresh_vote_def)
  qed
qed

lemma vote_two_chain_log_step:
  assumes s: "sr_inv s" and ok: "guarded_construct_and_sign_vote_two_chain env now mvp tc s = (Ok v, s')"
  shows "log_step env s (log_vote (TwoChain tc) s mvp v) s'"
proof -
  let ?b = "vp_block (mvp_vote_proposal mvp)"
  have coh: "sr_coherent s" using s by (simp add: sr_inv_def)
  obtain d es vd where chk: "checked_proposal env now mvp s d es vd"
    and tc: "when_some tc (\<lambda>c. tc2_verify (env_crypto env) c (es_verifier es)) = Ok ()"
    and v: "repeated_vote ?b s d v s' \<or> safe_to_vote ?b tc = Ok () \<and>
      fresh_vote env ?b vd (construct_ledger_info_2chain ?b (cc_hash_vote_data (env_crypto env) vd)) s d v s'"
    using construct_and_sign_vote_two_chain_Ok [OF coh ok] .
  have st: "sr_stored s = Some d" "sr_epoch_state s = Some es"
    using chk by (auto simp: checked_proposal_def Let_def)
  from v show ?thesis
  proof
    assume "repeated_vote ?b s d v s'"
    then have "already_voted d (blk_round ?b) = Some v"
      by (simp add: repeated_vote_def already_voted_Some)
    then show ?thesis using st by (simp add: log_step_def log_vote_def Let_def)
  next
    assume fr: "safe_to_vote ?b tc = Ok () \<and>
      fresh_vote env ?b vd (construct_ledger_info_2chain ?b (cc_hash_vote_data (env_crypto env) vd)) s d v s'"
    then show ?thesis
      using st tc fresh_vote_entry [OF s chk refl conjunct2 [OF fr], of "TwoChain tc"]
      by (simp add: log_step_def log_vote_def Let_def fresh_vote_def)
  qed
qed

lemma timeout_log_step:
  assumes s: "sr_inv s" and ok: "guarded_sign_timeout env t s = (Ok sg, s')"
  shows "log_step env s [LTimeout t] s'"
proof -
  have coh: "sr_coherent s" using s by (simp add: sr_inv_def)
  obtain d where "sr_stored s = Some d" "to_epoch t = sd_epoch d" "sd_preferred_round d < to_round t"
    "sd_last_voted_round d \<le> to_round t" "sr_stored s' = Some (raised (to_round t) d)"
    using sign_timeout_Ok [OF coh ok] .
  then show ?thesis by (simp add: log_step_def raised_def)
qed

lemma timeout2_log_step:
  assumes s: "sr_inv s" and ok: "guarded_sign_timeout_with_qc env t tc s = (Ok sg, s')"
  shows "log_step env s (log_of s (SignTimeoutWithQC t tc) (Ok (OutSignature sg))) s'"
proof -
  have coh: "sr_coherent s" using s by (simp add: sr_inv_def)
  obtain d es where st: "sr_stored s = Some d" "sr_epoch_state s = Some es" "t2_epoch t = sd_epoch d"
    and v: "t2_verify (env_crypto env) t (es_verifier es) = Ok ()"
    and safe: "safe_to_timeout t tc d = Ok ()"
    and w: "sd_last_voted_round d \<le> t2_round t" "sr_stored s' = Some (raised (t2_round t) d)"
    using sign_timeout_with_qc_Ok [OF coh ok] by metis
  have "es_epoch es = sd_epoch d"
    using s st by (auto simp: sr_inv_def)
  then show ?thesis
    using st v w safe_to_timeout_Ok(1) [OF safe] by (simp add: log_step_def raised_def)
qed

lemma silent_log_step:
  assumes s: "sr_inv s" and es: "sr_epoch_state s \<noteq> None" and m: "silent m" "m s = (r, s')"
    and e: "\<And>d. entry_accepted d e \<and> entry_recorded d e" "entry_checked env e"
  shows "log_step env s [e] s'"
proof -
  have "sr_coherent s" using s by (simp add: sr_inv_def)
  then have "sr_stored s' = sr_stored s" using silent_snd [OF m(1) _ m(2)] same_stored by blast
  then show ?thesis using s es e by (auto simp: log_step_def sr_inv_def)
qed

lemma commit_vote_epoch_state:
  "guarded_sign_commit_vote env liws li s = (Ok sg, s') \<Longrightarrow> sr_epoch_state s \<noteq> None"
  by (auto simp: guarded_sign_commit_vote_def Let_def bindS_Ok_iff current_epoch_state_def)

lemma proposal_epoch_state:
  assumes "sr_coherent s" "guarded_sign_proposal env bd s = (Ok sg, s')"
  shows "sr_epoch_state s \<noteq> None"
proof -
  obtain d t where d: "on_storage pss_safety_data s = (Ok d, t)" and "verify_qc env (bd_quorum_cert bd) t = Ok ()"
    using assms(2) by (auto simp: guarded_sign_proposal_def bindS_Ok_iff)
  then show ?thesis
    using on_storage_safety_data_Ok(2) [OF assms(1) d] by (auto simp: verify_qc_Ok_iff same_def)
qed

lemma handle_message_log_step:
  assumes s: "sr_inv s" and m: "handle_message env now i s = (r, s')"
  shows "log_step env s (log_of s i r) s'"
proof (cases "is_ok r")
  case False
  then have "log_of s i r = []" by (cases i; cases r; simp)
  then show ?thesis by (simp add: log_step_def)
next
  case True
  then obtain out where r: "r = Ok out" by (auto simp: is_ok_iff)
  have coh: "sr_coherent s" using s by (simp add: sr_inv_def)
  show ?thesis
  proof (cases i)
    case (ConstructAndSignVote mvp)
    then show ?thesis using m vote_log_step [OF s] by (auto simp: r output_as_Ok)
  next
    case (ConstructAndSignVoteTwoChain mvp tc)
    then show ?thesis using m vote_two_chain_log_step [OF s] by (auto simp: r output_as_Ok)
  next
    case (SignTimeout t)
    then show ?thesis using m timeout_log_step [OF s] by (auto simp: r output_as_Ok)
  next
    case (SignTimeoutWithQC t tc)
    then show ?thesis using m timeout2_log_step [OF s] by (auto simp: r output_as_Ok)
  next
    case (SignCommitVote liws li)
    then show ?thesis
      using m silent_log_step [OF s commit_vote_epoch_state silent_handlers(3)] by (auto simp: r output_as_Ok)
  next
    case (SignProposal bd)
    then show ?thesis
      using m silent_log_step [OF s proposal_epoch_state [OF coh] silent_handlers(2)] by (auto simp: r output_as_Ok)
  qed (simp_all add: log_step_def r)
qed

definition log_inv :: "sr_env \<Rightarrow> log_entry list \<Rightarrow> safety_rules \<Rightarrow> bool" where
  "log_inv env log s \<longleftrightarrow> sr_inv s \<and> list_all (entry_checked env) log \<and>
     list_all (\<lambda>e. \<exists>d. sr_stored s = Some d \<and> entry_recorded d e) log \<and> sorted_wrt entry_before log"

lemma log_inv_step:
  assumes inv: "log_inv env log s" and adv: "advances s s'" and step: "log_step env s new s'"
  shows "log_inv env (log @ new) s'"
proof -
  have rec: "list_all (\<lambda>e. \<exists>d. sr_stored s' = Some d \<and> entry_recorded d e) log"
    unfolding list_all_iff
  proof
    fix e assume "e \<in> set log"
    then obtain d where d: "sr_stored s = Some d" "entry_recorded d e"
      using inv by (auto simp: log_inv_def list_all_iff)
    then obtain d' where "sr_stored s' = Some d'" "sd_le d d'"
      using adv by (auto simp: advances_def)
    then show "\<exists>d. sr_stored s' = Some d \<and> entry_recorded d e"
      using entry_recorded_mono d(2) by auto
  qed
  have "list_all (entry_checked env) new \<and>
      list_all (\<lambda>e. \<exists>d. sr_stored s' = Some d \<and> entry_recorded d e) new \<and> sorted_wrt entry_before new \<and>
      (\<forall>x \<in> set log. \<forall>y \<in> set new. entry_before x y)"
  proof (cases "new = []")
    case False
    then obtain e d d' where new: "new = [e]" and d: "sr_stored s = Some d" "entry_accepted d e"
      and d': "sr_stored s' = Some d'" "entry_checked env e" "entry_recorded d' e"
      using step by (auto simp: log_step_def)
    have "entry_before x e" if "x \<in> set log" for x
      using inv that d by (intro recorded_accepted_before [of d]) (auto simp: log_inv_def list_all_iff)
    then show ?thesis using new d' by simp
  qed simp
  then show ?thesis
    using inv rec adv by (auto simp: log_inv_def sorted_wrt_append advances_def)
qed

lemma sr_run_log_inv:
  assumes "sr_run env s0 log s" "sr_inv s0"
  shows "log_inv env log s"
  using assms
proof (induction rule: sr_run.induct)
  case run_start
  then show ?case by (simp add: log_inv_def)
next
  case (run_message log s now i r s')
  then have inv: "log_inv env log s" "sr_inv s" by (simp_all add: log_inv_def)
  show ?case
    using inv(1) handle_message_advances [OF inv(2) run_message(2)] handle_message_log_step [OF inv(2) run_message(2)]
    by (rule log_inv_step)
next
  case (run_restart log s cached verify_vp export s')
  then have inv: "log_inv env log s" "sr_inv s" by (simp_all add: log_inv_def)
  have "log_inv env (log @ []) s'"
    using inv(1) restart_advances [OF inv(2) run_restart(2)] by (rule log_inv_step) (simp add: log_step_def)
  then show ?case by simp
qed

lemma sorted_wrt_pair:
  assumes "sorted_wrt P xs" "x \<in> set xs" "y \<in> set xs"
  shows "x = y \<or> P x y \<or> P y x"
  using assms by (induction xs) auto

lemma vote_entry_unique:
  assumes "sorted_wrt entry_before log" "LVote r1 es1 b1 v1 \<in> set log" "LVote r2 es2 b2 v2 \<in> set log"
    and "es_epoch es1 = es_epoch es2" "blk_round b1 = blk_round b2"
  shows "LVote r1 es1 b1 v1 = LVote r2 es2 b2 v2"
  using sorted_wrt_pair [OF assms(1-3)] assms(4,5) by auto

lemma vote_entries_three_chain:
  assumes "sorted_wrt entry_before log" "LVote r1 es1 b1 v1 \<in> set log" "LVote ThreeChain es2 b2 v2 \<in> set log"
    and "es_epoch es1 = es_epoch es2" "blk_round b1 < blk_round b2"
  shows "bi_round (qc_parent_block (blk_quorum_cert b1)) \<le> bi_round (qc_certified_block (blk_quorum_cert b2))"
  using sorted_wrt_pair [OF assms(1-3)] assms(4,5) by auto

lemma vote_timeout_entries:
  assumes "sorted_wrt entry_before log" "LVote r1 es1 b1 v1 \<in> set log" "LTimeout2 es2 t \<in> set log"
    and "es_epoch es1 = es_epoch es2" "blk_round b1 \<le> t2_round t"
  shows "bi_round (qc_certified_block (blk_quorum_cert b1)) \<le> t2_hqc_round t"
  using sorted_wrt_pair [OF assms(1-3)] assms(4,5) by auto

text \<open>Starting without a last vote, every vote that is released is in the log.\<close>

definition last_vote_logged :: "log_entry list \<Rightarrow> safety_rules \<Rightarrow> bool" where
  "last_vote_logged log s \<longleftrightarrow>
     (\<forall>d v. sr_stored s = Some d \<longrightarrow> sd_last_vote d = Some v \<longrightarrow> (\<exists>rule es b. LVote rule es b v \<in> set log))"

lemma vote_outcome_logged:
  assumes last: "last_vote_logged log s" and st: "sr_stored s = Some d" "sr_epoch_state s = Some es"
    and b: "b = vp_block (mvp_vote_proposal mvp)"
    and v: "repeated_vote b s d v s' \<or> fresh_vote env b vd li s d v s'"
  shows "(\<exists>rule es b. LVote rule es b v \<in> set (log @ log_vote rl s mvp v)) \<and>
    last_vote_logged (log @ log_vote rl s mvp v) s'"
  using v
proof
  assume r: "repeated_vote b s d v s'"
  then have "sr_stored s' = Some d" using same_stored st by (auto simp: repeated_vote_def)
  moreover obtain rule es b where "LVote rule es b v \<in> set log"
    using last st r by (auto simp: last_vote_logged_def repeated_vote_def)
  ultimately show ?thesis
    using r by (auto simp: last_vote_logged_def repeated_vote_def)
next
  assume f: "fresh_vote env b vd li s d v s'"
  then have "log_vote rl s mvp v = [LVote rl es b v]" "sr_stored s' = Some (voted_data b v d)"
    using st b by (auto simp: log_vote_def Let_def fresh_vote_def)
  then show ?thesis by (auto simp: last_vote_logged_def voted_data_def)
qed

lemma last_vote_logged_keeps:
  assumes "last_vote_logged log s"
    and "sr_stored s' = sr_stored s \<or> (\<exists>d'. sr_stored s' = Some d' \<and> sd_last_vote d' = None) \<or>
      (\<exists>d d'. sr_stored s = Some d \<and> sr_stored s' = Some d' \<and> sd_last_vote d' = sd_last_vote d)"
  shows "last_vote_logged (log @ new) s'"
  unfolding last_vote_logged_def
proof (intro allI impI)
  fix d v assume d: "sr_stored s' = Some d" "sd_last_vote d = Some v"
  then obtain d0 where "sr_stored s = Some d0" "sd_last_vote d0 = Some v"
    using assms(2) by (metis option.inject option.distinct(1))
  then show "\<exists>rule es b. LVote rule es b v \<in> set (log @ new)"
    using assms(1) by (fastforce simp: last_vote_logged_def)
qed

definition votes_logged ::
    "log_entry list \<Rightarrow> (sr_error, safety_rules_output) result \<Rightarrow> safety_rules \<Rightarrow> bool" where
  "votes_logged log r s' \<longleftrightarrow> last_vote_logged log s' \<and>
     (\<forall>v. r = Ok (OutVote v) \<longrightarrow> (\<exists>rule es b. LVote rule es b v \<in> set log))"

lemma handle_vote_logged:
  assumes s: "sr_inv s" and last: "last_vote_logged log s"
    and i: "i = ConstructAndSignVote mvp \<or> i = ConstructAndSignVoteTwoChain mvp tc"
    and m: "handle_message env now i s = (r, s')"
  shows "votes_logged (log @ log_of s i r) r s'"
proof -
  let ?b = "vp_block (mvp_vote_proposal mvp)"
  have coh: "sr_coherent s" using s by (simp add: sr_inv_def)
  show ?thesis
  proof (cases "is_ok r")
    case False
    then have "same s s'"
      using i m transactional_fails [OF transactional_construct_and_sign_vote coh]
        transactional_fails [OF transactional_construct_and_sign_vote_two_chain coh] output_as_result by fastforce
    then show ?thesis
      using False last_vote_logged_keeps [OF last] same_stored by (auto simp: votes_logged_def)
  next
    case True
    then obtain v where r: "r = Ok (OutVote v)"
      using i m by (auto simp: is_ok_iff output_as_Ok)
    have "\<exists>d es vd li. sr_stored s = Some d \<and> sr_epoch_state s = Some es \<and>
        (repeated_vote ?b s d v s' \<or> fresh_vote env ?b vd li s d v s')"
      (is "\<exists>d es vd li. ?outcome d es vd li")
      using i
    proof
      assume "i = ConstructAndSignVote mvp"
      then have "guarded_construct_and_sign_vote env now mvp s = (Ok v, s')"
        using m r by (simp add: output_as_Ok)
      from construct_and_sign_vote_Ok [OF coh this] show ?thesis
        unfolding checked_proposal_def Let_def by metis
    next
      assume "i = ConstructAndSignVoteTwoChain mvp tc"
      then have "guarded_construct_and_sign_vote_two_chain env now mvp tc s = (Ok v, s')"
        using m r by (simp add: output_as_Ok)
      from construct_and_sign_vote_two_chain_Ok [OF coh this] show ?thesis
        unfolding checked_proposal_def Let_def by metis
    qed
    then obtain d es vd li where "?outcome d es vd li" by blast
    then have "votes_logged (log @ log_vote rl s mvp v) r s'" for rl
      using vote_outcome_logged [OF last, of d es ?b mvp v s' env vd li rl] by (simp add: votes_logged_def r)
    then show ?thesis using i r by auto
  qed
qed

lemma handle_message_logged:
  assumes s: "sr_inv s" and last: "last_vote_logged log s" and m: "handle_message env now i s = (r, s')"
  shows "votes_logged (log @ log_of s i r) r s'"
proof -
  have coh: "sr_coherent s" using s by (simp add: sr_inv_def)
  note keeps = last_vote_logged_keeps [OF last]
  have other: ?thesis if "\<And>v. r \<noteq> Ok (OutVote v)"
    and "sr_stored s' = sr_stored s \<or> (\<exists>d'. sr_stored s' = Some d' \<and> sd_last_vote d' = None) \<or>
      (\<exists>d d'. sr_stored s = Some d \<and> sr_stored s' = Some d' \<and> sd_last_vote d' = sd_last_vote d)"
    using that keeps by (simp add: votes_logged_def)
  note stored = same_stored [OF silent_snd [OF _ coh]]
  show ?thesis
  proof (cases i)
    case ConsensusState
    then show ?thesis
      using m output_as_result stored [OF silent_handlers(1)] by (intro other) (fastforce simp: output_as_Ok)+
  next
    case (Initialize p)
    then have "initializes s s'"
      using m output_as_result initialize_initializes [OF coh, of env p] by fastforce
    then show ?thesis
      using m Initialize by (intro other) (auto simp: output_as_Ok initializes_def quiet_def empty_safety_data_def)
  next
    case (SignProposal bd)
    then show ?thesis
      using m output_as_result stored [OF silent_handlers(2)] by (intro other) (fastforce simp: output_as_Ok)+
  next
    case (SignTimeout t)
    then have "raises (to_epoch t) (to_round t) s s'"
      using m output_as_result sign_timeout_raises [OF coh, of t env] by fastforce
    then show ?thesis
      using m SignTimeout by (intro other) (auto simp: output_as_Ok raises_def raised_def)
  next
    case (SignTimeoutWithQC t tc)
    then have "raises (t2_epoch t) (t2_round t) s s'"
      using m output_as_result sign_timeout_with_qc_raises [OF coh, of t env tc] by fastforce
    then show ?thesis
      using m SignTimeoutWithQC by (intro other) (auto simp: output_as_Ok raises_def raised_def)
  next
    case (SignCommitVote liws li)
    then show ?thesis
      using m output_as_result stored [OF silent_handlers(3)] by (intro other) (fastforce simp: output_as_Ok)+
  qed (use handle_vote_logged [OF s last _ m] in auto)
qed

lemma sr_run_logged:
  assumes "sr_run env s0 log s" "sr_inv s0" "last_vote_logged [] s0"
  shows "last_vote_logged log s"
  using assms
proof (induction rule: sr_run.induct)
  case run_start
  then show ?case by simp
next
  case (run_message log s now i r s')
  then show ?case
    using handle_message_logged sr_run_log_inv by (metis log_inv_def votes_logged_def)
next
  case (run_restart log s cached verify_vp export s')
  then have "sr_stored s' = sr_stored s"
    by (auto simp: safety_rules_new_def bind_res_Ok_iff stored_safety_data_def pss_new_def)
  then show ?case
    using run_restart by (simp add: last_vote_logged_def)
qed

section \<open>Properties\<close>

text \<open>C5: Safety data never moves back. Over every sequence of messages and restarts, whatever each
  message's outcome, the stored safety data of a validator moves to a later epoch or keeps its
  epoch with no round decreasing, and its rounds stay ordered: preferred round, one-chain round,
  last voted round.\<close>

theorem safety_data_monotone:
  assumes "sr_run env s0 log s" "sr_inv s0" "sr_stored s0 = Some d"
  shows "\<exists>d'. sr_stored s = Some d' \<and> sd_le d d' \<and> sd_wf d'"
  using sr_run_advances [OF assms(1,2)] assms(3) by (auto simp: advances_def sr_inv_def)

lemma start_inv:
  "sr_inv (rules_with (empty_safety_data 1))" "last_vote_logged [] (rules_with (empty_safety_data 1))"
  using rules_with_inv [OF empty_safety_data_wf [of 1]] by (simp_all add: empty_safety_data_def last_vote_logged_def)

lemma first_run:
  "sr_run toy_env (rules_with (empty_safety_data 1)) [LVote ThreeChain first_epoch_state first_block first_vote]
     (rules_with (voted_data first_block first_vote (empty_safety_data 1)))"
proof -
  let ?s = "rules_with (empty_safety_data 1)"
  have "handle_message toy_env 100 (ConstructAndSignVote first_proposal) ?s =
      (Ok (OutVote first_vote), rules_with (voted_data first_block first_vote (empty_safety_data 1)))"
    using first_vote_signed by (simp add: output_as_def bindS_def ret_def)
  note step = sr_run.run_message [OF sr_run.run_start this]
  have "log_of ?s (ConstructAndSignVote first_proposal) (Ok (OutVote first_vote)) =
      [LVote ThreeChain first_epoch_state first_block first_vote]"
    by (simp add: log_vote_def first_proposal_def already_voted_def empty_safety_data_def Let_def)
      (simp add: rules_with_def already_voted_def)
  then show ?thesis using step by simp
qed

theorem safety_data_monotone_witness:
  "\<exists>d'. sr_stored (rules_with (voted_data first_block first_vote (empty_safety_data 1))) = Some d' \<and>
     sd_le (empty_safety_data 1) d' \<and> sd_wf d'"
  by (rule safety_data_monotone [OF first_run start_inv(1)]) simp

text \<open>C3: A validator votes once per round. In a run that starts without a recorded vote, through any
  messages and restarts and under either protocol, a vote that is released for the epoch and
  round of an earlier vote is that earlier vote.\<close>

theorem one_vote_per_round:
  assumes "sr_run env s0 log s" "sr_inv s0" "last_vote_logged [] s0"
    and "LVote rule es b w \<in> set log" "handle_message env now i s = (Ok (OutVote v), s')"
    and "vote_epoch v = vote_epoch w" "vote_round v = vote_round w"
  shows "v = w"
proof -
  let ?log = "log @ log_of s i (Ok (OutVote v))"
  have run: "sr_run env s0 ?log s'"
    using assms(1,5) by (rule sr_run.run_message)
  have inv: "sr_inv s" "log_inv env ?log s'"
    using sr_run_log_inv [OF assms(1,2)] sr_run_log_inv [OF run assms(2)] by (simp_all add: log_inv_def)
  obtain rule' es' b' where v: "LVote rule' es' b' v \<in> set ?log"
    using handle_message_logged [OF inv(1) sr_run_logged [OF assms(1-3)] assms(5)] by (auto simp: votes_logged_def)
  have w: "LVote rule es b w \<in> set ?log" using assms(4) by simp
  have "entry_checked env (LVote rule' es' b' v)" "entry_checked env (LVote rule es b w)"
    using inv(2) v w unfolding log_inv_def list_all_iff by blast+
  then have "es_epoch es = es_epoch es'" "blk_round b = blk_round b'"
    using assms(6,7) by simp_all
  then show ?thesis
    using vote_entry_unique [OF _ w v] inv(2) by (simp add: log_inv_def)
qed

lemma first_vote_repeated:
  fixes d
  defines "d \<equiv> voted_data first_block first_vote (empty_safety_data 1)"
  shows "handle_message toy_env 100 (ConstructAndSignVote first_proposal) (rules_with d) = (Ok (OutVote first_vote), rules_with d)"
proof -
  have "sd_epoch d = 1" by (simp add: d_def voted_data_def empty_safety_data_def)
  then have vp: "verify_proposal toy_env 100 first_proposal (rules_with d) = (Ok first_vote_data, rules_with d)"
    using verify_proposal_complete first_checked rules_with_ready(1) by blast
  have av: "already_voted d (blk_round (vp_block (mvp_vote_proposal first_proposal))) = Some first_vote"
    by (simp add: already_voted_def d_def voted_data_def first_vote_def vote_new_with_signature_def first_vote_data_def
        first_proposal_def vote_data_ordering_only_def gen_block_info_def)
  show ?thesis
    using vp av storage_ready_read [OF rules_with_ready(1)] rules_with_ready(2)
    by (simp add: output_as_def guarded_construct_and_sign_vote_def Let_def bindS_def reads_def ret_def signer_def)
qed

theorem one_vote_per_round_witness:
  "case fst (handle_message toy_env 100 (ConstructAndSignVote first_proposal)
      (rules_with (voted_data first_block first_vote (empty_safety_data 1)))) of
     Ok (OutVote v) \<Rightarrow> v = first_vote | _ \<Rightarrow> False"
proof -
  have "LVote ThreeChain first_epoch_state first_block first_vote \<in>
      set [LVote ThreeChain first_epoch_state first_block first_vote]" by simp
  from one_vote_per_round [OF first_run start_inv this first_vote_repeated refl refl]
  show ?thesis using first_vote_repeated by simp
qed

end
