(* ===== verification/Consensus_Safety.thy ===== *)
theory Consensus_Safety
  imports Safety_Log
begin

text \<open>
  Agreement. The validators of an epoch run the safety rules of
  \<^verbatim>\<open>consensus/safety-rules/src\<close>; less than a third of the voting power is held by
  validators that may sign anything. Blocks are identified by the block infos that votes name,
  with the parent that the same vote names, so that agreement is on the order and on the executed
  state. The argument from certificates to agreement is made once, in the locale
  \<open>commit_rule\<close>, for any commit rule that locks; the 3-chain rule of
  \<^verbatim>\<open>safety_rules.rs\<close> and the 2-chain rule of \<^verbatim>\<open>safety_rules_2chain.rs\<close> are its two
  interpretations.
\<close>

section \<open>Trees of certified blocks\<close>

locale certified_tree =
  fixes admissible :: "'c \<Rightarrow> bool"
    and cert :: "'c \<Rightarrow> 'b \<Rightarrow> 'b \<Rightarrow> bool"
    and rnd :: "'b \<Rightarrow> nat"
  assumes cert_unique: "admissible c \<Longrightarrow> cert c p b \<Longrightarrow> cert c p' b' \<Longrightarrow> rnd b = rnd b' \<Longrightarrow> p = p' \<and> b = b'"
    and cert_parent: "admissible c \<Longrightarrow> cert c p b \<Longrightarrow> rnd p < rnd b \<and> (rnd p = 0 \<or> (\<exists>q. cert c q p))"
begin

definition extends :: "'c \<Rightarrow> 'b \<Rightarrow> 'b \<Rightarrow> bool" where
  "extends c = (cert c)\<^sup>*\<^sup>*"

lemma extends_step: "extends c b p \<Longrightarrow> cert c p b' \<Longrightarrow> extends c b b'"
  unfolding extends_def by (rule rtranclp.rtrancl_into_rtrancl)

lemma extends_round:
  assumes "admissible c" "extends c b b'"
  shows "b = b' \<or> rnd b < rnd b'"
  using assms(2) unfolding extends_def
proof (induction rule: rtranclp_induct)
  case (step p b')
  then show ?case using cert_parent [OF assms(1)] by fastforce
qed simp

end

text \<open>
  A commit rule: \<open>commit c b0 bk\<close> says that the certificate of \<open>bk\<close> commits \<open>b0\<close>. Up to \<open>bk\<close>
  certified blocks extend \<open>b0\<close>, and above it they have parents that are not below \<open>b0\<close>.
\<close>

locale commit_rule = certified_tree admissible cert rnd
  for admissible :: "'c \<Rightarrow> bool" and cert :: "'c \<Rightarrow> 'b \<Rightarrow> 'b \<Rightarrow> bool" and rnd :: "'b \<Rightarrow> nat" +
  fixes commit :: "'c \<Rightarrow> 'b \<Rightarrow> 'b \<Rightarrow> bool"
  assumes commit_certified: "admissible c \<Longrightarrow> commit c b0 bk \<Longrightarrow> 0 < rnd b0 \<and> (\<exists>q. cert c q b0)"
    and commit_chain:
      "admissible c \<Longrightarrow> commit c b0 bk \<Longrightarrow> cert c p b \<Longrightarrow> rnd b0 \<le> rnd b \<Longrightarrow> rnd b \<le> rnd bk \<Longrightarrow> extends c b0 b"
    and commit_locks:
      "admissible c \<Longrightarrow> commit c b0 bk \<Longrightarrow> cert c p b \<Longrightarrow> rnd bk < rnd b \<Longrightarrow> rnd b0 \<le> rnd p"
begin

lemma certified_extends:
  assumes adm: "admissible c" and commit: "commit c b0 bk"
  shows "cert c p b \<Longrightarrow> rnd b0 \<le> rnd b \<Longrightarrow> extends c b0 b"
proof (induction "rnd b" arbitrary: p b rule: less_induct)
  case less
  show ?case
  proof (cases "rnd b \<le> rnd bk")
    case True
    then show ?thesis using commit_chain [OF adm commit less.prems] by simp
  next
    case False
    then have le: "rnd b0 \<le> rnd p" using commit_locks [OF adm commit less.prems(1)] by simp
    moreover obtain q where "cert c q p"
      using cert_parent [OF adm less.prems(1)] le commit_certified [OF adm commit] by auto
    moreover have "rnd p < rnd b" using cert_parent [OF adm less.prems(1)] by simp
    ultimately have "extends c b0 p" using less.hyps by blast
    then show ?thesis using less.prems(1) by (rule extends_step)
  qed
qed

lemma agreement:
  assumes "admissible c" "commit c b bk" "commit c b' bk'"
  shows "extends c b b' \<or> extends c b' b"
  using certified_extends [OF assms(1,2)] certified_extends [OF assms(1,3)] commit_certified [OF assms(1)] assms(2,3)
  by (metis nle_le)

lemma agreement_at_round:
  assumes "admissible c" "commit c b bk" "commit c b' bk'" "rnd b = rnd b'"
  shows "b = b'"
  using agreement [OF assms(1-3)] extends_round [OF assms(1)] assms(4) by fastforce

end

section \<open>The setting\<close>

text \<open>
  An epoch as its validators live it: the epoch state, the faulty validators, the log of what each
  validator has signed, and the vote data that occurs in votes and certificates.
\<close>

record bft_config =
  bc_env :: sr_env
  bc_epoch_state :: epoch_state
  bc_byz :: "author_t set"
  bc_logs :: "author_t \<Rightarrow> log_entry list"
  bc_vote_data :: "vote_data set"

abbreviation bc_verifier :: "bft_config \<Rightarrow> validator_verifier" where
  "bc_verifier c \<equiv> es_verifier (bc_epoch_state c)"
abbreviation bc_crypto :: "bft_config \<Rightarrow> consensus_crypto" where
  "bc_crypto c \<equiv> env_crypto (bc_env c)"
abbreviation bc_epoch :: "bft_config \<Rightarrow> u64" where
  "bc_epoch c \<equiv> es_epoch (bc_epoch_state c)"

text \<open>Honest validators run the safety rules, through any messages and restarts.\<close>

definition honest_runs :: "bft_config \<Rightarrow> bool" where
  "honest_runs c \<longleftrightarrow> (\<forall>a. a \<notin> bc_byz c \<longrightarrow> (\<exists>s0 s. sr_inv s0 \<and> sr_run (bc_env c) s0 (bc_logs c a) s))"

text \<open>Signatures are unforgeable: what verifies under an honest key is in the log of its owner.\<close>

definition unforgeable :: "bft_config \<Rightarrow> bool" where
  "unforgeable c \<longleftrightarrow>
     (\<forall>a pk. a \<notin> bc_byz c \<longrightarrow> get_public_key (bc_verifier c) a = Some pk \<longrightarrow>
        (\<forall>li sg. sig_verify (cc_li_sigs (bc_crypto c)) pk li sg \<longrightarrow>
           (\<exists>rule es b v. LVote rule es b v \<in> set (bc_logs c a) \<and> vote_ledger_info v = li) \<or>
           LCommitVote li \<in> set (bc_logs c a)) \<and>
        (\<forall>m sg. sig_verify (cc_timeout2_sigs (bc_crypto c)) pk m sg \<longrightarrow>
           (\<exists>es t. LTimeout2 es t \<in> set (bc_logs c a) \<and> signing_format t = m)))"

text \<open>No commit votes of decoupled execution are among the signed ledger infos.\<close>

definition no_commit_votes :: "bft_config \<Rightarrow> bool" where
  "no_commit_votes c \<longleftrightarrow> (\<forall>a li. a \<notin> bc_byz c \<longrightarrow> LCommitVote li \<notin> set (bc_logs c a))"

text \<open>Honest validators adopt one epoch state for the epoch, as epoch change proofs guarantee.\<close>

definition one_epoch_state :: "bft_config \<Rightarrow> bool" where
  "one_epoch_state c \<longleftrightarrow> (\<forall>a rule es b v. a \<notin> bc_byz c \<longrightarrow>
     LVote rule es b v \<in> set (bc_logs c a) \<longrightarrow> es_epoch es = bc_epoch c \<longrightarrow> es = bc_epoch_state c)"

text \<open>The vote data of honest votes and of the certificates they extend is among the vote data on
  which the hash function has no collision; maps of signatures are maps.\<close>

definition collision_free :: "bft_config \<Rightarrow> bool" where
  "collision_free c \<longleftrightarrow> inj_on (cc_hash_vote_data (bc_crypto c)) (bc_vote_data c) \<and>
     (\<forall>a rule es b v. a \<notin> bc_byz c \<longrightarrow> LVote rule es b v \<in> set (bc_logs c a) \<longrightarrow>
        vote_vote_data v \<in> bc_vote_data c \<and> qc_vote_data (blk_quorum_cert b) \<in> bc_vote_data c)"

definition typed_messages :: "bft_config \<Rightarrow> bool" where
  "typed_messages c \<longleftrightarrow> (\<forall>a rule es b v. a \<notin> bc_byz c \<longrightarrow> LVote rule es b v \<in> set (bc_logs c a) \<longrightarrow>
     bt_wf (ls_signatures (qc_signed_ledger_info (blk_quorum_cert b))) \<and>
     (case rule of TwoChain (Some tc) \<Rightarrow> bt_wf (tc2_signatures tc) | _ \<Rightarrow> True))"

definition bft_setting :: "bft_config \<Rightarrow> bool" where
  "bft_setting c \<longleftrightarrow> byzantine_bound (bc_verifier c) (bc_byz c) \<and> batch_sound (cc_li_sigs (bc_crypto c)) \<and>
     honest_runs c \<and> unforgeable c \<and> no_commit_votes c \<and> one_epoch_state c \<and> collision_free c \<and> typed_messages c"

text \<open>A certificate that a validator of the epoch accepts, other than the genesis certificate.\<close>

definition valid_qc :: "bft_config \<Rightarrow> quorum_cert \<Rightarrow> bool" where
  "valid_qc c qc \<longleftrightarrow> qc_verify (bc_crypto c) qc (bc_verifier c) = Ok () \<and>
     bt_wf (ls_signatures (qc_signed_ledger_info qc)) \<and> qc_vote_data qc \<in> bc_vote_data c \<and>
     bi_epoch (qc_certified_block qc) = bc_epoch c \<and> bi_round (qc_certified_block qc) \<noteq> 0"

definition certified :: "bft_config \<Rightarrow> block_info \<Rightarrow> block_info \<Rightarrow> bool" where
  "certified c p b \<longleftrightarrow> (\<exists>qc. valid_qc c qc \<and> qc_parent_block qc = p \<and> qc_certified_block qc = b)"

section \<open>Votes behind certificates\<close>

text \<open>The ledger info of a vote commits a block only at the end of a chain of consecutive rounds.\<close>

lemma construct_ledger_info_Ok:
  assumes "construct_ledger_info b h = Ok li"
  shows "li_consensus_data_hash li = h"
    "bi_round (li_commit_info li) \<noteq> 0 \<Longrightarrow>
       li_commit_info li = qc_parent_block (blk_quorum_cert b) \<and>
       unat (bi_round (qc_certified_block (blk_quorum_cert b))) = unat (bi_round (qc_parent_block (blk_quorum_cert b))) + 1 \<and>
       unat (blk_round b) = unat (bi_round (qc_certified_block (blk_quorum_cert b))) + 1"
  using assms
  by (auto simp: construct_ledger_info_def Let_def bind_res_Ok_iff next_round_Ok_iff block_info_empty_def
      split: if_splits)

lemma construct_ledger_info_2chain_Ok:
  assumes "construct_ledger_info_2chain b h = Ok li"
  shows "li_consensus_data_hash li = h"
    "bi_round (li_commit_info li) \<noteq> 0 \<Longrightarrow>
       li_commit_info li = qc_certified_block (blk_quorum_cert b) \<and>
       unat (blk_round b) = unat (bi_round (qc_certified_block (blk_quorum_cert b))) + 1"
  using assms
  by (auto simp: construct_ledger_info_2chain_def Let_def bind_res_Ok_iff next_round_Ok_iff block_info_empty_def
      split: if_splits)

lemma honest_log:
  assumes "bft_setting c" "a \<notin> bc_byz c"
  shows "list_all (entry_checked (bc_env c)) (bc_logs c a)" "sorted_wrt entry_before (bc_logs c a)"
  using assms sr_run_log_inv by (auto simp: bft_setting_def honest_runs_def log_inv_def)

text \<open>A vote of an honest validator in the epoch for vote data.\<close>

definition voted :: "bft_config \<Rightarrow> author_t \<Rightarrow> voting_rule \<Rightarrow> block \<Rightarrow> vote \<Rightarrow> bool" where
  "voted c a rule b v \<longleftrightarrow> a \<notin> bc_byz c \<and> LVote rule (bc_epoch_state c) b v \<in> set (bc_logs c a)"

lemma voted_checked:
  assumes "bft_setting c" "voted c a rule b v"
  shows "entry_checked (bc_env c) (LVote rule (bc_epoch_state c) b v)"
  using honest_log(1) [OF assms(1)] assms(2) unfolding voted_def list_all_iff by blast

lemma valid_qc_voters:
  assumes c: "bft_setting c" and qc: "valid_qc c qc"
  obtains Q where "is_quorum (bc_verifier c) Q"
    "\<forall>a \<in> Q - bc_byz c.
      \<exists>rule b v. voted c a rule b v \<and> vote_vote_data v = qc_vote_data qc \<and> vote_ledger_info v = qc_ledger_info qc"
proof -
  let ?ls = "qc_signed_ledger_info qc"
  have ver: "qc_verify (bc_crypto c) qc (bc_verifier c) = Ok ()" and wf: "bt_wf (ls_signatures ?ls)"
    and vd: "qc_vote_data qc \<in> bc_vote_data c" and ep: "bi_epoch (qc_certified_block qc) = bc_epoch c"
    and nz: "bi_round (qc_certified_block qc) \<noteq> 0"
    using qc by (auto simp: valid_qc_def)
  have signed: "quorum_signed (cc_ledger (bc_crypto c)) (bc_verifier c) ?ls"
    using qc_verify_signed [OF ver _ nz] c by (simp add: bft_setting_def)
  have hash: "li_consensus_data_hash (qc_ledger_info qc) = cc_hash_vote_data (bc_crypto c) (qc_vote_data qc)"
    using ver by (simp add: qc_verify_Ok_iff)
  show thesis
  proof (rule that)
    show "is_quorum (bc_verifier c) (set (bt_keys (ls_signatures ?ls)))"
      by (rule quorum_signed_is_quorum [OF signed wf])
    show "\<forall>a \<in> set (bt_keys (ls_signatures ?ls)) - bc_byz c. \<exists>rule b v. voted c a rule b v \<and>
        vote_vote_data v = qc_vote_data qc \<and> vote_ledger_info v = qc_ledger_info qc"
    proof (rule ballI)
      fix a assume "a \<in> set (bt_keys (ls_signatures ?ls)) - bc_byz c"
      then have a: "a \<in> set (bt_keys (ls_signatures ?ls))" and honest: "a \<notin> bc_byz c" by auto
      obtain pk sg where "get_public_key (bc_verifier c) a = Some pk"
        "sig_verify (cc_li_sigs (bc_crypto c)) pk (qc_ledger_info qc) sg"
        using quorum_signed_author [OF signed a] .
      then obtain rule es b v where v: "LVote rule es b v \<in> set (bc_logs c a)" "vote_ledger_info v = qc_ledger_info qc"
        using c honest unfolding bft_setting_def unforgeable_def no_commit_votes_def by metis
      have chk: "entry_checked (bc_env c) (LVote rule es b v)"
        using honest_log(1) [OF c honest] v(1) unfolding list_all_iff by blast
      then have "cc_hash_vote_data (bc_crypto c) (vote_vote_data v) = cc_hash_vote_data (bc_crypto c) (qc_vote_data qc)"
        using v(2) hash construct_ledger_info_Ok(1) construct_ledger_info_2chain_Ok(1)
        by (fastforce split: voting_rule.splits)
      then have eq: "vote_vote_data v = qc_vote_data qc"
        using c honest v(1) vd unfolding bft_setting_def collision_free_def inj_on_def by metis
      then have "es = bc_epoch_state c"
        using chk ep c honest v(1) unfolding bft_setting_def one_epoch_state_def by simp metis
      then show "\<exists>rule b v. voted c a rule b v \<and> vote_vote_data v = qc_vote_data qc \<and> vote_ledger_info v = qc_ledger_info qc"
        using v eq honest unfolding voted_def by blast
    qed
  qed
qed

text \<open>Two certificates of the epoch share an honest voter.\<close>

lemma share_voter:
  assumes c: "bft_setting c" and qc: "valid_qc c qc1" "valid_qc c qc2"
  obtains a r1 b1 v1 r2 b2 v2 where
    "voted c a r1 b1 v1" "vote_vote_data v1 = qc_vote_data qc1" "vote_ledger_info v1 = qc_ledger_info qc1"
    "voted c a r2 b2 v2" "vote_vote_data v2 = qc_vote_data qc2" "vote_ledger_info v2 = qc_ledger_info qc2"
proof -
  obtain Q1 where Q1: "is_quorum (bc_verifier c) Q1"
    "\<forall>a \<in> Q1 - bc_byz c. \<exists>rule b v. voted c a rule b v \<and>
      vote_vote_data v = qc_vote_data qc1 \<and> vote_ledger_info v = qc_ledger_info qc1"
    using valid_qc_voters [OF c qc(1)] .
  obtain Q2 where Q2: "is_quorum (bc_verifier c) Q2"
    "\<forall>a \<in> Q2 - bc_byz c. \<exists>rule b v. voted c a rule b v \<and>
      vote_vote_data v = qc_vote_data qc2 \<and> vote_ledger_info v = qc_ledger_info qc2"
    using valid_qc_voters [OF c qc(2)] .
  obtain a where "a \<in> Q1" "a \<in> Q2" "a \<notin> bc_byz c"
    using vq.share [of "(bc_verifier c, bc_byz c)" Q1 Q2] c Q1(1) Q2(1) by (auto simp: bft_setting_def)
  then show thesis
    using Q1(2) Q2(2) that by (metis Diff_iff)
qed

lemma honest_voter:
  assumes "bft_setting c" "valid_qc c qc"
  obtains a rule b v where "voted c a rule b v" "vote_vote_data v = qc_vote_data qc"
    "vote_ledger_info v = qc_ledger_info qc"
  using share_voter [OF assms assms(2)] by metis

text \<open>What an honest vote says: the block it is for, its parent, and the parent's certificate.\<close>

lemma voted_facts:
  assumes c: "bft_setting c" and v: "voted c a rule b v"
  shows "blk_round b = vote_round v" "qc_certified_block (blk_quorum_cert b) = vd_parent (vote_vote_data v)"
    "bi_round (vd_parent (vote_vote_data v)) < vote_round v"
    "bi_round (vd_parent (vote_vote_data v)) \<noteq> 0 \<Longrightarrow> valid_qc c (blk_quorum_cert b)"
    "bi_round (qc_parent_block (blk_quorum_cert b)) \<le> bi_round (vd_parent (vote_vote_data v))"
proof -
  have chk: "entry_checked (bc_env c) (LVote rule (bc_epoch_state c) b v)"
    by (rule voted_checked [OF c v])
  have honest: "a \<notin> bc_byz c" "LVote rule (bc_epoch_state c) b v \<in> set (bc_logs c a)"
    using v by (auto simp: voted_def)
  have "qc_vote_data (blk_quorum_cert b) \<in> bc_vote_data c"
    "bt_wf (ls_signatures (qc_signed_ledger_info (blk_quorum_cert b)))"
    using c honest unfolding bft_setting_def collision_free_def typed_messages_def by blast+
  then show "bi_round (vd_parent (vote_vote_data v)) \<noteq> 0 \<Longrightarrow> valid_qc c (blk_quorum_cert b)"
    using chk by (simp add: valid_qc_def)
  show "blk_round b = vote_round v" "qc_certified_block (blk_quorum_cert b) = vd_parent (vote_vote_data v)"
    "bi_round (vd_parent (vote_vote_data v)) < vote_round v"
    using chk by simp_all
  show "bi_round (qc_parent_block (blk_quorum_cert b)) \<le> bi_round (vd_parent (vote_vote_data v))"
    using chk qc_verify_parent_le by auto
qed

lemma certified_unique:
  assumes c: "bft_setting c" and "certified c p b" "certified c p' b'" "unat (bi_round b) = unat (bi_round b')"
  shows "p = p' \<and> b = b'"
proof -
  obtain qc qc' where qc: "valid_qc c qc" "qc_parent_block qc = p" "qc_certified_block qc = b"
    and qc': "valid_qc c qc'" "qc_parent_block qc' = p'" "qc_certified_block qc' = b'"
    using assms(2,3) unfolding certified_def by metis
  obtain a r1 b1 v1 r2 b2 v2 where v1: "voted c a r1 b1 v1" "vote_vote_data v1 = qc_vote_data qc"
    and v2: "voted c a r2 b2 v2" "vote_vote_data v2 = qc_vote_data qc'"
    using share_voter [OF c qc(1) qc'(1)] by metis
  have "blk_round b1 = blk_round b2"
    using voted_facts(1) [OF c v1(1)] voted_facts(1) [OF c v2(1)] v1(2) v2(2) qc(3) qc'(3) assms(4) by (simp add: word_unat_eq_iff)
  then have "v1 = v2"
    using vote_entry_unique [OF honest_log(2) [OF c]] v1(1) v2(1) unfolding voted_def by blast
  then show ?thesis using v1(2) v2(2) qc qc' by simp
qed

lemma certified_parent:
  assumes c: "bft_setting c" and "certified c p b"
  shows "unat (bi_round p) < unat (bi_round b) \<and> (unat (bi_round p) = 0 \<or> (\<exists>q. certified c q p))"
proof -
  obtain qc where qc: "valid_qc c qc" "qc_parent_block qc = p" "qc_certified_block qc = b"
    using assms(2) unfolding certified_def by metis
  obtain a rule blk v where v: "voted c a rule blk v" "vote_vote_data v = qc_vote_data qc"
    using honest_voter [OF c qc(1)] by metis
  note f = voted_facts [OF c v(1), unfolded v(2) qc]
  have "certified c (qc_parent_block (blk_quorum_cert blk)) p" if "bi_round p \<noteq> 0"
    using f(2,4) that unfolding certified_def by blast
  then show ?thesis
    using f(3) by (auto simp: word_less_nat_alt unat_eq_0)
qed

abbreviation bi_rnd :: "block_info \<Rightarrow> nat" where
  "bi_rnd b \<equiv> unat (bi_round b)"

interpretation ct: certified_tree bft_setting certified bi_rnd
  using certified_unique certified_parent by unfold_locales blast+

section \<open>The 3-chain rule\<close>

definition extends_block :: "bft_config \<Rightarrow> block_info \<Rightarrow> block_info \<Rightarrow> bool" where
  "extends_block c = (certified c)\<^sup>*\<^sup>*"

text \<open>All votes of honest validators in the epoch are cast by \<open>construct_and_sign_vote\<close>.\<close>

definition three_chain :: "bft_config \<Rightarrow> bool" where
  "three_chain c \<longleftrightarrow> (\<forall>a rule b v. voted c a rule b v \<longrightarrow> rule = ThreeChain)"

definition commit3 :: "bft_config \<Rightarrow> block_info \<Rightarrow> block_info \<Rightarrow> bool" where
  "commit3 c b0 b2 \<longleftrightarrow> bi_rnd b0 \<noteq> 0 \<and>
     (\<exists>b1. certified c b0 b1 \<and> certified c b1 b2 \<and> bi_rnd b1 = bi_rnd b0 + 1 \<and> bi_rnd b2 = bi_rnd b1 + 1)"

lemma commit3_locks:
  assumes c: "bft_setting c" "three_chain c" and commit: "commit3 c b0 b2" and b: "certified c p b"
    and later: "bi_rnd b2 < bi_rnd b"
  shows "bi_rnd b0 \<le> bi_rnd p"
proof -
  obtain b1 qc2 qc where cert: "certified c b0 b1" and r1: "bi_rnd b1 \<noteq> 0" and qc2: "valid_qc c qc2"
    "qc_parent_block qc2 = b1" "qc_certified_block qc2 = b2"
    and qc: "valid_qc c qc" "qc_parent_block qc = p" "qc_certified_block qc = b"
    using commit b unfolding commit3_def certified_def by (metis add_is_0 one_neq_zero)
  obtain a rl2 blk2 v2 rl blk v where v2: "voted c a rl2 blk2 v2" "vote_vote_data v2 = qc_vote_data qc2"
    and v: "voted c a rl blk v" "vote_vote_data v = qc_vote_data qc"
    using share_voter [OF c(1) qc2(1) qc(1)] by metis
  note f2 = voted_facts [OF c(1) v2(1), unfolded v2(2) qc2] and f = voted_facts [OF c(1) v(1), unfolded v(2) qc]
  have "rl = ThreeChain" using c(2) v(1) by (auto simp: three_chain_def)
  then have "bi_round (qc_parent_block (blk_quorum_cert blk2)) \<le> bi_round p"
    using vote_entries_three_chain [OF honest_log(2) [OF c(1)], of a rl2 "bc_epoch_state c" blk2 v2 "bc_epoch_state c" blk v]
      v2(1) v(1) f2(1) f(1,2) later by (simp add: voted_def word_less_nat_alt)
  moreover have "certified c (qc_parent_block (blk_quorum_cert blk2)) b1"
    using f2(2,4) r1 unfolding certified_def by (metis unat_eq_0)
  then have "qc_parent_block (blk_quorum_cert blk2) = b0"
    using ct.cert_unique [OF c(1) _ cert] by simp
  ultimately show ?thesis by (simp add: word_le_nat_alt)
qed

lemma commit3_chain:
  assumes c: "bft_setting c" and commit: "commit3 c b0 b2" and b: "certified c p b"
    and r: "bi_rnd b0 \<le> bi_rnd b" "bi_rnd b \<le> bi_rnd b2"
  shows "ct.extends c b0 b"
proof -
  obtain b1 where b1: "certified c b0 b1" "certified c b1 b2" "bi_rnd b1 = bi_rnd b0 + 1" "bi_rnd b2 = bi_rnd b1 + 1"
    and nz: "bi_rnd b0 \<noteq> 0"
    using commit by (auto simp: commit3_def)
  obtain q where q: "certified c q b0" using ct.cert_parent [OF c b1(1)] nz by auto
  have refl: "ct.extends c b0 b0" by (simp add: ct.extends_def)
  consider "bi_rnd b = bi_rnd b0" | "bi_rnd b = bi_rnd b1" | "bi_rnd b = bi_rnd b2" using r b1 by linarith
  then show ?thesis
    using ct.cert_unique [OF c b q] ct.cert_unique [OF c b b1(1)] ct.cert_unique [OF c b b1(2)] refl
      ct.extends_step [OF refl b1(1)] ct.extends_step [OF _ b1(2)] by metis
qed

lemma commit3_certified:
  assumes "bft_setting c" "commit3 c b0 bk"
  shows "0 < bi_rnd b0 \<and> (\<exists>q. certified c q b0)"
  using assms ct.cert_parent unfolding commit3_def by (metis gr0I)

interpretation c3: commit_rule "\<lambda>c. bft_setting c \<and> three_chain c" certified bi_rnd commit3
proof unfold_locales
  fix c p b p' b' assume "bft_setting c \<and> three_chain c" "certified c p b" "certified c p' b'" "bi_rnd b = bi_rnd b'"
  then show "p = p' \<and> b = b'" using ct.cert_unique by blast
next
  fix c p b assume "bft_setting c \<and> three_chain c" "certified c p b"
  then show "bi_rnd p < bi_rnd b \<and> (bi_rnd p = 0 \<or> (\<exists>q. certified c q p))" using ct.cert_parent by blast
next
  fix c b0 bk assume "bft_setting c \<and> three_chain c" "commit3 c b0 bk"
  then show "0 < bi_rnd b0 \<and> (\<exists>q. certified c q b0)" using commit3_certified by blast
next
  fix c b0 bk p b assume "bft_setting c \<and> three_chain c" "commit3 c b0 bk" "certified c p b" "bi_rnd bk < bi_rnd b"
  then show "bi_rnd b0 \<le> bi_rnd p" using commit3_locks by blast
next
  fix c b0 bk p b assume "bft_setting c \<and> three_chain c" "commit3 c b0 bk" "certified c p b"
    "bi_rnd b0 \<le> bi_rnd b" "bi_rnd b \<le> bi_rnd bk"
  then show "certified_tree.extends certified c b0 b" using commit3_chain by blast
qed

section \<open>The 2-chain rule\<close>

text \<open>All votes of honest validators in the epoch are cast by \<open>construct_and_sign_vote_two_chain\<close>,
  with timeout certificates of the epoch.\<close>

definition two_chain :: "bft_config \<Rightarrow> bool" where
  "two_chain c \<longleftrightarrow> (\<forall>a rule b v. voted c a rule b v \<longrightarrow>
     (\<exists>tc. rule = TwoChain tc \<and> (\<forall>t. tc = Some t \<longrightarrow> tc2_epoch t = bc_epoch c)))"

definition commit2 :: "bft_config \<Rightarrow> block_info \<Rightarrow> block_info \<Rightarrow> bool" where
  "commit2 c b0 b1 \<longleftrightarrow> bi_rnd b0 \<noteq> 0 \<and> certified c b0 b1 \<and> bi_rnd b1 = bi_rnd b0 + 1"

text \<open>A signer of a timeout certificate that had voted for a block of a round not above the
  certificate's has reported a certified round not below the parent of that block.\<close>

lemma tc_covers_vote:
  assumes c: "bft_setting c" and qc: "valid_qc c qc" and tc: "tc2_verify (bc_crypto c) tc (bc_verifier c) = Ok ()"
    and wf: "bt_wf (tc2_signatures tc)" and ep: "tc2_epoch tc = bc_epoch c"
    and r: "bi_round (qc_certified_block qc) \<le> tc2_round tc"
  shows "bi_round (qc_parent_block qc) \<le> tc2_highest_hqc_round tc"
proof -
  obtain Q where Q: "is_quorum (bc_verifier c) Q"
    "\<forall>a \<in> Q - bc_byz c. \<exists>rule b v. voted c a rule b v \<and>
      vote_vote_data v = qc_vote_data qc \<and> vote_ledger_info v = qc_ledger_info qc"
    using valid_qc_voters [OF c qc] .
  have "is_quorum (bc_verifier c) (set (bt_keys (tc2_signatures tc)))"
    using tc bt_wf_distinct [OF wf] unfolding tc2_verify_Ok_iff is_quorum_def by blast
  then obtain a where a: "a \<in> Q" "a \<in> set (bt_keys (tc2_signatures tc))" "a \<notin> bc_byz c"
    using vq.share [of "(bc_verifier c, bc_byz c)" Q] c Q(1) by (fastforce simp: bft_setting_def)
  obtain q sg where sg: "(a, q, sg) \<in> set (tc2_signatures tc)" using a(2) by force
  let ?m = "\<lparr>tsr_epoch = tc2_epoch tc, tsr_round = tc2_round tc, tsr_hqc_round = q\<rparr>"
  obtain pk where "get_public_key (bc_verifier c) a = Some pk" "sig_verify (cc_timeout2_sigs (bc_crypto c)) pk ?m sg"
    using tc sg unfolding tc2_verify_Ok_iff verify_Ok_iff by blast
  then obtain es t where t: "LTimeout2 es t \<in> set (bc_logs c a)" "signing_format t = ?m"
    using c a(3) unfolding bft_setting_def unforgeable_def by metis
  obtain rule b v where v: "voted c a rule b v" "vote_vote_data v = qc_vote_data qc"
    using Q(2) a by blast
  have "entry_checked (bc_env c) (LTimeout2 es t)"
    using honest_log(1) [OF c a(3)] t(1) unfolding list_all_iff by blast
  then have "es_epoch es = bc_epoch c" "t2_round t = tc2_round tc" "t2_hqc_round t = q"
    using t(2) ep by (simp_all add: signing_format_def)
  then have "bi_round (qc_certified_block (blk_quorum_cert b)) \<le> q"
    using vote_timeout_entries [OF honest_log(2) [OF c a(3)] _ t(1), of rule "bc_epoch_state c" b v]
      v r voted_facts(1) [OF c v(1)] by (simp add: voted_def)
  then show ?thesis
    using tc2_signer_le [OF tc sg] voted_facts(2) [OF c v(1)] v(2) by simp
qed

lemma commit2_locks:
  assumes c: "bft_setting c" "two_chain c" and commit: "commit2 c b0 b1" and b: "certified c p b"
    and later: "bi_rnd b1 < bi_rnd b"
  shows "bi_rnd b0 \<le> bi_rnd p"
proof -
  obtain qc1 qc where qc1: "valid_qc c qc1" "qc_parent_block qc1 = b0" "qc_certified_block qc1 = b1"
    and qc: "valid_qc c qc" "qc_parent_block qc = p" "qc_certified_block qc = b"
    using commit b unfolding commit2_def certified_def by metis
  have r1: "bi_rnd b1 = bi_rnd b0 + 1" using commit by (simp add: commit2_def)
  obtain a rule blk v where v: "voted c a rule blk v" "vote_vote_data v = qc_vote_data qc"
    using honest_voter [OF c(1) qc(1)] by metis
  note f = voted_facts [OF c(1) v(1), unfolded v(2) qc]
  obtain mtc where rule: "rule = TwoChain mtc" "\<forall>t. mtc = Some t \<longrightarrow> tc2_epoch t = bc_epoch c"
    using c(2) v(1) by (metis two_chain_def)
  have chk: "safe_to_vote blk mtc = Ok ()"
    "when_some mtc (\<lambda>t. tc2_verify (bc_crypto c) t (bc_verifier c)) = Ok ()"
    using voted_checked [OF c(1) v(1)] rule(1) by simp_all
  consider (direct) "bi_rnd b = bi_rnd p + 1"
    | (tc) "bi_rnd b = unat (tc_round_or_zero mtc) + 1" "tc_hqc_round_or_zero mtc \<le> bi_round p"
    using safe_to_vote_Ok [OF chk(1)] f(1,2) by auto
  then show ?thesis
  proof cases
    case direct
    then show ?thesis using later r1 by linarith
  next
    case tc
    then obtain t where t: "mtc = Some t" using later r1 by (cases mtc) (auto simp: tc_round_or_zero_def)
    have "bt_wf (tc2_signatures t)"
      using c(1) v(1) rule(1) t unfolding bft_setting_def typed_messages_def voted_def by fastforce
    moreover have "bi_round b1 \<le> tc2_round t"
      using tc(1) later t by (simp add: word_le_nat_alt tc_round_or_zero_def)
    ultimately have "bi_round b0 \<le> tc2_highest_hqc_round t"
      using tc_covers_vote [OF c(1) qc1(1)] chk(2) rule(2) t qc1(2,3) by simp
    then show ?thesis
      using tc(2) t by (simp add: word_le_nat_alt tc_hqc_round_or_zero_def)
  qed
qed

lemma commit2_chain:
  assumes c: "bft_setting c" and commit: "commit2 c b0 b1" and b: "certified c p b"
    and r: "bi_rnd b0 \<le> bi_rnd b" "bi_rnd b \<le> bi_rnd b1"
  shows "ct.extends c b0 b"
proof -
  have b1: "certified c b0 b1" "bi_rnd b1 = bi_rnd b0 + 1" and nz: "bi_rnd b0 \<noteq> 0"
    using commit by (auto simp: commit2_def)
  obtain q where q: "certified c q b0" using ct.cert_parent [OF c b1(1)] nz by auto
  have refl: "ct.extends c b0 b0" by (simp add: ct.extends_def)
  consider "bi_rnd b = bi_rnd b0" | "bi_rnd b = bi_rnd b1" using r b1 by linarith
  then show ?thesis
    using ct.cert_unique [OF c b q] ct.cert_unique [OF c b b1(1)] refl ct.extends_step [OF refl b1(1)] by metis
qed

lemma commit2_certified:
  assumes "bft_setting c" "commit2 c b0 bk"
  shows "0 < bi_rnd b0 \<and> (\<exists>q. certified c q b0)"
  using assms ct.cert_parent unfolding commit2_def by (metis gr0I)

interpretation c2: commit_rule "\<lambda>c. bft_setting c \<and> two_chain c" certified bi_rnd commit2
proof unfold_locales
  fix c p b p' b' assume "bft_setting c \<and> two_chain c" "certified c p b" "certified c p' b'" "bi_rnd b = bi_rnd b'"
  then show "p = p' \<and> b = b'" using ct.cert_unique by blast
next
  fix c p b assume "bft_setting c \<and> two_chain c" "certified c p b"
  then show "bi_rnd p < bi_rnd b \<and> (bi_rnd p = 0 \<or> (\<exists>q. certified c q p))" using ct.cert_parent by blast
next
  fix c b0 bk assume "bft_setting c \<and> two_chain c" "commit2 c b0 bk"
  then show "0 < bi_rnd b0 \<and> (\<exists>q. certified c q b0)" using commit2_certified by blast
next
  fix c b0 bk p b assume "bft_setting c \<and> two_chain c" "commit2 c b0 bk" "certified c p b" "bi_rnd bk < bi_rnd b"
  then show "bi_rnd b0 \<le> bi_rnd p" using commit2_locks by blast
next
  fix c b0 bk p b assume "bft_setting c \<and> two_chain c" "commit2 c b0 bk" "certified c p b"
    "bi_rnd b0 \<le> bi_rnd b" "bi_rnd b \<le> bi_rnd bk"
  then show "certified_tree.extends certified c b0 b" using commit2_chain by blast
qed

section \<open>Committed blocks\<close>

text \<open>A block is committed when a valid certificate's ledger info names it as its commit info.\<close>

definition committed :: "bft_config \<Rightarrow> block_info \<Rightarrow> bool" where
  "committed c b \<longleftrightarrow> bi_round b \<noteq> 0 \<and> (\<exists>qc. valid_qc c qc \<and> qc_commit_info qc = b)"

lemma committed_commit3:
  assumes c: "bft_setting c" "three_chain c" and b: "committed c b"
  shows "\<exists>b2. commit3 c b b2"
proof -
  obtain qc where qc: "valid_qc c qc" and nz: "bi_round (qc_commit_info qc) \<noteq> 0" "qc_commit_info qc = b"
    using b by (auto simp: committed_def)
  obtain a rule blk v where v: "voted c a rule blk v" "vote_vote_data v = qc_vote_data qc"
    "vote_ledger_info v = qc_ledger_info qc"
    using honest_voter [OF c(1) qc] by metis
  note f = voted_facts [OF c(1) v(1)]
  have "rule = ThreeChain" using c(2) v(1) by (auto simp: three_chain_def)
  then have "construct_ledger_info blk (cc_hash_vote_data (bc_crypto c) (vote_vote_data v)) = Ok (qc_ledger_info qc)"
    using voted_checked [OF c(1) v(1)] v(3) by simp
  note li = construct_ledger_info_Ok(2) [OF this nz(1)]
  have nz1: "bi_round (vd_parent (vote_vote_data v)) \<noteq> 0" using li f(2) by auto
  have "certified c b (qc_parent_block qc)"
    unfolding certified_def using f(2) f(4) [OF nz1] v(2) nz(2) li by (intro exI [of _ "blk_quorum_cert blk"]) auto
  moreover have "certified c (qc_parent_block qc) (qc_certified_block qc)"
    using qc unfolding certified_def by blast
  ultimately show ?thesis
    using li nz f(1,2) v(2) unfolding commit3_def by (intro exI [of _ "qc_certified_block qc"] conjI exI [of _ "qc_parent_block qc"])
      (auto simp: unat_eq_0)
qed

lemma committed_commit2:
  assumes c: "bft_setting c" "two_chain c" and b: "committed c b"
  shows "\<exists>b1. commit2 c b b1"
proof -
  obtain qc where qc: "valid_qc c qc" and nz: "bi_round (qc_commit_info qc) \<noteq> 0" "qc_commit_info qc = b"
    using b by (auto simp: committed_def)
  obtain a rule blk v where v: "voted c a rule blk v" "vote_vote_data v = qc_vote_data qc"
    "vote_ledger_info v = qc_ledger_info qc"
    using honest_voter [OF c(1) qc] by metis
  note f = voted_facts [OF c(1) v(1)]
  obtain mtc where "rule = TwoChain mtc"
    using c(2) v(1) by (metis two_chain_def)
  then have "construct_ledger_info_2chain blk (cc_hash_vote_data (bc_crypto c) (vote_vote_data v)) = Ok (qc_ledger_info qc)"
    using voted_checked [OF c(1) v(1)] v(3) by simp
  note li = construct_ledger_info_2chain_Ok(2) [OF this nz(1)]
  have "certified c (qc_parent_block qc) (qc_certified_block qc)"
    using qc unfolding certified_def by blast
  then show ?thesis
    using li nz f(1,2) v(2) unfolding commit2_def by (intro exI [of _ "qc_certified_block qc"]) (auto simp: unat_eq_0)
qed

section \<open>Properties\<close>

text \<open>C1: Agreement of the 3-chain protocol. With less than a third of the voting power faulty,
  unforgeable signatures and no hash collisions among the vote data of the epoch, any two blocks
  that valid certificates of the epoch commit lie on one chain of certified blocks: one extends
  the other. Honest validators vote by \<open>construct_and_sign_vote\<close> and may restart at any time.\<close>

theorem three_chain_agreement:
  assumes "bft_setting c" "three_chain c" "committed c b" "committed c b'"
  shows "extends_block c b b' \<or> extends_block c b' b"
proof -
  obtain b2 b2' where "commit3 c b b2" "commit3 c b' b2'"
    using committed_commit3 [OF assms(1,2)] assms(3,4) by blast
  from c3.agreement [OF _ this] show ?thesis
    using assms(1,2) by (simp add: c3.extends_def extends_block_def)
qed

text \<open>C2: Agreement of the 2-chain protocol. Under the same assumptions, with honest validators
  voting by \<open>construct_and_sign_vote_two_chain\<close> and signing timeouts by \<open>sign_timeout_with_qc\<close>, and
  with timeout certificates of the epoch only, any two committed blocks lie on one chain.\<close>

theorem two_chain_agreement:
  assumes "bft_setting c" "two_chain c" "committed c b" "committed c b'"
  shows "extends_block c b b' \<or> extends_block c b' b"
proof -
  obtain b1 b1' where "commit2 c b b1" "commit2 c b' b1'"
    using committed_commit2 [OF assms(1,2)] assms(3,4) by blast
  from c2.agreement [OF _ this] show ?thesis
    using assms(1,2) by (simp add: c2.extends_def extends_block_def)
qed


end
