(* ===== verification/Consensus_Example.thy ===== *)
theory Consensus_Example
  imports Consensus_Safety
begin

text \<open>
  Runs in which blocks are committed, under both protocols: a validator set of one validator
  that votes in the rounds 1 to 4 of epoch 1 for a chain of blocks. They show that the assumptions
  of the agreement theorems can hold together with commits.
\<close>

section \<open>A chain of blocks\<close>

text \<open>The parameter \<open>three\<close> selects the protocol; the ledger info of round \<open>r\<close> is the one its
  commit rule demands.\<close>

definition ex_bi :: "u64 \<Rightarrow> block_info" where
  "ex_bi r = \<lparr>bi_epoch = 1, bi_round = r, bi_id = ucast r, bi_executed_state_id = accumulator_placeholder_hash,
     bi_version = 0, bi_timestamp_usecs = r, bi_next_epoch_state = None\<rparr>"

definition ex_vd :: "u64 \<Rightarrow> vote_data" where
  "ex_vd r = \<lparr>vd_proposed = ex_bi r, vd_parent = ex_bi (if r = 0 then 0 else r - 1)\<rparr>"

definition ex_li :: "bool \<Rightarrow> u64 \<Rightarrow> ledger_info" where
  "ex_li three r =
     \<lparr>li_commit_info = (if r = 0 then ex_bi 0 else if three then (if r = 1 then block_info_empty else ex_bi (r - 2))
        else ex_bi (r - 1)), li_consensus_data_hash = ucast r\<rparr>"

definition ex_sigs :: "'m sig_ops" where
  "ex_sigs = \<lparr>sig_verify = (\<lambda>_ _ _. True), sig_batch = (\<lambda>_ _. True)\<rparr>"

definition ex_crypto :: "bool \<Rightarrow> consensus_crypto" where
  "ex_crypto three =
     \<lparr>cc_ledger =
        \<lparr>lc_li_sigs = \<lparr>sig_verify = (\<lambda>_ li _. li \<in> {ex_li three 1, ex_li three 2, ex_li three 3, ex_li three 4}),
                       sig_batch = (\<lambda>li _. li \<in> {ex_li three 1, ex_li three 2, ex_li three 3, ex_li three 4})\<rparr>,
         lc_waypoint_hash = l2w_root_hash\<rparr>,
      cc_hash_vote_data = (\<lambda>vd. ucast (bi_round (vd_proposed vd))), cc_hash_block_data = (\<lambda>bd. ucast (bd_round bd)),
      cc_txn_accumulator_hash = (\<lambda>_ _. 9),
      cc_block_sigs = ex_sigs, cc_timeout_sigs = ex_sigs,
      cc_timeout2_sigs = \<lparr>sig_verify = (\<lambda>_ _ _. False), sig_batch = (\<lambda>_ _. False)\<rparr>,
      cc_vote_proposal_sigs = ex_sigs\<rparr>"

definition ex_env :: "bool \<Rightarrow> sr_env" where
  "ex_env three =
     \<lparr>env_crypto = ex_crypto three, env_public_key = (\<lambda>k. k), env_sign_li = (\<lambda>_ _. 0), env_sign_block = (\<lambda>_ _. 0),
      env_sign_timeout = (\<lambda>_ _. 0), env_sign_timeout2 = (\<lambda>_ _. 0)\<rparr>"

definition ex_verifier :: validator_verifier where
  "ex_verifier =
     \<lparr>address_to_validator_info = [(1, \<lparr>vci_public_key = 11, vci_voting_power = 1\<rparr>)],
      quorum_voting_power = 1, total_voting_power = 1\<rparr>"

definition ex_epoch_state :: epoch_state where
  "ex_epoch_state = \<lparr>es_epoch = 1, es_verifier = ex_verifier\<rparr>"

definition ex_qc :: "bool \<Rightarrow> u64 \<Rightarrow> quorum_cert" where
  "ex_qc three r =
     \<lparr>qc_vote_data = ex_vd r,
      qc_signed_ledger_info =
        \<lparr>ls_ledger_info = ex_li three r, ls_signatures = (if r = 0 then [] else [(1, 0)])\<rparr>\<rparr>"

definition ex_block :: "bool \<Rightarrow> u64 \<Rightarrow> block" where
  "ex_block three r =
     \<lparr>blk_id = ucast r,
      blk_block_data = \<lparr>bd_epoch = 1, bd_round = r, bd_timestamp_usecs = r, bd_quorum_cert = ex_qc three (r - 1),
        bd_block_type = Proposal [] 1\<rparr>,
      blk_signature = Some 0\<rparr>"

definition ex_proposal :: "bool \<Rightarrow> u64 \<Rightarrow> maybe_signed_vote_proposal" where
  "ex_proposal three r =
     \<lparr>mvp_vote_proposal =
        \<lparr>vp_accumulator_extension_proof = \<lparr>aep_frozen_subtree_roots = [], aep_num_leaves = 0, aep_leaves = []\<rparr>,
         vp_block = ex_block three r, vp_next_epoch_state = None, vp_decoupled_execution = True\<rparr>,
      mvp_signature = None\<rparr>"

definition ex_vote :: "bool \<Rightarrow> u64 \<Rightarrow> vote" where
  "ex_vote three r = vote_new_with_signature (ex_vd r) 1 (ex_li three r) 0"

definition ex_rules :: "safety_data \<Rightarrow> safety_rules" where
  "ex_rules d =
     \<lparr>sr_persistent_storage =
        \<lparr>pss_enable_cached_safety_data = True, pss_cached_safety_data = Some d,
         pss_internal_store =
           \<lparr>kv_data = [SAFETY_DATA \<mapsto> (SvSafetyData d, 0)], kv_now = 0, kv_fault = Map.empty\<rparr>\<rparr>,
      sr_execution_public_key = None, sr_export_consensus_key = True,
      sr_validator_signer = Some (Signer 1 11), sr_epoch_state = Some ex_epoch_state\<rparr>"

text \<open>The safety data after the votes of the rounds up to \<open>r\<close>.\<close>

definition ex_sd :: "bool \<Rightarrow> u64 \<Rightarrow> safety_data" where
  "ex_sd three r =
     \<lparr>sd_epoch = 1, sd_last_voted_round = r, sd_preferred_round = (if r \<le> 2 then 0 else r - 2),
      sd_one_chain_round = (if r = 0 then 0 else r - 1),
      sd_last_vote = (if r = 0 then None else Some (ex_vote three r))\<rparr>"

section \<open>The votes\<close>

lemma ex_qc_ok:
  assumes "r \<in> {0, 1, 2, 3, 4}"
  shows "qc_verify (ex_crypto three) (ex_qc three r) ex_verifier = Ok ()"
proof -
  have "verify_signatures (cc_ledger (ex_crypto three)) (qc_signed_ledger_info (ex_qc three r)) ex_verifier = Ok ()"
    if "r \<in> {1, 2, 3, 4}"
    using that
    by (auto simp: verify_signatures_def batch_verify_aggregated_signatures_def check_num_of_signatures_def
        check_voting_power_def ex_verifier_def ex_qc_def verifier_len_def get_voting_power_def ex_crypto_def)
  then show ?thesis
    using assms
    by (auto simp: qc_verify_Ok_iff vote_data_verify_Ok_iff ex_qc_def ex_vd_def ex_bi_def ex_li_def ex_crypto_def)
qed

lemma ex_block_ok:
  assumes "r \<in> {1, 2, 3, 4}"
  shows "validate_signature (ex_crypto three) (ex_block three r) ex_verifier = Ok ()"
    "verify_well_formed 100 (ex_block three r) = Ok ()"
proof -
  have "r - 1 \<in> {0, 1, 2, 3, 4}" using assms by auto
  then show "validate_signature (ex_crypto three) (ex_block three r) ex_verifier = Ok ()"
    using ex_qc_ok [of "r - 1" three]
    by (simp add: validate_signature_def ex_block_def verify_def get_public_key_def ex_verifier_def ex_crypto_def
        ex_sigs_def)
  show "verify_well_formed 100 (ex_block three r) = Ok ()"
    using assms
    by (auto simp: verify_well_formed_def ex_block_def ex_qc_def ex_vd_def ex_bi_def ex_li_def Let_def ensure_def
        bd_is_genesis_block_def bd_is_nil_block_def bi_has_reconfiguration_def qc_ends_epoch_def li_ends_epoch_def
        saturating_add_def block_info_empty_def)
qed

lemma ex_checked:
  assumes "r \<in> {1, 2, 3, 4}" "sd_epoch d = 1"
  shows "checked_proposal (ex_env three) 100 (ex_proposal three r) (ex_rules d) d ex_epoch_state (ex_vd r)"
proof -
  have "r - 1 \<in> {0, 1, 2, 3, 4}" "r \<noteq> 0" using assms by auto
  then show ?thesis
    using ex_block_ok [OF assms(1), of three] ex_qc_ok [of "r - 1" three] assms(2)
    by (simp add: checked_proposal_def ex_env_def ex_proposal_def verify_execution_signature_def ex_rules_def
        ex_epoch_state_def stored_safety_data_def gen_vote_data_def vote_data_ordering_only_def gen_block_info_def
        ex_vd_def)
      (simp add: ex_block_def ex_qc_def ex_vd_def ex_bi_def)
qed

lemma ex_rules_ready: "storage_ready (ex_rules d) d" "sr_validator_signer (ex_rules d) = Some (Signer 1 11)"
  by (simp_all add: storage_ready_def ex_rules_def)

lemma ex_storing: "storing d' (ex_rules d) = ex_rules d'"
  by (simp add: storing_def ex_rules_def)

lemma ex_sd_step:
  assumes "r \<in> {1, 2, 3, 4}"
  shows "voted_data (ex_block three r) (ex_vote three r) (ex_sd three (r - 1)) = ex_sd three r"
    "already_voted (ex_sd three (r - 1)) (blk_round (ex_block three r)) = None"
    "sd_last_voted_round (ex_sd three (r - 1)) < blk_round (ex_block three r)"
    "sd_preferred_round (ex_sd three (r - 1)) \<le> bi_round (qc_certified_block (blk_quorum_cert (ex_block three r)))"
  using assms
  by (auto simp: voted_data_def ex_sd_def ex_block_def ex_qc_def ex_vd_def ex_bi_def already_voted_def ex_vote_def
      vote_new_with_signature_def)

lemma ex_ledger_info:
  assumes "r \<in> {1, 2, 3, 4}"
  shows "construct_ledger_info (ex_block True r) (ucast r) = Ok (ex_li True r)"
    "construct_ledger_info_2chain (ex_block False r) (ucast r) = Ok (ex_li False r)"
    "safe_to_vote (ex_block False r) None = Ok ()"
  using assms
  by (auto simp: construct_ledger_info_def construct_ledger_info_2chain_def safe_to_vote_def next_round_def
      checked_add_def ex_block_def ex_qc_def ex_vd_def ex_bi_def ex_li_def tc_round_or_zero_def tc_hqc_round_or_zero_def)

definition ex_entry :: "bool \<Rightarrow> u64 \<Rightarrow> log_entry" where
  "ex_entry three r =
     LVote (if three then ThreeChain else TwoChain None) ex_epoch_state (ex_block three r) (ex_vote three r)"

definition ex_input :: "bool \<Rightarrow> u64 \<Rightarrow> safety_rules_input" where
  "ex_input three r =
     (if three then ConstructAndSignVote (ex_proposal three r) else ConstructAndSignVoteTwoChain (ex_proposal three r) None)"

lemma ex_vote_signed:
  assumes r: "r \<in> {1, 2, 3, 4}"
  shows "handle_message (ex_env three) 100 (ex_input three r) (ex_rules (ex_sd three (r - 1))) =
    (Ok (OutVote (ex_vote three r)), ex_rules (ex_sd three r))"
proof -
  let ?d = "ex_sd three (r - 1)"
  have b: "vp_block (mvp_vote_proposal (ex_proposal three r)) = ex_block three r" by (simp add: ex_proposal_def)
  have "sd_epoch ?d = 1" by (simp add: ex_sd_def)
  note chk = ex_checked [OF r this, of three]
  have h: "cc_hash_vote_data (env_crypto (ex_env three)) (ex_vd r) = ucast r"
    by (simp add: ex_env_def ex_crypto_def ex_vd_def ex_bi_def)
  have v: "vote_new_with_signature (ex_vd r) 1 (ex_li three r) (env_sign_li (ex_env three) 11 li) = ex_vote three r" for li
    by (simp add: ex_vote_def ex_env_def)
  show ?thesis
  proof (cases three)
    case True
    obtain li v where "construct_ledger_info (ex_block three r) (ucast r) = Ok li"
      "v = vote_new_with_signature (ex_vd r) 1 li (env_sign_li (ex_env three) 11 li)"
      and ok: "guarded_construct_and_sign_vote (ex_env three) 100 (ex_proposal three r) (ex_rules ?d) =
        (Ok v, storing (voted_data (ex_block three r) v ?d) (ex_rules ?d))"
      using construct_and_sign_vote_complete [OF chk ex_rules_ready, unfolded b h, OF ex_sd_step(2-4) [OF r, of three]] .
    then have "v = ex_vote three r" using ex_ledger_info(1) [OF r] v True by simp
    then have "guarded_construct_and_sign_vote (ex_env three) 100 (ex_proposal three r) (ex_rules ?d) =
        (Ok (ex_vote three r), ex_rules (ex_sd three r))"
      using ok ex_sd_step(1) [OF r, of three] by (simp add: ex_storing)
    then show ?thesis using True by (simp add: ex_input_def output_as_def bindS_def ret_def)
  next
    case False
    have "safe_to_vote (ex_block three r) None = Ok ()" using ex_ledger_info(3) [OF r] False by simp
    with construct_and_sign_vote_two_chain_complete [OF chk ex_rules_ready, unfolded b h,
        OF ex_sd_step(2,3) [OF r, of three], of None]
    obtain li v where "construct_ledger_info_2chain (ex_block three r) (ucast r) = Ok li"
      "v = vote_new_with_signature (ex_vd r) 1 li (env_sign_li (ex_env three) 11 li)"
      and ok: "guarded_construct_and_sign_vote_two_chain (ex_env three) 100 (ex_proposal three r) None (ex_rules ?d) =
        (Ok v, storing (voted_data (ex_block three r) v ?d) (ex_rules ?d))"
      by auto
    then have "v = ex_vote three r" using ex_ledger_info(2) [OF r] v False by simp
    then have "guarded_construct_and_sign_vote_two_chain (ex_env three) 100 (ex_proposal three r) None (ex_rules ?d) =
        (Ok (ex_vote three r), ex_rules (ex_sd three r))"
      using ok ex_sd_step(1) [OF r, of three] by (simp add: ex_storing)
    then show ?thesis using False by (simp add: ex_input_def output_as_def bindS_def ret_def)
  qed
qed

lemma ex_run_step:
  assumes "sr_run (ex_env three) s0 log (ex_rules (ex_sd three (r - 1)))" "r \<in> {1, 2, 3, 4}"
  shows "sr_run (ex_env three) s0 (log @ [ex_entry three r]) (ex_rules (ex_sd three r))"
proof -
  let ?s = "ex_rules (ex_sd three (r - 1))"
  have "log_of ?s (ex_input three r) (Ok (OutVote (ex_vote three r))) = [ex_entry three r]"
    using ex_sd_step(2) [OF assms(2), of three]
    by (cases three) (simp_all add: ex_input_def log_vote_def ex_entry_def ex_proposal_def Let_def ex_rules_def
        stored_safety_data_def)
  then show ?thesis
    using sr_run.run_message [OF assms(1) ex_vote_signed [OF assms(2)]] by simp
qed

lemma ex_run:
  "sr_run (ex_env three) (ex_rules (ex_sd three 0)) (map (ex_entry three) [1, 2, 3, 4]) (ex_rules (ex_sd three 4))"
proof -
  note step = ex_run_step [of three "ex_rules (ex_sd three 0)"]
  have 1: "sr_run (ex_env three) (ex_rules (ex_sd three 0)) [ex_entry three 1] (ex_rules (ex_sd three 1))"
    using step [of "[]" 1] sr_run.run_start by simp
  have 2: "sr_run (ex_env three) (ex_rules (ex_sd three 0)) [ex_entry three 1, ex_entry three 2] (ex_rules (ex_sd three 2))"
    using step [of "[ex_entry three 1]" 2] 1 by simp
  have 3: "sr_run (ex_env three) (ex_rules (ex_sd three 0)) [ex_entry three 1, ex_entry three 2, ex_entry three 3]
      (ex_rules (ex_sd three 3))"
    using step [of "[ex_entry three 1, ex_entry three 2]" 3] 2 by simp
  show ?thesis
    using step [of "[ex_entry three 1, ex_entry three 2, ex_entry three 3]" 4] 3 by simp
qed

section \<open>The setting\<close>

definition ex_config :: "bool \<Rightarrow> bft_config" where
  "ex_config three =
     \<lparr>bc_env = ex_env three, bc_epoch_state = ex_epoch_state, bc_byz = {},
      bc_logs = (\<lambda>a. if a = 1 then map (ex_entry three) [1, 2, 3, 4] else []),
      bc_vote_data = ex_vd ` {0, 1, 2, 3, 4}\<rparr>"

lemma ex_start_inv: "sr_inv (ex_rules (ex_sd three 0))"
  by (auto simp: sr_inv_def ex_rules_def pss_inv_def stored_safety_data_def ex_epoch_state_def ex_sd_def sd_wf_def)

lemma ex_byzantine_bound: "byzantine_bound ex_verifier {}"
  by (simp add: byzantine_bound_def wf_verifier_def quorum_fits_def ex_verifier_def bt_wf_def power_of_def)

lemma ex_entries:
  "LVote rule es b v \<in> set (bc_logs (ex_config three) a) \<longleftrightarrow>
     a = 1 \<and> (\<exists>r \<in> {1, 2, 3, 4}. LVote rule es b v = ex_entry three r)"
  by (auto simp: ex_config_def)

lemma ex_unforgeable: "unforgeable (ex_config three)"
proof -
  have "\<exists>rule es b v. LVote rule es b v \<in> set (bc_logs (ex_config three) a) \<and> vote_ledger_info v = li"
    if pk: "get_public_key (bc_verifier (ex_config three)) a = Some pk"
      and sg: "sig_verify (cc_li_sigs (bc_crypto (ex_config three))) pk li sg" for a pk li sg
  proof -
    have a: "a = 1"
      using pk by (auto simp: ex_config_def ex_epoch_state_def ex_verifier_def get_public_key_def split: if_splits)
    obtain r where r: "r \<in> {1, 2, 3, 4}" "li = ex_li three r"
      using sg by (auto simp: ex_config_def ex_env_def ex_crypto_def)
    have "vote_ledger_info (ex_vote three r) = li"
      by (simp add: ex_vote_def vote_new_with_signature_def r(2))
    then show ?thesis
      unfolding ex_entries using a r(1) by (metis ex_entry_def)
  qed
  then show ?thesis
    by (auto simp: unforgeable_def) (auto simp: ex_config_def ex_env_def ex_crypto_def)
qed

lemma ex_setting: "bft_setting (ex_config three)"
proof -
  let ?c = "ex_config three"
  have "honest_runs ?c"
    unfolding honest_runs_def
  proof (intro allI impI)
    fix a
    show "\<exists>s0 s. sr_inv s0 \<and> sr_run (bc_env ?c) s0 (bc_logs ?c a) s"
      using ex_start_inv [of three] ex_run [of three] sr_run.run_start [of "ex_env three" "ex_rules (ex_sd three 0)"]
      by (cases "a = 1") (auto simp: ex_config_def)
  qed
  moreover have "unforgeable ?c" by (rule ex_unforgeable)
  moreover have "no_commit_votes ?c" "one_epoch_state ?c" "typed_messages ?c"
    by (auto simp: no_commit_votes_def one_epoch_state_def typed_messages_def ex_entries ex_entry_def ex_block_def ex_qc_def
        bt_wf_def) (auto simp: ex_config_def ex_entry_def)
  moreover have "collision_free ?c"
    unfolding collision_free_def ex_entries
    by (auto simp: inj_on_def ex_config_def ex_env_def ex_crypto_def ex_vd_def ex_bi_def ex_entry_def ex_vote_def
        vote_new_with_signature_def ex_block_def ex_qc_def)
  moreover have "byzantine_bound (bc_verifier ?c) (bc_byz ?c)" "batch_sound (cc_li_sigs (bc_crypto ?c))"
    using ex_byzantine_bound by (auto simp: ex_config_def ex_epoch_state_def batch_sound_def ex_env_def ex_crypto_def)
  ultimately show ?thesis by (simp add: bft_setting_def)
qed

lemma ex_valid_qc:
  assumes "r \<in> {1, 2, 3, 4}"
  shows "valid_qc (ex_config three) (ex_qc three r)"
proof -
  have r: "r \<in> {0, 1, 2, 3, 4}" "r \<noteq> 0" using assms by auto
  then have "ex_vd r \<in> ex_vd ` {0, 1, 2, 3, 4}" by blast
  then show ?thesis
    using ex_qc_ok [OF r(1), of three] r(2)
    unfolding valid_qc_def ex_config_def ex_env_def ex_epoch_state_def
    by (simp add: ex_qc_def bt_wf_def) (simp add: ex_vd_def ex_bi_def)
qed

text \<open>The 3-chain protocol commits the blocks of the rounds 1 and 2, the 2-chain protocol those of
  the rounds 1 to 3.\<close>

lemma ex_committed:
  "committed (ex_config True) (ex_bi 1)" "committed (ex_config True) (ex_bi 2)"
  "committed (ex_config False) (ex_bi 1)" "committed (ex_config False) (ex_bi 3)"
proof -
  have "committed (ex_config three) (li_commit_info (ex_li three r))"
    if "r \<in> {1, 2, 3, 4}" "bi_round (li_commit_info (ex_li three r)) \<noteq> 0" for three r
    unfolding committed_def
    using that ex_valid_qc [OF that(1), of three] by (auto simp: ex_qc_def)
  note committed = this
  show "committed (ex_config True) (ex_bi 1)" "committed (ex_config True) (ex_bi 2)"
    using committed [of 3 True] committed [of 4 True] by (simp_all add: ex_li_def ex_bi_def)
  show "committed (ex_config False) (ex_bi 1)" "committed (ex_config False) (ex_bi 3)"
    using committed [of 2 False] committed [of 4 False] by (simp_all add: ex_li_def ex_bi_def)
qed

lemma ex_protocol: "three_chain (ex_config True)" "two_chain (ex_config False)"
  by (auto simp: three_chain_def two_chain_def voted_def ex_entries ex_entry_def)

section \<open>Agreement in the example\<close>

theorem three_chain_agreement_witness:
  "extends_block (ex_config True) (ex_bi 1) (ex_bi 2) \<or> extends_block (ex_config True) (ex_bi 2) (ex_bi 1)"
  using ex_setting ex_protocol(1) ex_committed(1,2) by (rule three_chain_agreement)

theorem two_chain_agreement_witness:
  "extends_block (ex_config False) (ex_bi 1) (ex_bi 3) \<or> extends_block (ex_config False) (ex_bi 3) (ex_bi 1)"
  using ex_setting ex_protocol(2) ex_committed(3,4) by (rule two_chain_agreement)


end
