(* ===== verification/Pending_Votes.thy ===== *)
theory Pending_Votes
  imports Consensus_Messages
begin

text \<open>
  The aggregation of votes into certificates: \<^verbatim>\<open>consensus/src/pending_votes.rs\<close>. The digest of
  a ledger info is the parameter \<open>hash_li\<close>. The invariant ties what has been collected to the
  votes it came from; from it, every certificate that is handed out passes the verification of
  \<open>Consensus_Types\<close>, so that all validators accept it.
\<close>

section \<open>Data\<close>

datatype vote_reception_result =
    VoteAdded u64
  | DuplicateVote
  | EquivocateVote
  | NewQuorumCertificate quorum_cert
  | NewTimeoutCertificate timeout_certificate
  | New2ChainTimeoutCertificate two_chain_timeout_certificate
  | ErrorAddingVote verify_error
  | UnexpectedRound u64 u64

record pending_votes =
  pv_li_digest_to_votes :: "hash_value \<rightharpoonup> ledger_info_with_signatures"
  pv_maybe_partial_tc :: "timeout_certificate option"
  pv_maybe_partial_2chain_tc :: "two_chain_timeout_certificate option"
  pv_author_to_vote :: "author_t \<rightharpoonup> vote"

type_synonym pv_action = "(pending_votes, verify_error, vote_reception_result) action"

definition pending_votes_new :: pending_votes where
  "pending_votes_new =
     \<lparr>pv_li_digest_to_votes = Map.empty, pv_maybe_partial_tc = None, pv_maybe_partial_2chain_tc = None,
      pv_author_to_vote = Map.empty\<rparr>"

section \<open>Inserting a vote\<close>

text \<open>The three outcomes of \<open>check_voting_power\<close> on what has been collected: a certificate, too
  little voting power, or an error.\<close>

definition on_voting_power ::
    "(verify_error, unit) result \<Rightarrow> vote_reception_result \<Rightarrow> (u64 \<Rightarrow> pv_action) \<Rightarrow> pv_action" where
  "on_voting_power check certificate go_on pv =
     (case check of
        Ok _ \<Rightarrow> (Ok certificate, pv)
      | Err (TooLittleVotingPower voting_power _) \<Rightarrow> go_on voting_power pv
      | Err e \<Rightarrow> (Ok (ErrorAddingVote e), pv)
      | Panic \<Rightarrow> (Panic, pv))"

definition add_two_chain_timeout_vote :: "vote \<Rightarrow> validator_verifier \<Rightarrow> u64 \<Rightarrow> pv_action" where
  "add_two_chain_timeout_vote vote validator_verifier voting_power pv =
     (case vote_two_chain_timeout vote of
        None \<Rightarrow> (Ok (VoteAdded voting_power), pv)
      | Some (t, sg) \<Rightarrow>
          (let partial_tc = tc2_add (case pv_maybe_partial_2chain_tc pv of Some tc \<Rightarrow> tc | None \<Rightarrow> tc2_new t)
                 (vote_author vote) t sg in
           on_voting_power (check_voting_power validator_verifier (bt_keys (tc2_signatures partial_tc)))
             (New2ChainTimeoutCertificate partial_tc)
             (\<lambda>_ pv. (Ok (VoteAdded voting_power), pv))
             (pv\<lparr>pv_maybe_partial_2chain_tc := Some partial_tc\<rparr>)))"

definition add_timeout_vote :: "vote \<Rightarrow> validator_verifier \<Rightarrow> u64 \<Rightarrow> pv_action" where
  "add_timeout_vote vote validator_verifier voting_power pv =
     (case vote_timeout_signature vote of
        None \<Rightarrow> add_two_chain_timeout_vote vote validator_verifier voting_power pv
      | Some sg \<Rightarrow>
          (let partial_tc = tc_add_signature
                 (case pv_maybe_partial_tc pv of Some tc \<Rightarrow> tc | None \<Rightarrow> tc_new (generate_timeout vote))
                 (vote_author vote) sg in
           on_voting_power (check_voting_power validator_verifier (bt_keys (tc_signatures partial_tc)))
             (NewTimeoutCertificate partial_tc)
             (\<lambda>_. add_two_chain_timeout_vote vote validator_verifier voting_power)
             (pv\<lparr>pv_maybe_partial_tc := Some partial_tc\<rparr>)))"

definition store_vote :: "(ledger_info \<Rightarrow> hash_value) \<Rightarrow> vote \<Rightarrow> validator_verifier \<Rightarrow> pv_action" where
  "store_vote hash_li vote validator_verifier pv =
     (let li_digest = hash_li (vote_ledger_info vote);
          li_with_sig = add_signature
            (case pv_li_digest_to_votes pv li_digest of
               Some ls \<Rightarrow> ls | None \<Rightarrow> \<lparr>ls_ledger_info = vote_ledger_info vote, ls_signatures = []\<rparr>)
            (vote_author vote) (vote_signature vote)
      in on_voting_power (check_voting_power validator_verifier (bt_keys (ls_signatures li_with_sig)))
           (NewQuorumCertificate \<lparr>qc_vote_data = vote_vote_data vote, qc_signed_ledger_info = li_with_sig\<rparr>)
           (add_timeout_vote vote validator_verifier)
           (pv\<lparr>pv_author_to_vote := (pv_author_to_vote pv)(vote_author vote \<mapsto> vote),
               pv_li_digest_to_votes := (pv_li_digest_to_votes pv)(li_digest \<mapsto> li_with_sig)\<rparr>))"

definition insert_vote :: "(ledger_info \<Rightarrow> hash_value) \<Rightarrow> vote \<Rightarrow> validator_verifier \<Rightarrow> pv_action" where
  "insert_vote hash_li vote validator_verifier pv =
     (case pv_author_to_vote pv (vote_author vote) of
        Some previously_seen_vote \<Rightarrow>
          if hash_li (vote_ledger_info vote) = hash_li (vote_ledger_info previously_seen_vote) then
            if \<not> (vote_is_timeout vote \<and> \<not> vote_is_timeout previously_seen_vote) then (Ok DuplicateVote, pv)
            else store_vote hash_li vote validator_verifier pv
          else (Ok EquivocateVote, pv)
      | None \<Rightarrow> store_vote hash_li vote validator_verifier pv)"

text \<open>A sequence of votes, with the outcome of each.\<close>

fun insert_votes ::
    "(ledger_info \<Rightarrow> hash_value) \<Rightarrow> validator_verifier \<Rightarrow> vote list \<Rightarrow> pending_votes
      \<Rightarrow> (verify_error, vote_reception_result) result list \<times> pending_votes" where
  "insert_votes hash_li v [] pv = ([], pv)"
| "insert_votes hash_li v (vote # votes) pv =
     (case insert_vote hash_li vote v pv of
        (r, pv') \<Rightarrow> (case insert_votes hash_li v votes pv' of (rs, pv'') \<Rightarrow> (r # rs, pv'')))"

section \<open>The invariant\<close>

text \<open>The votes of a round: verified, for one epoch and round, with ledger infos on which the digest
  has no collision.\<close>

definition vote_ok :: "consensus_crypto \<Rightarrow> validator_verifier \<Rightarrow> u64 \<Rightarrow> round_t \<Rightarrow> ledger_info set \<Rightarrow> vote \<Rightarrow> bool" where
  "vote_ok cc v e r L vote \<longleftrightarrow> vote_verify cc vote v = Ok () \<and> vote_epoch vote = e \<and> vote_round vote = r \<and>
     vote_ledger_info vote \<in> L"

definition li_votes_ok ::
    "consensus_crypto \<Rightarrow> validator_verifier \<Rightarrow> ledger_info set \<Rightarrow> (ledger_info \<Rightarrow> hash_value) \<Rightarrow> hash_value
      \<Rightarrow> ledger_info_with_signatures \<Rightarrow> bool" where
  "li_votes_ok cc v L hash_li h ls \<longleftrightarrow> hash_li (ls_ledger_info ls) = h \<and> ls_ledger_info ls \<in> L \<and>
     bt_wf (ls_signatures ls) \<and>
     (\<forall>(a, sg) \<in> set (ls_signatures ls). verify (cc_li_sigs cc) v a (ls_ledger_info ls) sg = Ok ())"

definition tc_ok :: "consensus_crypto \<Rightarrow> validator_verifier \<Rightarrow> u64 \<Rightarrow> round_t \<Rightarrow> timeout_certificate \<Rightarrow> bool" where
  "tc_ok cc v e r tc \<longleftrightarrow> tc_timeout tc = \<lparr>to_epoch = e, to_round = r\<rparr> \<and> bt_wf (tc_signatures tc) \<and>
     (\<forall>(a, sg) \<in> set (tc_signatures tc). verify (cc_timeout_sigs cc) v a (tc_timeout tc) sg = Ok ())"

definition tc2_ok ::
    "consensus_crypto \<Rightarrow> validator_verifier \<Rightarrow> u64 \<Rightarrow> round_t \<Rightarrow> two_chain_timeout_certificate \<Rightarrow> bool" where
  "tc2_ok cc v e r tc \<longleftrightarrow> tc2_epoch tc = e \<and> tc2_round tc = r \<and> bt_wf (tc2_signatures tc) \<and>
     t2_verify cc (tc2_timeout tc) v = Ok () \<and>
     tc2_highest_hqc_round tc = Max (insert 0 (tc2_signed_rounds (tc2_signatures tc))) \<and>
     (\<forall>(a, q, sg) \<in> set (tc2_signatures tc).
        verify (cc_timeout2_sigs cc) v a \<lparr>tsr_epoch = e, tsr_round = r, tsr_hqc_round = q\<rparr> sg = Ok ())"

definition pv_inv ::
    "consensus_crypto \<Rightarrow> validator_verifier \<Rightarrow> u64 \<Rightarrow> round_t \<Rightarrow> ledger_info set \<Rightarrow> (ledger_info \<Rightarrow> hash_value)
      \<Rightarrow> pending_votes \<Rightarrow> bool" where
  "pv_inv cc v e r L hash_li pv \<longleftrightarrow>
     (\<forall>h ls. pv_li_digest_to_votes pv h = Some ls \<longrightarrow> li_votes_ok cc v L hash_li h ls) \<and>
     (\<forall>tc. pv_maybe_partial_tc pv = Some tc \<longrightarrow> tc_ok cc v e r tc) \<and>
     (\<forall>tc. pv_maybe_partial_2chain_tc pv = Some tc \<longrightarrow> tc2_ok cc v e r tc \<and>
        (\<forall>a \<in> set (bt_keys (tc2_signatures tc)).
           \<exists>vote. pv_author_to_vote pv a = Some vote \<and> vote_is_timeout vote))"

lemma set_bt_or_insert: "set (bt_or_insert k x m) \<subseteq> insert (k, x) (set m)"
proof (cases "bt_get m k")
  case None
  then have "k \<notin> set (bt_keys m)" by (simp add: map_of_eq_None_iff)
  with None show ?thesis by (simp add: bt_or_insert_def set_bt_insert_fresh)
qed (auto simp: bt_or_insert_def)

lemma li_votes_ok_add:
  assumes "li_votes_ok cc v L hash_li h ls" "verify (cc_li_sigs cc) v a (ls_ledger_info ls) sg = Ok ()"
  shows "li_votes_ok cc v L hash_li h (add_signature ls a sg)"
  using assms set_bt_or_insert [of a sg "ls_signatures ls"] bt_wf_or_insert
  by (fastforce simp: li_votes_ok_def add_signature_def)

lemma tc_ok_add:
  assumes "tc_ok cc v e r tc" "verify (cc_timeout_sigs cc) v a (tc_timeout tc) sg = Ok ()"
  shows "tc_ok cc v e r (tc_add_signature tc a sg)"
  using assms set_bt_or_insert [of a sg "tc_signatures tc"] bt_wf_or_insert
  by (fastforce simp: tc_ok_def tc_add_signature_def)

lemma tc2_ok_add:
  assumes tc: "tc2_signatures tc = [] \<and> tc2_timeout tc = t \<or> tc2_ok cc v e r tc"
    and t: "t2_epoch t = e" "t2_round t = r" "t2_verify cc t v = Ok ()"
    and sg: "verify (cc_timeout2_sigs cc) v a (signing_format t) sg = Ok ()"
    and fresh: "a \<notin> set (bt_keys (tc2_signatures tc))"
  shows "tc2_ok cc v e r (tc2_add tc a t sg)"
proof -
  let ?tc = "tc2_add tc a t sg"
  have wf: "bt_wf (tc2_signatures tc)" using tc by (auto simp: tc2_ok_def)
  have "bt_wf (tc2_signatures ?tc) \<and>
      tc2_highest_hqc_round ?tc = Max (insert 0 (tc2_signed_rounds (tc2_signatures ?tc)))"
    by (rule tc2_add_keeps_max [OF wf fresh]) (use tc in \<open>auto simp: tc2_ok_def\<close>)
  moreover have "set (tc2_signatures ?tc) = insert (a, t2_hqc_round t, sg) (set (tc2_signatures tc))"
    using set_bt_insert_fresh [OF fresh] by (auto simp: tc2_add_def Let_def)
  moreover have "tc2_timeout ?tc = t \<or> tc2_timeout ?tc = tc2_timeout tc"
    by (simp add: tc2_add_def Let_def)
  ultimately show ?thesis
    using tc t sg by (auto simp: tc2_ok_def signing_format_def)
qed

section \<open>Certificates verify\<close>

lemma aggregate_no_Panic: "aggregate_voting_power v acc as \<noteq> Panic"
  by (induction v acc as rule: aggregate_voting_power.induct) (auto split: option.splits)

lemma check_voting_power_no_Panic: "check_voting_power v as \<noteq> Panic"
  using aggregate_no_Panic [of v 0 as] by (cases "aggregate_voting_power v 0 as") (simp_all add: check_voting_power_def)

lemma verified_number:
  assumes "bt_wf sigs" "check_voting_power v (bt_keys sigs) = Ok ()"
  shows "check_num_of_signatures v sigs = Ok ()"
  using known_authors_le [OF assms(1), of v] check_voting_power_known [OF assms(2)]
  by (auto simp: check_num_of_signatures_def get_public_key_known)

lemma aggregated_Ok:
  assumes "bt_wf sigs" "check_voting_power v (bt_keys sigs) = Ok ()"
    and "\<forall>(a, sg) \<in> set sigs. verify ops v a m sg = Ok ()"
  shows "verify_aggregated_struct_signature ops v m sigs = Ok ()"
    "batch_verify_aggregated_signatures ops v m sigs = Ok ()"
proof -
  have "verify_each ops v m sigs = Ok ()"
    using assms(3) unfolding verify_each_Ok_iff verify_Ok_iff by fast
  then show "verify_aggregated_struct_signature ops v m sigs = Ok ()"
    "batch_verify_aggregated_signatures ops v m sigs = Ok ()"
    using assms(2) verified_number [OF assms(1,2)]
    by (simp_all add: verify_aggregated_struct_signature_def batch_verify_aggregated_signatures_def)
qed

definition cert_ok ::
    "consensus_crypto \<Rightarrow> validator_verifier \<Rightarrow> u64 \<Rightarrow> round_t \<Rightarrow> vote_reception_result \<Rightarrow> bool" where
  "cert_ok cc v e r out =
     (case out of
        NewQuorumCertificate qc \<Rightarrow> qc_verify cc qc v = Ok () \<and> bt_wf (ls_signatures (qc_signed_ledger_info qc)) \<and>
          bi_epoch (qc_certified_block qc) = e \<and> bi_round (qc_certified_block qc) = r
      | NewTimeoutCertificate tc \<Rightarrow> tc_verify cc tc v = Ok () \<and> tc_timeout tc = \<lparr>to_epoch = e, to_round = r\<rparr>
      | New2ChainTimeoutCertificate tc \<Rightarrow> tc2_verify cc tc v = Ok () \<and> bt_wf (tc2_signatures tc) \<and>
          tc2_epoch tc = e \<and> tc2_round tc = r
      | _ \<Rightarrow> True)"

lemma on_voting_power_result:
  assumes "on_voting_power (check_voting_power v as) certificate go_on pv = (out, pv')"
  obtains (certificate) "check_voting_power v as = Ok ()" "out = Ok certificate" "pv' = pv"
  | (more) p where "go_on p pv = (out, pv')"
  | (error) e where "out = Ok (ErrorAddingVote e)" "pv' = pv"
proof (cases "check_voting_power v as")
  case (Ok u)
  then show thesis using assms by (intro certificate) (auto simp: on_voting_power_def)
next
  case (Err e)
  then show thesis
    using assms more [of "case e of TooLittleVotingPower p _ \<Rightarrow> p"] error [of e]
    by (cases e) (simp_all add: on_voting_power_def)
next
  case Panic
  then show thesis using check_voting_power_no_Panic [of v as] by simp
qed

lemma qc_cert_ok:
  assumes ls: "li_votes_ok cc v L hash_li h ls" and vote: "vote_ok cc v e r L vote"
    and li: "ls_ledger_info ls = vote_ledger_info vote"
    and power: "check_voting_power v (bt_keys (ls_signatures ls)) = Ok ()"
  shows "cert_ok cc v e r (NewQuorumCertificate \<lparr>qc_vote_data = vote_vote_data vote, qc_signed_ledger_info = ls\<rparr>)"
proof -
  have "vote_verify cc vote v = Ok ()" and er: "vote_epoch vote = e" "vote_round vote = r"
    using vote by (auto simp: vote_ok_def)
  note vf = vote_verify_Ok(1,3) [OF this(1)]
  have "verify_signatures (cc_ledger cc) ls v = Ok ()"
    using aggregated_Ok(2) [OF _ power, of "cc_li_sigs cc" "ls_ledger_info ls"] ls
    by (simp add: verify_signatures_def li_votes_ok_def)
  moreover have "bi_round (vd_proposed (vote_vote_data vote)) \<noteq> 0"
    using vf(2) by (auto simp: vote_data_verify_Ok_iff)
  ultimately show ?thesis
    using vf er li ls by (simp add: cert_ok_def qc_verify_Ok_iff li_votes_ok_def)
qed

lemma tc_cert_ok:
  assumes "tc_ok cc v e r tc" "check_voting_power v (bt_keys (tc_signatures tc)) = Ok ()"
  shows "cert_ok cc v e r (NewTimeoutCertificate tc)"
proof -
  have "verify_aggregated_struct_signature (cc_timeout_sigs cc) v (tc_timeout tc) (tc_signatures tc) = Ok ()"
    using assms(1) unfolding tc_ok_def by (intro aggregated_Ok(1) [OF _ assms(2)]) auto
  then show ?thesis
    using assms(1) by (simp add: cert_ok_def tc_verify_def tc_ok_def)
qed

lemma tc2_cert_ok:
  assumes "tc2_ok cc v e r tc" "check_voting_power v (bt_keys (tc2_signatures tc)) = Ok ()"
  shows "cert_ok cc v e r (New2ChainTimeoutCertificate tc)"
  using assms by (auto simp: cert_ok_def tc2_verify_Ok_iff tc2_ok_def)

section \<open>Insertion keeps the invariant\<close>

text \<open>What a step of the insertion guarantees of its outcome.\<close>

definition step_ok ::
    "consensus_crypto \<Rightarrow> validator_verifier \<Rightarrow> u64 \<Rightarrow> round_t \<Rightarrow> ledger_info set \<Rightarrow> (ledger_info \<Rightarrow> hash_value)
      \<Rightarrow> (verify_error, vote_reception_result) result \<times> pending_votes \<Rightarrow> bool" where
  "step_ok cc v e r L hash_li step \<longleftrightarrow>
     pv_inv cc v e r L hash_li (snd step) \<and> (\<exists>out. fst step = Ok out \<and> cert_ok cc v e r out)"

lemma on_voting_power_step:
  assumes "pv_inv cc v e r L hash_li pv" "check_voting_power v as = Ok () \<Longrightarrow> cert_ok cc v e r certificate"
    and "\<And>p. step_ok cc v e r L hash_li (go_on p pv)"
  shows "step_ok cc v e r L hash_li (on_voting_power (check_voting_power v as) certificate go_on pv)"
proof -
  obtain out pv' where o: "on_voting_power (check_voting_power v as) certificate go_on pv = (out, pv')" by fastforce
  then show ?thesis
  proof (cases rule: on_voting_power_result)
    case certificate
    then show ?thesis using o assms by (simp add: step_ok_def)
  next
    case (more p)
    then show ?thesis using o assms(3) [of p] by simp
  next
    case (error e)
    then show ?thesis using o assms(1) by (simp add: step_ok_def cert_ok_def)
  qed
qed

definition tc2_fresh :: "author_t \<Rightarrow> pending_votes \<Rightarrow> bool" where
  "tc2_fresh a pv \<longleftrightarrow>
     (\<forall>tc. pv_maybe_partial_2chain_tc pv = Some tc \<longrightarrow> a \<notin> set (bt_keys (tc2_signatures tc)))"

lemma add_two_chain_timeout_step:
  assumes inv: "pv_inv cc v e r L hash_li pv" and vote: "vote_ok cc v e r L vote"
    and fresh: "tc2_fresh (vote_author vote) pv" and stored: "pv_author_to_vote pv (vote_author vote) = Some vote"
  shows "step_ok cc v e r L hash_li (add_two_chain_timeout_vote vote v p pv)"
proof (cases "vote_two_chain_timeout vote")
  case None
  then show ?thesis using inv by (simp add: add_two_chain_timeout_vote_def step_ok_def cert_ok_def)
next
  case (Some ts)
  obtain t sg where ts: "ts = (t, sg)" by fastforce
  have t: "t2_epoch t = e" "t2_round t = r" "t2_verify cc t v = Ok ()"
    "verify (cc_timeout2_sigs cc) v (vote_author vote) (signing_format t) sg = Ok ()"
    using vote_verify_Ok(5) [of cc vote v t sg] vote Some ts by (auto simp: vote_ok_def)
  define tc0 where "tc0 = (case pv_maybe_partial_2chain_tc pv of Some tc \<Rightarrow> tc | None \<Rightarrow> tc2_new t)"
  let ?tc = "tc2_add tc0 (vote_author vote) t sg"
  have "tc2_signatures tc0 = [] \<and> tc2_timeout tc0 = t \<or> tc2_ok cc v e r tc0"
    and fr: "vote_author vote \<notin> set (bt_keys (tc2_signatures tc0))"
    using inv fresh by (auto simp: tc0_def tc2_new_def pv_inv_def tc2_fresh_def split: option.splits)
  then have ok: "tc2_ok cc v e r ?tc" using tc2_ok_add t by blast
  have keys: "set (bt_keys (tc2_signatures ?tc)) = insert (vote_author vote) (set (bt_keys (tc2_signatures tc0)))"
    using set_bt_keys_insert by (simp add: tc2_add_def Let_def)
  have old: "\<exists>vt. pv_author_to_vote pv a = Some vt \<and> vote_is_timeout vt" if "a \<in> set (bt_keys (tc2_signatures tc0))" for a
    using that inv by (auto simp: tc0_def pv_inv_def tc2_new_def split: option.splits)
  have "vote_is_timeout vote" using Some by (simp add: vote_is_timeout_def)
  then have "\<forall>a \<in> set (bt_keys (tc2_signatures ?tc)). \<exists>vt. pv_author_to_vote pv a = Some vt \<and> vote_is_timeout vt"
    unfolding keys using old stored by blast
  then have "pv_inv cc v e r L hash_li (pv\<lparr>pv_maybe_partial_2chain_tc := Some ?tc\<rparr>)"
    using inv ok unfolding pv_inv_def by simp
  then have "step_ok cc v e r L hash_li (on_voting_power (check_voting_power v (bt_keys (tc2_signatures ?tc)))
      (New2ChainTimeoutCertificate ?tc) (\<lambda>_ pv. (Ok (VoteAdded p), pv)) (pv\<lparr>pv_maybe_partial_2chain_tc := Some ?tc\<rparr>))"
    using tc2_cert_ok [OF ok] by (intro on_voting_power_step) (auto simp: step_ok_def cert_ok_def)
  then show ?thesis using Some ts by (simp add: add_two_chain_timeout_vote_def Let_def tc0_def)
qed

lemma add_timeout_step:
  assumes inv: "pv_inv cc v e r L hash_li pv" and vote: "vote_ok cc v e r L vote"
    and fresh: "tc2_fresh (vote_author vote) pv" and stored: "pv_author_to_vote pv (vote_author vote) = Some vote"
  shows "step_ok cc v e r L hash_li (add_timeout_vote vote v p pv)"
proof (cases "vote_timeout_signature vote")
  case None
  then show ?thesis using add_two_chain_timeout_step [OF assms] by (simp add: add_timeout_vote_def)
next
  case (Some sg)
  define tc0 where "tc0 = (case pv_maybe_partial_tc pv of Some tc \<Rightarrow> tc | None \<Rightarrow> tc_new (generate_timeout vote))"
  let ?tc = "tc_add_signature tc0 (vote_author vote) sg"
  have gt: "generate_timeout vote = \<lparr>to_epoch = e, to_round = r\<rparr>"
    using vote by (simp add: generate_timeout_def vote_ok_def)
  have sg: "verify (cc_timeout_sigs cc) v (vote_author vote) (generate_timeout vote) sg = Ok ()"
    using vote_verify_Ok(4) [of cc vote v sg] vote Some by (simp add: vote_ok_def)
  have "tc_ok cc v e r tc0"
  proof (cases "pv_maybe_partial_tc pv")
    case None
    then show ?thesis by (simp add: tc0_def tc_new_def tc_ok_def gt)
  next
    case (Some tc)
    then show ?thesis using inv by (simp add: tc0_def pv_inv_def)
  qed
  then have ok: "tc_ok cc v e r ?tc"
    using tc_ok_add sg gt by (simp add: tc_ok_def)
  let ?pv = "pv\<lparr>pv_maybe_partial_tc := Some ?tc\<rparr>"
  have inv': "pv_inv cc v e r L hash_li ?pv"
    using inv ok unfolding pv_inv_def by simp
  have "step_ok cc v e r L hash_li (add_two_chain_timeout_vote vote v p ?pv)"
    using fresh stored by (intro add_two_chain_timeout_step [OF inv' vote]) (simp_all add: tc2_fresh_def)
  then have "step_ok cc v e r L hash_li (on_voting_power (check_voting_power v (bt_keys (tc_signatures ?tc)))
      (NewTimeoutCertificate ?tc) (\<lambda>_. add_two_chain_timeout_vote vote v p) ?pv)"
    using tc_cert_ok [OF ok] inv' by (intro on_voting_power_step)
  then show ?thesis using Some by (simp add: add_timeout_vote_def Let_def tc0_def)
qed

lemma store_vote_step:
  assumes inv: "pv_inv cc v e r L hash_li pv" and vote: "vote_ok cc v e r L vote" and inj: "inj_on hash_li L"
    and fresh: "tc2_fresh (vote_author vote) pv"
  shows "step_ok cc v e r L hash_li (store_vote hash_li vote v pv)"
proof -
  let ?h = "hash_li (vote_ledger_info vote)"
  define ls0 where "ls0 = (case pv_li_digest_to_votes pv ?h of
    Some ls \<Rightarrow> ls | None \<Rightarrow> \<lparr>ls_ledger_info = vote_ledger_info vote, ls_signatures = []\<rparr>)"
  let ?ls = "add_signature ls0 (vote_author vote) (vote_signature vote)"
  have L: "vote_ledger_info vote \<in> L" using vote by (simp add: vote_ok_def)
  have ls0: "li_votes_ok cc v L hash_li ?h ls0"
    using inv L by (auto simp: ls0_def pv_inv_def li_votes_ok_def split: option.splits)
  then have li: "ls_ledger_info ls0 = vote_ledger_info vote"
    using inj L by (auto simp: li_votes_ok_def inj_on_def)
  have ok: "li_votes_ok cc v L hash_li ?h ?ls"
    using li_votes_ok_add [OF ls0] vote_verify_Ok(2) [of cc vote v] vote li by (simp add: vote_ok_def)
  let ?pv = "pv\<lparr>pv_author_to_vote := (pv_author_to_vote pv)(vote_author vote \<mapsto> vote),
    pv_li_digest_to_votes := (pv_li_digest_to_votes pv)(?h \<mapsto> ?ls)\<rparr>"
  have inv': "pv_inv cc v e r L hash_li ?pv"
    using inv ok fresh unfolding pv_inv_def tc2_fresh_def by (auto, force)
  have "step_ok cc v e r L hash_li (add_timeout_vote vote v p ?pv)" for p
    using fresh by (intro add_timeout_step [OF inv' vote]) (simp_all add: tc2_fresh_def)
  moreover have "cert_ok cc v e r (NewQuorumCertificate \<lparr>qc_vote_data = vote_vote_data vote, qc_signed_ledger_info = ?ls\<rparr>)"
    if "check_voting_power v (bt_keys (ls_signatures ?ls)) = Ok ()"
    using qc_cert_ok [OF ok vote _ that] li by (simp add: add_signature_def)
  ultimately have "step_ok cc v e r L hash_li (on_voting_power (check_voting_power v (bt_keys (ls_signatures ?ls)))
      (NewQuorumCertificate \<lparr>qc_vote_data = vote_vote_data vote, qc_signed_ledger_info = ?ls\<rparr>)
      (add_timeout_vote vote v) ?pv)"
    using inv' by (intro on_voting_power_step)
  then show ?thesis by (simp add: store_vote_def Let_def ls0_def)
qed

lemma insert_vote_step:
  assumes inv: "pv_inv cc v e r L hash_li pv" and vote: "vote_ok cc v e r L vote" and inj: "inj_on hash_li L"
  shows "step_ok cc v e r L hash_li (insert_vote hash_li vote v pv)"
proof -
  have store: ?thesis if "insert_vote hash_li vote v pv = store_vote hash_li vote v pv"
    and "\<And>prev. pv_author_to_vote pv (vote_author vote) = Some prev \<Longrightarrow> \<not> vote_is_timeout prev"
  proof -
    have "tc2_fresh (vote_author vote) pv"
      using inv that(2) unfolding tc2_fresh_def pv_inv_def by fastforce
    then show ?thesis using store_vote_step [OF inv vote inj] that(1) by simp
  qed
  have same: ?thesis if "insert_vote hash_li vote v pv = (Ok out, pv)" "cert_ok cc v e r out" for out
    using that inv by (simp add: step_ok_def)
  show ?thesis
  proof (cases "pv_author_to_vote pv (vote_author vote)")
    case None
    then show ?thesis by (intro store) (simp_all add: insert_vote_def)
  next
    case (Some prev)
    then show ?thesis
      using store same [of DuplicateVote] same [of EquivocateVote]
      by (auto simp: insert_vote_def cert_ok_def)
  qed
qed

lemma insert_votes_ok:
  assumes "inj_on hash_li L"
  shows "pv_inv cc v e r L hash_li pv \<Longrightarrow> list_all (vote_ok cc v e r L) votes \<Longrightarrow>
    insert_votes hash_li v votes pv = (outs, pv') \<Longrightarrow>
    pv_inv cc v e r L hash_li pv' \<and> list_all (\<lambda>x. \<exists>out. x = Ok out \<and> cert_ok cc v e r out) outs"
proof (induction votes arbitrary: pv outs)
  case Nil
  then show ?case by simp
next
  case (Cons vote votes)
  obtain o1 pv1 where 1: "insert_vote hash_li vote v pv = (o1, pv1)" by fastforce
  then obtain outs2 where 2: "insert_votes hash_li v votes pv1 = (outs2, pv')" "outs = o1 # outs2"
    using Cons.prems(3) by (auto split: prod.splits)
  have "step_ok cc v e r L hash_li (o1, pv1)"
    using insert_vote_step [OF Cons.prems(1) _ assms, of vote] Cons.prems(2) 1 by simp
  then show ?case
    using Cons.IH [OF _ _ 2(1)] Cons.prems(2) 2(2) by (simp add: step_ok_def)
qed

lemma pending_votes_new_inv: "pv_inv cc v e r L hash_li pending_votes_new"
  by (simp add: pv_inv_def pending_votes_new_def)

section \<open>A quorum of votes is recognised\<close>

lemma on_voting_power_keeps:
  assumes "\<And>p. P (snd (go_on p pv))" "P pv"
  shows "P (snd (on_voting_power check certificate go_on pv))"
  using assms by (auto simp: on_voting_power_def split: result.split verify_error.split)

lemma add_two_chain_timeout_vote_keeps:
  "pv_li_digest_to_votes (snd (add_two_chain_timeout_vote vote v p pv)) = pv_li_digest_to_votes pv \<and>
   pv_author_to_vote (snd (add_two_chain_timeout_vote vote v p pv)) = pv_author_to_vote pv"
proof (cases "vote_two_chain_timeout vote")
  case None
  then show ?thesis by (simp add: add_two_chain_timeout_vote_def)
next
  case (Some t)
  then show ?thesis
    unfolding add_two_chain_timeout_vote_def Let_def
    by (cases t) (simp, rule on_voting_power_keeps, simp_all)
qed

lemma add_timeout_vote_keeps:
  "pv_li_digest_to_votes (snd (add_timeout_vote vote v p pv)) = pv_li_digest_to_votes pv \<and>
   pv_author_to_vote (snd (add_timeout_vote vote v p pv)) = pv_author_to_vote pv"
proof (cases "vote_timeout_signature vote")
  case None
  then show ?thesis by (simp add: add_timeout_vote_def add_two_chain_timeout_vote_keeps)
next
  case (Some sg)
  then obtain check certificate tc where "add_timeout_vote vote v p pv =
      on_voting_power check certificate (\<lambda>_. add_two_chain_timeout_vote vote v p) (pv\<lparr>pv_maybe_partial_tc := tc\<rparr>)"
    by (simp add: add_timeout_vote_def Let_def)
  then show ?thesis
    using on_voting_power_keeps [where P = "\<lambda>pv'. pv_li_digest_to_votes pv' = pv_li_digest_to_votes pv \<and>
        pv_author_to_vote pv' = pv_author_to_vote pv"]
    by (simp add: add_two_chain_timeout_vote_keeps)
qed

text \<open>The authors whose signatures on a ledger info have been collected.\<close>

definition signers_of :: "pending_votes \<Rightarrow> hash_value \<Rightarrow> author_t set" where
  "signers_of pv h = (case pv_li_digest_to_votes pv h of None \<Rightarrow> {} | Some ls \<Rightarrow> set (bt_keys (ls_signatures ls)))"

definition collects :: "(ledger_info \<Rightarrow> hash_value) \<Rightarrow> ledger_info \<Rightarrow> author_t set \<Rightarrow> pending_votes \<Rightarrow> bool" where
  "collects hash_li li A pv \<longleftrightarrow> signers_of pv (hash_li li) = A \<and> dom (pv_author_to_vote pv) = A \<and>
     (\<forall>ls. pv_li_digest_to_votes pv (hash_li li) = Some ls \<longrightarrow> bt_wf (ls_signatures ls) \<and> ls_ledger_info ls = li)"

lemma collects_insert:
  assumes "collects hash_li li A pv" "vote_ledger_info vote = li" "vote_author vote \<notin> A"
    and "insert_vote hash_li vote v pv = (out, pv')"
  shows "collects hash_li li (insert (vote_author vote) A) pv'"
    and "wf_verifier v \<Longrightarrow> is_quorum v (insert (vote_author vote) A) \<Longrightarrow>
      \<exists>qc. out = Ok (NewQuorumCertificate qc) \<and> qc_ledger_info qc = li \<and>
        set (bt_keys (ls_signatures (qc_signed_ledger_info qc))) = insert (vote_author vote) A"
proof -
  define ls0 where "ls0 = (case pv_li_digest_to_votes pv (hash_li li) of
      Some ls \<Rightarrow> ls | None \<Rightarrow> \<lparr>ls_ledger_info = li, ls_signatures = []\<rparr>)"
  let ?ls = "add_signature ls0 (vote_author vote) (vote_signature vote)"
  have ls0: "bt_wf (ls_signatures ls0)" "set (bt_keys (ls_signatures ls0)) = A" "ls_ledger_info ls0 = li"
    using assms(1) by (auto simp: ls0_def collects_def signers_of_def split: option.splits)
  have ls: "bt_wf (ls_signatures ?ls)" "set (bt_keys (ls_signatures ?ls)) = insert (vote_author vote) A"
    "ls_ledger_info ?ls = li"
    using ls0 by (simp_all add: add_signature_def bt_wf_or_insert set_bt_keys_or_insert del: set_map)
  have "pv_author_to_vote pv (vote_author vote) = None"
    using assms(1,3) by (auto simp: collects_def)
  then have store: "insert_vote hash_li vote v pv =
      on_voting_power (check_voting_power v (bt_keys (ls_signatures ?ls)))
        (NewQuorumCertificate \<lparr>qc_vote_data = vote_vote_data vote, qc_signed_ledger_info = ?ls\<rparr>)
        (add_timeout_vote vote v)
        (pv\<lparr>pv_author_to_vote := (pv_author_to_vote pv)(vote_author vote \<mapsto> vote),
            pv_li_digest_to_votes := (pv_li_digest_to_votes pv)(hash_li li \<mapsto> ?ls)\<rparr>)"
    unfolding insert_vote_def store_vote_def Let_def ls0_def assms(2) by simp
  have "collects hash_li li (insert (vote_author vote) A) (snd (insert_vote hash_li vote v pv))"
    unfolding store using ls assms(1)
    by (intro on_voting_power_keeps [where P = "collects hash_li li (insert (vote_author vote) A)"])
      (simp_all add: collects_def signers_of_def add_timeout_vote_keeps)
  then show "collects hash_li li (insert (vote_author vote) A) pv'" using assms(4) by simp
  show "\<exists>qc. out = Ok (NewQuorumCertificate qc) \<and> qc_ledger_info qc = li \<and>
        set (bt_keys (ls_signatures (qc_signed_ledger_info qc))) = insert (vote_author vote) A"
    if "wf_verifier v" "is_quorum v (insert (vote_author vote) A)"
  proof -
    have "check_voting_power v (bt_keys (ls_signatures ?ls)) = Ok ()"
      using that(2) check_voting_power_iff [OF that(1)] bt_wf_distinct [OF ls(1)]
      unfolding is_quorum_def ls(2) [symmetric] by metis
    then have "out = Ok (NewQuorumCertificate \<lparr>qc_vote_data = vote_vote_data vote, qc_signed_ledger_info = ?ls\<rparr>)"
      using store assms(4) by (simp add: on_voting_power_def)
    then show ?thesis using ls(2,3) by (simp del: set_map)
  qed
qed

lemma insert_votes_append:
  "insert_votes hash_li v (xs @ ys) pv =
     (case insert_votes hash_li v xs pv of (rs, pv') \<Rightarrow>
        (case insert_votes hash_li v ys pv' of (rs', pv'') \<Rightarrow> (rs @ rs', pv'')))"
  by (induction xs arbitrary: pv) (auto split: prod.splits)

lemma collects_insert_votes:
  assumes "collects hash_li li A pv" "\<forall>vote \<in> set votes. vote_ledger_info vote = li"
    and "distinct (map vote_author votes)" "vote_author ` set votes \<inter> A = {}"
    and "insert_votes hash_li v votes pv = (outs, pv')"
  shows "collects hash_li li (A \<union> vote_author ` set votes) pv'"
  using assms
proof (induction votes arbitrary: pv A outs)
  case Nil
  then show ?case by simp
next
  case (Cons vote votes)
  obtain o1 pv1 where 1: "insert_vote hash_li vote v pv = (o1, pv1)" by fastforce
  then obtain outs2 where 2: "insert_votes hash_li v votes pv1 = (outs2, pv')"
    using Cons.prems(5) by (auto split: prod.splits)
  have "collects hash_li li (insert (vote_author vote) A) pv1"
    using collects_insert(1) [OF Cons.prems(1) _ _ 1] Cons.prems(2,4) by simp
  from Cons.IH [OF this _ _ _ 2] show ?case using Cons.prems(2-4) by auto
qed

section \<open>Properties\<close>


text \<open>Votes of the four validators for the first block of epoch 1.\<close>

definition round_one_vote_data :: vote_data where
  "round_one_vote_data =
     \<lparr>vd_proposed = block_info_empty\<lparr>bi_epoch := 1, bi_round := 1, bi_id := 7\<rparr>,
      vd_parent = block_info_empty\<lparr>bi_epoch := 1\<rparr>\<rparr>"

definition round_one_vote :: "account_address \<Rightarrow> vote" where
  "round_one_vote a = vote_new_with_signature round_one_vote_data a
     \<lparr>li_commit_info = block_info_empty, li_consensus_data_hash = 7\<rparr> (ucast a + 10)"

lemma round_one_vote_ok:
  assumes "a \<in> {1, 2, 3, 4}"
  shows "vote_ok toy_crypto four_verifier 1 1 {vote_ledger_info (round_one_vote 1)} (round_one_vote a)"
  using assms
  by (auto simp: vote_ok_def vote_verify_def round_one_vote_def round_one_vote_data_def vote_new_with_signature_def
      verify_def get_public_key_def four_verifier_def four_validators_def toy_crypto_def toy_sig_ops_def
      vote_data_verify_def block_info_empty_def)

definition round_one_qc :: quorum_cert where
  "round_one_qc =
     \<lparr>qc_vote_data = round_one_vote_data,
      qc_signed_ledger_info =
        \<lparr>ls_ledger_info = vote_ledger_info (round_one_vote 1), ls_signatures = [(1, 11), (2, 12), (3, 13)]\<rparr>\<rparr>"

lemma round_one_votes:
  "fst (insert_votes li_consensus_data_hash four_verifier [round_one_vote 1, round_one_vote 2, round_one_vote 3]
     pending_votes_new) = [Ok (VoteAdded 1), Ok (VoteAdded 2), Ok (NewQuorumCertificate round_one_qc)]"
  by (simp add: pending_votes_new_def insert_vote_def store_vote_def Let_def on_voting_power_def add_timeout_vote_def
      add_two_chain_timeout_vote_def add_signature_def bt_or_insert_def round_one_vote_def vote_new_with_signature_def
      check_voting_power_def four_verifier_def four_validators_def get_voting_power_def round_one_qc_def)




end
