(* ===== verification/Round_State.thy ===== *)
theory Round_State
  imports Pending_Votes
begin

text \<open>
  The round state machine of the consensus driver, \<^verbatim>\<open>consensus/src/liveness/round_state.rs\<close>:
  it moves to a new round on new certificates, keeps the votes of the current round and arms the
  local timeout. The trait object \<open>RoundTimeInterval\<close> is the function \<open>rs_time_interval\<close>, the
  clock is an argument of the operations that read it, and the timer is the one task that the
  latest \<open>abort_handle\<close> controls (arming a new one aborts it). A \<open>Duration\<close> is its number of
  nanoseconds; adding two of them panics when the seconds overflow a \<open>u64\<close>.
\<close>

section \<open>Data\<close>

type_synonym duration = nat

definition duration_add :: "duration \<Rightarrow> duration \<Rightarrow> ('e, duration) result" where
  "duration_add a b = (if a + b < 2 ^ 64 * 10 ^ 9 then Ok (a + b) else Panic)"

datatype new_round_reason = QCReady | Timeout

record new_round_event =
  nre_round :: round_t
  nre_reason :: new_round_reason
  nre_timeout :: duration

record round_state =
  rs_time_interval :: "u64 \<Rightarrow> duration"
  rs_highest_committed_round :: round_t
  rs_current_round :: round_t
  rs_current_round_deadline :: duration
  rs_pending_votes :: pending_votes
  rs_vote_sent :: "vote option"
  rs_abort_handle :: "(duration \<times> round_t) option"

type_synonym 'a rs_action = "(round_state, verify_error, 'a) action"

definition round_state_new :: "(u64 \<Rightarrow> duration) \<Rightarrow> duration \<Rightarrow> round_state" where
  "round_state_new time_interval now =
     \<lparr>rs_time_interval = time_interval, rs_highest_committed_round = 0, rs_current_round = 0,
      rs_current_round_deadline = now, rs_pending_votes = pending_votes_new, rs_vote_sent = None,
      rs_abort_handle = None\<rparr>"

section \<open>Operations\<close>

definition round_index_after_committed_round :: "round_state \<Rightarrow> u64" where
  "round_index_after_committed_round rs =
     (if rs_highest_committed_round rs = 0 then rs_current_round rs - 1
      else if rs_current_round rs < rs_highest_committed_round rs + 3 then 0
      else rs_current_round rs - rs_highest_committed_round rs - 3)"

definition setup_deadline :: "duration \<Rightarrow> duration rs_action" where
  "setup_deadline now rs =
     (let timeout = rs_time_interval rs (round_index_after_committed_round rs) in
      case duration_add now timeout of
        Ok deadline \<Rightarrow> (Ok timeout, rs\<lparr>rs_current_round_deadline := deadline\<rparr>)
      | Err e \<Rightarrow> (Err e, rs)
      | Panic \<Rightarrow> (Panic, rs))"

definition setup_timeout :: "duration \<Rightarrow> duration rs_action" where
  "setup_timeout now =
     bindS (setup_deadline now) (\<lambda>timeout rs.
       (Ok timeout, rs\<lparr>rs_abort_handle := Some (timeout, rs_current_round rs)\<rparr>))"

definition process_local_timeout :: "duration \<Rightarrow> round_t \<Rightarrow> bool rs_action" where
  "process_local_timeout now round rs =
     (if round \<noteq> rs_current_round rs then (Ok False, rs)
      else bindS (setup_timeout now) (\<lambda>_. ret True) rs)"

definition process_certificates :: "duration \<Rightarrow> sync_info \<Rightarrow> new_round_event option rs_action" where
  "process_certificates now si rs =
     (let rs = (if highest_ordered_round si > rs_highest_committed_round rs
                then rs\<lparr>rs_highest_committed_round := highest_ordered_round si\<rparr> else rs);
          new_round = highest_round si + 1
      in if new_round > rs_current_round rs then
           bindS (setup_timeout now) (\<lambda>timeout rs.
             (Ok (Some \<lparr>nre_round = rs_current_round rs,
                        nre_reason = (if highest_certified_round si + 1 = new_round then QCReady else Timeout),
                        nre_timeout = timeout\<rparr>), rs))
             (rs\<lparr>rs_current_round := new_round, rs_pending_votes := pending_votes_new, rs_vote_sent := None\<rparr>)
         else (Ok None, rs))"

definition rs_insert_vote ::
    "(ledger_info \<Rightarrow> hash_value) \<Rightarrow> vote \<Rightarrow> validator_verifier \<Rightarrow> vote_reception_result rs_action" where
  "rs_insert_vote hash_li vote verifier rs =
     (if bi_round (vd_proposed (vote_vote_data vote)) = rs_current_round rs then
        (case insert_vote hash_li vote verifier (rs_pending_votes rs) of
           (out, pv) \<Rightarrow> (out, rs\<lparr>rs_pending_votes := pv\<rparr>))
      else (Ok (UnexpectedRound (bi_round (vd_proposed (vote_vote_data vote))) (rs_current_round rs)), rs))"

definition record_vote :: "vote \<Rightarrow> round_state \<Rightarrow> round_state" where
  "record_vote vote rs =
     (if bi_round (vd_proposed (vote_vote_data vote)) = rs_current_round rs then rs\<lparr>rs_vote_sent := Some vote\<rparr> else rs)"

section \<open>Runs\<close>

text \<open>The calls of the driver, with what each returns. A panic ends the run.\<close>

datatype rs_input =
    LocalTimeout duration round_t
  | Certificates duration sync_info
  | ReceivedVote vote
  | SentVote vote

datatype rs_output =
    TimeoutHandled bool
  | RoundEvent "new_round_event option"
  | VoteResult round_t vote_reception_result
  | VoteRecorded

definition rs_step :: "(ledger_info \<Rightarrow> hash_value) \<Rightarrow> validator_verifier \<Rightarrow> rs_input \<Rightarrow> rs_output rs_action" where
  "rs_step hash_li v input =
     (case input of
        LocalTimeout now r \<Rightarrow> bindS (process_local_timeout now r) (\<lambda>b. ret (TimeoutHandled b))
      | Certificates now si \<Rightarrow> bindS (process_certificates now si) (\<lambda>ev. ret (RoundEvent ev))
      | ReceivedVote vote \<Rightarrow> (\<lambda>rs. bindS (rs_insert_vote hash_li vote v)
          (\<lambda>out. ret (VoteResult (rs_current_round rs) out)) rs)
      | SentVote vote \<Rightarrow> (\<lambda>rs. (Ok VoteRecorded, record_vote vote rs)))"

fun rs_run ::
    "(ledger_info \<Rightarrow> hash_value) \<Rightarrow> validator_verifier \<Rightarrow> rs_input list \<Rightarrow> round_state \<Rightarrow> rs_output list \<times> round_state" where
  "rs_run hash_li v [] rs = ([], rs)"
| "rs_run hash_li v (i # is) rs =
     (case rs_step hash_li v i rs of
        (Ok out, rs') \<Rightarrow> (case rs_run hash_li v is rs' of (outs, rs'') \<Rightarrow> (out # outs, rs''))
      | (_, rs') \<Rightarrow> ([], rs'))"

section \<open>The current round\<close>

lemma setup_timeout_keeps:
  "setup_timeout now rs = (out, rs') \<Longrightarrow> rs_current_round rs' = rs_current_round rs \<and>
     rs_pending_votes rs' = rs_pending_votes rs \<and> rs_vote_sent rs' = rs_vote_sent rs \<and>
     (\<forall>t. out = Ok t \<longrightarrow> rs_abort_handle rs' = Some (t, rs_current_round rs')) \<and>
     ((\<forall>t. out \<noteq> Ok t) \<longrightarrow> rs' = rs)"
  by (auto simp: setup_timeout_def setup_deadline_def bindS_def Let_def split: result.splits prod.splits)

lemma process_certificates_round:
  assumes "process_certificates now si rs = (Ok ev, rs')"
  shows "case ev of
      None \<Rightarrow> rs_current_round rs' = rs_current_round rs \<and> highest_round si + 1 \<le> rs_current_round rs \<and>
        rs_pending_votes rs' = rs_pending_votes rs \<and> rs_vote_sent rs' = rs_vote_sent rs \<and>
        rs_abort_handle rs' = rs_abort_handle rs
    | Some e \<Rightarrow> rs_current_round rs < nre_round e \<and> nre_round e = highest_round si + 1 \<and>
        rs_current_round rs' = nre_round e \<and> rs_pending_votes rs' = pending_votes_new \<and>
        rs_vote_sent rs' = None \<and> rs_abort_handle rs' = Some (nre_timeout e, nre_round e) \<and>
        (nre_reason e = QCReady \<longleftrightarrow> highest_certified_round si = highest_round si)"
proof -
  define rs1 where "rs1 = (if highest_ordered_round si > rs_highest_committed_round rs
      then rs\<lparr>rs_highest_committed_round := highest_ordered_round si\<rparr> else rs)"
  have same: "rs_current_round rs1 = rs_current_round rs" "rs_pending_votes rs1 = rs_pending_votes rs"
    "rs_vote_sent rs1 = rs_vote_sent rs" "rs_abort_handle rs1 = rs_abort_handle rs"
    by (simp_all add: rs1_def)
  show ?thesis
  proof (cases "highest_round si + 1 > rs_current_round rs")
    case True
    let ?rs = "rs1\<lparr>rs_current_round := highest_round si + 1, rs_pending_votes := pending_votes_new, rs_vote_sent := None\<rparr>"
    obtain t rs2 where t: "setup_timeout now ?rs = (Ok t, rs2)" "rs' = rs2"
      "ev = Some \<lparr>nre_round = rs_current_round rs2,
         nre_reason = (if highest_certified_round si + 1 = highest_round si + 1 then QCReady else Timeout), nre_timeout = t\<rparr>"
      using assms True same
      by (auto simp: process_certificates_def Let_def rs1_def [symmetric] bindS_Ok_iff)
    then show ?thesis using setup_timeout_keeps [OF t(1)] True by auto
  next
    case False
    then show ?thesis
      using assms same by (auto simp: process_certificates_def Let_def rs1_def [symmetric])
  qed
qed

lemma process_certificates_panic:
  "process_certificates now si rs = (out, rs') \<Longrightarrow> rs_current_round rs \<le> rs_current_round rs'"
  by (auto simp: process_certificates_def Let_def bindS_def dest!: setup_timeout_keeps
      split: if_splits prod.splits result.splits)

definition new_rounds :: "rs_output list \<Rightarrow> round_t list" where
  "new_rounds outs = concat (map (\<lambda>out. case out of RoundEvent (Some ev) \<Rightarrow> [nre_round ev] | _ \<Rightarrow> []) outs)"

lemma new_rounds_simps [simp]:
  "new_rounds [] = []"
  "new_rounds (out # outs) = (case out of RoundEvent (Some ev) \<Rightarrow> nre_round ev # new_rounds outs | _ \<Rightarrow> new_rounds outs)"
  by (simp_all add: new_rounds_def split: rs_output.split option.split)

lemma rs_step_rounds:
  assumes "rs_step hash_li v i rs = (res, rs')"
  shows "rs_current_round rs \<le> rs_current_round rs'"
    and "res = Ok out \<Longrightarrow> (case out of
        RoundEvent (Some ev) \<Rightarrow> rs_current_round rs < nre_round ev \<and> rs_current_round rs' = nre_round ev
      | _ \<Rightarrow> rs_current_round rs' = rs_current_round rs)"
proof -
  have "rs_current_round rs \<le> rs_current_round rs' \<and> (\<forall>out. res = Ok out \<longrightarrow> (case out of
        RoundEvent (Some ev) \<Rightarrow> rs_current_round rs < nre_round ev \<and> rs_current_round rs' = nre_round ev
      | _ \<Rightarrow> rs_current_round rs' = rs_current_round rs))"
  proof (cases i)
    case (LocalTimeout now r)
    then show ?thesis
      using assms
      by (auto simp: rs_step_def process_local_timeout_def bindS_def ret_def dest!: setup_timeout_keeps
          split: if_splits prod.splits result.splits)
  next
    case (Certificates now si)
    then show ?thesis
      using assms
        process_certificates_panic [of now si rs _ rs'] process_certificates_round [of now si rs _ rs']
      by (auto simp: rs_step_def bindS_def ret_def split: prod.splits result.splits option.splits)
  qed (use assms in \<open>auto simp: rs_step_def rs_insert_vote_def record_vote_def bindS_def ret_def
      split: if_splits prod.splits result.splits\<close>)
  then show "rs_current_round rs \<le> rs_current_round rs'"
    and "res = Ok out \<Longrightarrow> (case out of
        RoundEvent (Some ev) \<Rightarrow> rs_current_round rs < nre_round ev \<and> rs_current_round rs' = nre_round ev
      | _ \<Rightarrow> rs_current_round rs' = rs_current_round rs)"
    by simp_all
qed

lemma rs_run_rounds:
  "rs_run hash_li v is rs = (outs, rs') \<Longrightarrow>
     sorted_wrt (<) (rs_current_round rs # new_rounds outs) \<and>
     last (rs_current_round rs # new_rounds outs) \<le> rs_current_round rs'"
proof (induction "is" arbitrary: rs outs)
  case Nil
  then show ?case by simp
next
  case (Cons i "is")
  obtain res rs1 where 1: "rs_step hash_li v i rs = (res, rs1)" by fastforce
  note round = rs_step_rounds [OF 1]
  show ?case
  proof (cases res)
    case (Ok out)
    then obtain outs1 where 2: "rs_run hash_li v is rs1 = (outs1, rs')" "outs = out # outs1"
      using Cons.prems 1 by (auto split: prod.splits)
    show ?thesis
      using Cons.IH [OF 2(1)] 2(2) round(2) [OF Ok]
      by (cases out) (auto split: option.splits intro: order.strict_trans)
  qed (use Cons.prems 1 round(1) in auto)
qed

section \<open>Votes and timer of the current round\<close>

definition rs_inv ::
    "consensus_crypto \<Rightarrow> validator_verifier \<Rightarrow> u64 \<Rightarrow> ledger_info set \<Rightarrow> (ledger_info \<Rightarrow> hash_value) \<Rightarrow> round_state \<Rightarrow> bool" where
  "rs_inv cc v e L hash_li rs \<longleftrightarrow>
     pv_inv cc v e (rs_current_round rs) L hash_li (rs_pending_votes rs) \<and>
     (\<forall>vote. rs_vote_sent rs = Some vote \<longrightarrow> vote_round vote = rs_current_round rs) \<and>
     (\<forall>t r. rs_abort_handle rs = Some (t, r) \<longrightarrow> r = rs_current_round rs)"

lemma round_state_new_inv: "rs_inv cc v e L hash_li (round_state_new time_interval now)"
  by (simp add: rs_inv_def round_state_new_def pending_votes_new_inv)

definition input_ok :: "consensus_crypto \<Rightarrow> validator_verifier \<Rightarrow> u64 \<Rightarrow> ledger_info set \<Rightarrow> rs_input \<Rightarrow> bool" where
  "input_ok cc v e L i \<longleftrightarrow>
     (\<forall>vote. i = ReceivedVote vote \<longrightarrow>
        vote_verify cc vote v = Ok () \<and> vote_epoch vote = e \<and> vote_ledger_info vote \<in> L)"

lemma rs_step_inv:
  assumes inv: "rs_inv cc v e L hash_li rs" and inj: "inj_on hash_li L" and i: "input_ok cc v e L i"
    and step: "rs_step hash_li v i rs = (Ok out, rs')"
  shows "rs_inv cc v e L hash_li rs'"
    and "\<And>r res. out = VoteResult r res \<Longrightarrow> r = rs_current_round rs \<and> cert_ok cc v e r res"
proof -
  have "rs_inv cc v e L hash_li rs' \<and>
      (\<forall>r res. out = VoteResult r res \<longrightarrow> r = rs_current_round rs \<and> cert_ok cc v e r res)"
  proof (cases i)
    case (LocalTimeout now r)
    then show ?thesis
      using inv step
      by (auto simp: rs_step_def process_local_timeout_def rs_inv_def bindS_Ok_iff dest!: setup_timeout_keeps
          split: if_splits)
  next
    case (Certificates now si)
    then obtain ev where ev: "process_certificates now si rs = (Ok ev, rs')" "out = RoundEvent ev"
      using step by (auto simp: rs_step_def bindS_Ok_iff)
    then show ?thesis
      using inv process_certificates_round [OF ev(1)]
      by (cases ev) (simp_all add: rs_inv_def pending_votes_new_inv)
  next
    case (ReceivedVote vote)
    then obtain res where res: "rs_insert_vote hash_li vote v rs = (Ok res, rs')"
      "out = VoteResult (rs_current_round rs) res"
      using step by (auto simp: rs_step_def bindS_Ok_iff)
    show ?thesis
    proof (cases "vote_round vote = rs_current_round rs")
      case True
      then obtain pv where pv: "insert_vote hash_li vote v (rs_pending_votes rs) = (Ok res, pv)"
        "rs' = rs\<lparr>rs_pending_votes := pv\<rparr>"
        using res(1) by (auto simp: rs_insert_vote_def split: prod.splits)
      have "step_ok cc v e (rs_current_round rs) L hash_li (insert_vote hash_li vote v (rs_pending_votes rs))"
        using insert_vote_step [OF _ _ inj, of cc v e "rs_current_round rs" "rs_pending_votes rs" vote]
          inv i ReceivedVote True by (simp add: rs_inv_def input_ok_def vote_ok_def)
      then show ?thesis using pv res(2) inv by (simp add: step_ok_def rs_inv_def)
    next
      case False
      then show ?thesis using res inv by (auto simp: rs_insert_vote_def cert_ok_def)
    qed
  next
    case (SentVote vote)
    then show ?thesis using inv step by (auto simp: rs_step_def record_vote_def rs_inv_def split: if_splits)
  qed
  then show "rs_inv cc v e L hash_li rs'"
    and "\<And>r res. out = VoteResult r res \<Longrightarrow> r = rs_current_round rs \<and> cert_ok cc v e r res"
    by simp_all
qed

lemma rs_run_certificates:
  assumes "inj_on hash_li L"
  shows "rs_inv cc v e L hash_li rs \<Longrightarrow> list_all (input_ok cc v e L) is \<Longrightarrow> rs_run hash_li v is rs = (outs, rs') \<Longrightarrow>
    VoteResult r res \<in> set outs \<Longrightarrow> cert_ok cc v e r res"
proof (induction "is" arbitrary: rs outs)
  case Nil
  then show ?case by simp
next
  case (Cons i "is")
  then obtain out rs1 where 1: "rs_step hash_li v i rs = (Ok out, rs1)"
    by (cases "rs_step hash_li v i rs") (auto split: result.splits)
  then obtain outs1 where 2: "rs_run hash_li v is rs1 = (outs1, rs')" "outs = out # outs1"
    using Cons.prems(3) by (auto split: prod.splits)
  note step = rs_step_inv [OF Cons.prems(1) assms _ 1]
  show ?case
    using Cons.IH [OF _ _ 2(1)] step Cons.prems(2,4) 2(2) by auto
qed

section \<open>Properties\<close>

text \<open>C11: New rounds are announced in strictly increasing order. Whatever certificates, votes and
  local timeouts arrive, in whatever order, the rounds of the \<open>NewRoundEvent\<close>s that are produced
  are strictly increasing, all above the round the run started in, and the current round is never
  below the last of them.\<close>

theorem new_rounds_increase:
  assumes "rs_run hash_li v is rs = (outs, rs')"
  shows "sorted_wrt (<) (rs_current_round rs # new_rounds outs) \<and>
    last (rs_current_round rs # new_rounds outs) \<le> rs_current_round rs'"
  using assms by (rule rs_run_rounds)

text \<open>A run of round 1: the certificate of round 0 arrives, then the votes of three validators.\<close>

definition round_zero_info :: sync_info where
  "round_zero_info =
     \<lparr>si_highest_quorum_cert =
        \<lparr>qc_vote_data = \<lparr>vd_proposed = block_info_empty, vd_parent = block_info_empty\<rparr>,
         qc_signed_ledger_info =
           \<lparr>ls_ledger_info = \<lparr>li_commit_info = block_info_empty, li_consensus_data_hash = 0\<rparr>, ls_signatures = []\<rparr>\<rparr>,
      si_highest_ordered_cert = None, si_highest_ledger_info = None, si_highest_timeout_cert = None,
      si_highest_2chain_timeout_cert = None\<rparr>"

definition round_one_inputs :: "rs_input list" where
  "round_one_inputs =
     [Certificates 5 round_zero_info, ReceivedVote (round_one_vote 1), ReceivedVote (round_one_vote 2),
      ReceivedVote (round_one_vote 3)]"

lemma rs_insert_votes_run:
  "list_all (\<lambda>vote. vote_round vote = rs_current_round rs) votes \<Longrightarrow>
   insert_votes hash_li v votes (rs_pending_votes rs) = (map Ok results, pv) \<Longrightarrow>
   rs_run hash_li v (map ReceivedVote votes) rs =
     (map (VoteResult (rs_current_round rs)) results, rs\<lparr>rs_pending_votes := pv\<rparr>)"
proof (induction votes arbitrary: rs results)
  case Nil
  then show ?case by simp
next
  case (Cons vote votes)
  obtain o1 pv1 where 1: "insert_vote hash_li vote v (rs_pending_votes rs) = (o1, pv1)" by fastforce
  then obtain outs2 where 2: "insert_votes hash_li v votes pv1 = (outs2, pv)" "map Ok results = o1 # outs2"
    using Cons.prems(2) by (auto split: prod.splits)
  then obtain x xs where r: "results = x # xs" "o1 = Ok x" "outs2 = map Ok xs" by auto
  show ?case
    using Cons.IH [of "rs\<lparr>rs_pending_votes := pv1\<rparr>" xs] Cons.prems(1) 1 2(1) r
    by (simp add: rs_step_def rs_insert_vote_def bindS_def ret_def)
qed

lemma round_one_start:
  "rs_step li_consensus_data_hash four_verifier (Certificates 5 round_zero_info) (round_state_new (\<lambda>_. 7) 0) =
     (Ok (RoundEvent (Some \<lparr>nre_round = 1, nre_reason = QCReady, nre_timeout = 7\<rparr>)),
      \<lparr>rs_time_interval = (\<lambda>_. 7), rs_highest_committed_round = 0, rs_current_round = 1,
       rs_current_round_deadline = 12, rs_pending_votes = pending_votes_new, rs_vote_sent = None,
       rs_abort_handle = Some (7, 1)\<rparr>)"
  by (simp add: rs_step_def process_certificates_def round_zero_info_def highest_ordered_round_def
      highest_ordered_cert_def highest_round_def highest_certified_round_def highest_timeout_round_def
      block_info_empty_def round_state_new_def setup_timeout_def setup_deadline_def duration_add_def
      round_index_after_committed_round_def bindS_def ret_def Let_def)

lemma round_one_run:
  "fst (rs_run li_consensus_data_hash four_verifier round_one_inputs (round_state_new (\<lambda>_. 7) 0)) =
     [RoundEvent (Some \<lparr>nre_round = 1, nre_reason = QCReady, nre_timeout = 7\<rparr>),
      VoteResult 1 (VoteAdded 1), VoteResult 1 (VoteAdded 2), VoteResult 1 (NewQuorumCertificate round_one_qc)]"
proof -
  let ?rs = "snd (rs_step li_consensus_data_hash four_verifier (Certificates 5 round_zero_info) (round_state_new (\<lambda>_. 7) 0))"
  let ?votes = "[round_one_vote 1, round_one_vote 2, round_one_vote 3]"
  obtain pv where "insert_votes li_consensus_data_hash four_verifier ?votes (rs_pending_votes ?rs) =
      (map Ok [VoteAdded 1, VoteAdded 2, NewQuorumCertificate round_one_qc], pv)"
    using round_one_votes by (cases "insert_votes li_consensus_data_hash four_verifier ?votes pending_votes_new")
      (simp add: round_one_start del: insert_votes.simps)
  from rs_insert_votes_run [OF _ this] show ?thesis
    by (simp add: round_one_inputs_def round_one_start round_one_vote_def vote_new_with_signature_def
        round_one_vote_data_def del: insert_votes.simps)
qed

theorem new_rounds_increase_witness:
  "new_rounds (fst (rs_run li_consensus_data_hash four_verifier round_one_inputs (round_state_new (\<lambda>_. 7) 0))) = [1] \<and>
   sorted_wrt (<) (rs_current_round (round_state_new (\<lambda>_. 7) 0) #
     new_rounds (fst (rs_run li_consensus_data_hash four_verifier round_one_inputs (round_state_new (\<lambda>_. 7) 0))))"
proof
  show "sorted_wrt (<) (rs_current_round (round_state_new (\<lambda>_. 7) 0) #
      new_rounds (fst (rs_run li_consensus_data_hash four_verifier round_one_inputs (round_state_new (\<lambda>_. 7) 0))))"
    using new_rounds_increase [OF prod.collapse [symmetric]] by blast
qed (simp add: round_one_run)

text \<open>C12: Certificates assembled from votes verify. When the votes that arrive have been verified and
  are of one epoch, then, however they interleave with timeouts and changes of round, every quorum
  certificate, timeout certificate and 2-chain timeout certificate that the round state returns is
  for that epoch and for the round that was current, and passes its own \<open>verify\<close>, so that every
  validator accepts it.\<close>

theorem round_certificates_verify:
  assumes "inj_on hash_li L" "list_all (input_ok cc v e L) is"
    and "rs_run hash_li v is (round_state_new time_interval now) = (outs, rs)"
  shows "\<forall>r res. VoteResult r res \<in> set outs \<longrightarrow> cert_ok cc v e r res"
  using rs_run_certificates [OF assms(1) round_state_new_inv assms(2,3)] by blast

theorem round_certificates_verify_witness: "qc_verify toy_crypto round_one_qc four_verifier = Ok ()"
proof -
  let ?L = "{vote_ledger_info (round_one_vote 1)}"
  have "input_ok toy_crypto four_verifier 1 ?L (ReceivedVote (round_one_vote a))" if "a \<in> {1, 2, 3, 4}" for a
    using round_one_vote_ok [OF that] by (simp add: input_ok_def vote_ok_def)
  moreover have "input_ok toy_crypto four_verifier 1 ?L (Certificates 5 round_zero_info)"
    by (simp add: input_ok_def)
  ultimately have "list_all (input_ok toy_crypto four_verifier 1 ?L) round_one_inputs"
    by (simp add: round_one_inputs_def)
  from round_certificates_verify [OF _ this prod.collapse [symmetric],
      of li_consensus_data_hash "\<lambda>_. 7" 0]
  have "cert_ok toy_crypto four_verifier 1 1 (NewQuorumCertificate round_one_qc)"
    unfolding round_one_run by simp
  then show ?thesis by (simp add: cert_ok_def)
qed

end
