(* ===== verification/Proposer_Election.thy ===== *)
theory Proposer_Election
  imports Consensus_Messages
begin

text \<open>
  The choice of the proposer of a round: \<^verbatim>\<open>consensus/src/liveness/proposer_election.rs\<close>,
  \<^verbatim>\<open>rotating_proposer_election.rs\<close>, \<^verbatim>\<open>round_proposer_election.rs\<close> and
  \<^verbatim>\<open>leader_reputation.rs\<close>. Parameters are SHA3-256 (\<open>sha3_256_of\<close>), the database behind the
  committed metadata (\<open>db_reader\<close>) and the decoding of its events. The metrics that
  \<open>get_weights\<close> counts on the side are left out.
\<close>

section \<open>The trait and its pseudo-random index\<close>

type_synonym election = "round_t \<Rightarrow> (anyhow_error, author_t) result"

definition is_valid_proposer :: "election \<Rightarrow> author_t \<Rightarrow> round_t \<Rightarrow> (anyhow_error, bool) result" where
  "is_valid_proposer get_valid_proposer author round =
     bind_res (get_valid_proposer round) (\<lambda>p. Ok (p = author))"

definition is_valid_proposal :: "election \<Rightarrow> block \<Rightarrow> (anyhow_error, bool) result" where
  "is_valid_proposal get_valid_proposer b =
     (case blk_author b of None \<Rightarrow> Ok False | Some author \<Rightarrow> is_valid_proposer get_valid_proposer author (blk_round b))"

definition to_le_bytes :: "u64 \<Rightarrow> u8 list" where
  "to_le_bytes w = map (\<lambda>i. ucast (drop_bit (8 * i) w)) [0..<8]"

definition from_le_bytes :: "u8 list \<Rightarrow> u64" where
  "from_le_bytes bs = foldr (\<lambda>b acc. push_bit 8 acc OR ucast b) bs 0"

definition next_state :: "(u8 list \<Rightarrow> hash_value) \<Rightarrow> u8 list \<Rightarrow> u64 \<times> u8 list" where
  "next_state sha3_256_of state =
     (let state' = hash_to_vec (sha3_256_of state) in (from_le_bytes (take 8 state'), state'))"

section \<open>Fixed proposers\<close>

record rotating_proposer =
  rp_proposers :: "author_t list"
  rp_contiguous_rounds :: u32

fun choose_leader :: "author_t list \<Rightarrow> (anyhow_error, author_t) result" where
  "choose_leader [] = Panic"
| "choose_leader (p # ps) = Ok (fold min ps p)"

definition rotating_get_valid_proposer :: "rotating_proposer \<Rightarrow> election" where
  "rotating_get_valid_proposer rp round =
     (if rp_contiguous_rounds rp = 0 \<or> rp_proposers rp = [] then Panic
      else Ok (rp_proposers rp !
        unat ((round div ucast (rp_contiguous_rounds rp)) mod word_of_nat (length (rp_proposers rp)))))"

record round_proposer =
  rdp_proposers :: "round_t \<rightharpoonup> author_t"
  rdp_default_proposer :: author_t

definition round_get_valid_proposer :: "round_proposer \<Rightarrow> election" where
  "round_get_valid_proposer rp round =
     (case rdp_proposers rp round of None \<Rightarrow> Ok (rdp_default_proposer rp) | Some p \<Rightarrow> Ok p)"

section \<open>Committed history\<close>

record new_block_event =
  nbe_round :: u64
  nbe_proposer :: author_t
  nbe_votes :: "author_t list"
  nbe_timestamp :: u64

record db_reader =
  dbr_get_events :: "u64 \<Rightarrow> (anyhow_error, (u64 \<times> u8 list) list) result"
  dbr_get_latest_version :: "(anyhow_error, u64) result"
  dbr_decode_event :: "u8 list \<Rightarrow> (anyhow_error, new_block_event) result"

record diem_db_backend =
  dbb_window_size :: u64
  dbb_window :: "(u64 \<times> new_block_event) list"

fun refresh_loop ::
    "db_reader \<Rightarrow> round_t \<Rightarrow> u64 \<Rightarrow> (u64 \<times> u8 list) list \<Rightarrow> (u64 \<times> new_block_event) list
      \<Rightarrow> (anyhow_error, (u64 \<times> new_block_event) list) result" where
  "refresh_loop db target_round window_size [] acc = Ok acc"
| "refresh_loop db target_round window_size ((v, d) # events) acc =
     bind_res (dbr_decode_event db d) (\<lambda>e.
       refresh_loop db target_round window_size events
         (if nbe_round e \<le> target_round \<and> length acc < unat window_size then acc @ [(v, e)] else acc))"

definition refresh_window :: "db_reader \<Rightarrow> round_t \<Rightarrow> (diem_db_backend, anyhow_error, unit) action" where
  "refresh_window db target_round b =
     (case bind_res (dbr_get_events db (dbb_window_size b + 10))
             (\<lambda>events. refresh_loop db target_round (dbb_window_size b) events []) of
        Ok w \<Rightarrow> (Ok (), b\<lparr>dbb_window := w\<rparr>)
      | Err e \<Rightarrow> (Err e, b)
      | Panic \<Rightarrow> (Panic, b))"

definition get_block_metadata ::
    "db_reader \<Rightarrow> round_t \<Rightarrow> (diem_db_backend, anyhow_error, new_block_event list) action" where
  "get_block_metadata db target_round b =
     (let (known_version, known_round) =
            (case dbb_window b of [] \<Rightarrow> (0, 0) | (v, e) # _ \<Rightarrow> (v, nbe_round e));
          latest = (case dbr_get_latest_version db of Ok v \<Rightarrow> v | _ \<Rightarrow> 0)
      in if \<not> (known_round = target_round \<or> known_version = latest) then
           (case refresh_window db target_round b of
              (Ok _, b') \<Rightarrow> (Ok (map snd (dbb_window b')), b')
            | (Err _, b') \<Rightarrow> (Ok [], b')
            | (Panic, b') \<Rightarrow> (Panic, b'))
         else (Ok (map snd (dbb_window b)), b))"

record active_inactive_heuristic =
  aih_author :: author_t
  aih_active_weight :: u64
  aih_inactive_weight :: u64

definition get_weights :: "active_inactive_heuristic \<Rightarrow> author_t list \<Rightarrow> new_block_event list \<Rightarrow> u64 list" where
  "get_weights h candidates history =
     (let active = foldl (\<lambda>set meta. foldl (\<lambda>set vote. insert vote set) (insert (nbe_proposer meta) set) (nbe_votes meta))
            {} history
      in map (\<lambda>author. if author \<in> active then aih_active_weight h else aih_inactive_weight h) candidates)"

section \<open>Leader reputation\<close>

record leader_reputation =
  lr_proposers :: "author_t list"
  lr_already_proposed :: "round_t \<times> (author_t \<rightharpoonup> hash_value)"
  lr_exclude_round :: u64

definition leader_reputation_new :: "author_t list \<Rightarrow> u64 \<Rightarrow> leader_reputation" where
  "leader_reputation_new proposers exclude_round =
     \<lparr>lr_proposers = proposers, lr_already_proposed = (0, Map.empty), lr_exclude_round = exclude_round\<rparr>"

text \<open>The loop that replaces each weight by the running total.\<close>

fun accumulate_weights :: "u64 \<Rightarrow> u64 list \<Rightarrow> u64 list" where
  "accumulate_weights acc [] = []"
| "accumulate_weights acc (w # ws) = (acc + w) # accumulate_weights (acc + w) ws"

datatype cmp_ordering = Less | Equal | Greater

text \<open>\<open>slice::binary_search_by\<close>: \<open>Ok\<close> is the index of a match, \<open>Err\<close> the insertion point. The
  interval \<open>left..right\<close> shrinks in every iteration.\<close>

function binary_search_loop :: "('a \<Rightarrow> cmp_ordering) \<Rightarrow> 'a list \<Rightarrow> nat \<Rightarrow> nat \<Rightarrow> (nat, nat) result" where
  "binary_search_loop f xs left right =
     (if left < right then
        (let mid = left + (right - left) div 2 in
         case f (xs ! mid) of
           Less \<Rightarrow> binary_search_loop f xs (mid + 1) right
         | Greater \<Rightarrow> binary_search_loop f xs left mid
         | Equal \<Rightarrow> Ok mid)
      else Err left)"
  by pat_completeness auto
termination by (relation "measure (\<lambda>(f, xs, left, right). right - left)") auto

declare binary_search_loop.simps [simp del]

definition binary_search_by :: "('a \<Rightarrow> cmp_ordering) \<Rightarrow> 'a list \<Rightarrow> (nat, nat) result" where
  "binary_search_by f xs = binary_search_loop f xs 0 (length xs)"

definition chosen_index :: "u64 list \<Rightarrow> u64 \<Rightarrow> (anyhow_error, nat) result" where
  "chosen_index weights chosen_weight =
     (case binary_search_by (\<lambda>w. if w \<le> chosen_weight then Less else Greater) weights of
        Err i \<Rightarrow> Ok i | _ \<Rightarrow> Panic)"

definition elect :: "author_t list \<Rightarrow> u64 list \<Rightarrow> u64 \<Rightarrow> (anyhow_error, author_t) result" where
  "elect proposers weights index =
     (let sums = accumulate_weights 0 weights; total_weight = last (0 # sums) in
      if total_weight = 0 then Panic
      else bind_res (chosen_index sums (index mod total_weight)) (\<lambda>i.
        if i < length proposers then Ok (proposers ! i) else Panic))"

definition lr_get_valid_proposer ::
    "(u8 list \<Rightarrow> hash_value) \<Rightarrow> (round_t \<Rightarrow> new_block_event list)
      \<Rightarrow> (author_t list \<Rightarrow> new_block_event list \<Rightarrow> u64 list) \<Rightarrow> leader_reputation \<Rightarrow> election" where
  "lr_get_valid_proposer sha3_256_of backend heuristic lr round =
     (let target_round = saturating_sub round (lr_exclude_round lr);
          sliding_window = backend target_round;
          weights = heuristic (lr_proposers lr) sliding_window
      in bind_res (assert_that (length weights = length (lr_proposers lr))) (\<lambda>_.
           elect (lr_proposers lr) weights (fst (next_state sha3_256_of (to_le_bytes round)))))"

definition lr_is_valid_proposal ::
    "(u8 list \<Rightarrow> hash_value) \<Rightarrow> (round_t \<Rightarrow> new_block_event list)
      \<Rightarrow> (author_t list \<Rightarrow> new_block_event list \<Rightarrow> u64 list) \<Rightarrow> block \<Rightarrow> (leader_reputation, anyhow_error, bool) action" where
  "lr_is_valid_proposal sha3_256_of backend heuristic b lr =
     (case blk_author b of
        None \<Rightarrow> (Ok False, lr)
      | Some author \<Rightarrow>
          bindS (lift_res (is_valid_proposer (lr_get_valid_proposer sha3_256_of backend heuristic lr) author (blk_round b)))
            (\<lambda>valid lr.
              if \<not> valid then (Ok False, lr)
              else let (round, proposed) = lr_already_proposed lr in
                if blk_round b > round then
                  (Ok True, lr\<lparr>lr_already_proposed := (blk_round b, [author \<mapsto> blk_id b])\<rparr>)
                else if blk_round b = round then
                  if (case proposed author of None \<Rightarrow> False | Some i \<Rightarrow> i \<noteq> blk_id b) then (Ok False, lr)
                  else (Ok True, lr\<lparr>lr_already_proposed := (round, proposed(author \<mapsto> blk_id b))\<rparr>)
                else (Ok False, lr)) lr)"

section \<open>Searching the running totals\<close>

lemma binary_search_loop_partition:
  fixes xs :: "'a list"
  assumes mono: "\<And>i j. i < j \<Longrightarrow> j < length xs \<Longrightarrow> P (xs ! j) \<Longrightarrow> P (xs ! i)"
  shows "left \<le> right \<Longrightarrow> right \<le> length xs \<Longrightarrow> (\<forall>i < left. P (xs ! i)) \<Longrightarrow>
    (\<forall>i. right \<le> i \<and> i < length xs \<longrightarrow> \<not> P (xs ! i)) \<Longrightarrow>
    \<exists>k \<le> length xs. binary_search_loop (\<lambda>x. if P x then Less else Greater) xs left right = Err k \<and>
      (\<forall>i < k. P (xs ! i)) \<and> (\<forall>i. k \<le> i \<and> i < length xs \<longrightarrow> \<not> P (xs ! i))"
proof (induction "right - left" arbitrary: left right rule: less_induct)
  case less
  note unfold = binary_search_loop.simps [of "\<lambda>x. if P x then Less else Greater" xs left right]
  show ?case
  proof (cases "left < right")
    case False
    then have "right = left" using less.prems(1) by simp
    then show ?thesis using less.prems(2-4) unfold by (intro exI [of _ left]) simp
  next
    case True
    define mid where "mid = left + (right - left) div 2"
    have mid: "left \<le> mid" "mid < right" using True by (auto simp: mid_def)
    show ?thesis
    proof (cases "P (xs ! mid)")
      case P: True
      have "\<forall>i < mid + 1. P (xs ! i)"
      proof (intro allI impI)
        fix i assume "i < mid + 1"
        then show "P (xs ! i)" using mono [of i mid] P mid(2) less.prems(2) by (cases "i = mid") auto
      qed
      then show ?thesis
        using less.hyps [of right "mid + 1"] less.prems(2,4) P mid unfold True by (simp add: Let_def mid_def [symmetric])
    next
      case P: False
      have "\<forall>i. mid \<le> i \<and> i < length xs \<longrightarrow> \<not> P (xs ! i)"
      proof (intro allI impI)
        fix i assume "mid \<le> i \<and> i < length xs"
        then show "\<not> P (xs ! i)" using mono [of mid i] P by (cases "i = mid") auto
      qed
      then show ?thesis
        using less.hyps [of mid left] less.prems(2,3) P mid unfold True by (simp add: Let_def mid_def [symmetric])
    qed
  qed
qed

definition weight_before :: "u64 list \<Rightarrow> nat \<Rightarrow> nat" where
  "weight_before ws i = sum_list (map unat (take i ws))"

lemma weight_before_Suc: "i < length ws \<Longrightarrow> weight_before ws (Suc i) = weight_before ws i + unat (ws ! i)"
  by (simp add: weight_before_def take_Suc_conv_app_nth)

lemma weight_before_mono: "i \<le> j \<Longrightarrow> weight_before ws i \<le> weight_before ws j"
proof (induction j)
  case (Suc j)
  have "weight_before ws j \<le> weight_before ws (Suc j)"
    by (cases "j < length ws") (simp_all add: weight_before_Suc, simp add: weight_before_def)
  with Suc show ?case by (cases "i = Suc j") auto
qed simp

lemma accumulate_weights_nth:
  "unat acc + sum_list (map unat ws) < 2 ^ 64 \<Longrightarrow> i < length ws \<Longrightarrow>
     unat (accumulate_weights acc ws ! i) = unat acc + weight_before ws (Suc i)"
proof (induction acc ws arbitrary: i rule: accumulate_weights.induct)
  case (2 acc w ws)
  have "unat (acc + w) = unat acc + unat w"
    using 2(2) by (intro unat_add_no_wrap) simp
  then show ?case using 2 by (cases i) (simp_all add: weight_before_def)
qed simp

lemma length_accumulate_weights [simp]: "length (accumulate_weights acc ws) = length ws"
  by (induction acc ws rule: accumulate_weights.induct) auto

lemma elect_index:
  assumes len: "length ws = length proposers" and total: "sum_list (map unat ws) < 2 ^ 64"
    and i: "i < length ws" "weight_before ws i \<le> unat index mod sum_list (map unat ws)"
    "unat index mod sum_list (map unat ws) < weight_before ws (Suc i)"
  shows "elect proposers ws index = Ok (proposers ! i)"
proof -
  let ?sums = "accumulate_weights 0 ws"
  have nth: "unat (?sums ! j) = weight_before ws (Suc j)" if "j < length ws" for j
    using accumulate_weights_nth [of 0 ws j] total that by simp
  have "?sums \<noteq> []" using i(1) length_accumulate_weights [of 0 ws] by fastforce
  then have last: "unat (last (0 # ?sums)) = sum_list (map unat ws)"
    using nth [of "length ws - 1"] i(1) by (simp add: last_conv_nth weight_before_def)
  define c where "c = index mod last (0 # ?sums)"
  have c: "unat c = unat index mod sum_list (map unat ws)" unfolding c_def unat_mod last ..
  have "0 < sum_list (map unat ws)"
    using i(3) weight_before_mono [of "Suc i" "length ws" ws] i(1) by (simp add: weight_before_def)
  then have pos: "last (0 # ?sums) \<noteq> 0" using last by (metis less_numeral_extra(3) unat_0)
  have le: "?sums ! j \<le> c \<longleftrightarrow> weight_before ws (Suc j) \<le> unat c" if "j < length ws" for j
    using nth [OF that] by (simp add: word_le_nat_alt)
  have "\<exists>k \<le> length ?sums. binary_search_loop (\<lambda>w. if w \<le> c then Less else Greater) ?sums 0 (length ?sums) = Err k \<and>
      (\<forall>i < k. ?sums ! i \<le> c) \<and> (\<forall>i. k \<le> i \<and> i < length ?sums \<longrightarrow> \<not> ?sums ! i \<le> c)"
  proof (rule binary_search_loop_partition)
    fix m n assume "m < n" "n < length ?sums" "?sums ! n \<le> c"
    then show "?sums ! m \<le> c"
      using le [of m] le [of n] weight_before_mono [of "Suc m" "Suc n" ws] by simp
  qed auto
  then obtain k where k: "k \<le> length ws" "chosen_index ?sums c = Ok k"
    "\<forall>j < k. weight_before ws (Suc j) \<le> unat c" "\<forall>j. k \<le> j \<and> j < length ws \<longrightarrow> unat c < weight_before ws (Suc j)"
    using le by (auto simp: chosen_index_def binary_search_by_def not_le)
  have "k = i"
  proof (rule linorder_cases [of k i])
    assume "k < i"
    then show ?thesis using k(4) i c weight_before_mono [of "Suc k" i ws] by fastforce
  next
    assume "i < k"
    then show ?thesis using k(3) i(3) c by fastforce
  qed
  then show ?thesis using k(2) pos i(1) len by (simp add: elect_def Let_def c_def)
qed

lemma weight_interval:
  assumes "c < sum_list (map unat ws)"
  obtains i where "i < length ws" "weight_before ws i \<le> c" "c < weight_before ws (Suc i)"
proof -
  let ?P = "\<lambda>n. c < weight_before ws n"
  have end_: "?P (length ws)" using assms by (simp add: weight_before_def)
  define n where "n = (LEAST n. ?P n)"
  have n: "?P n" "n \<le> length ws" unfolding n_def by (rule LeastI [of ?P, OF end_]) (rule Least_le [of ?P, OF end_])
  have "n \<noteq> 0" using n(1) by (cases n) (auto simp: weight_before_def)
  moreover have "\<not> ?P (n - 1)"
    using \<open>n \<noteq> 0\<close> not_less_Least [of "n - 1" ?P] by (simp add: n_def)
  ultimately show thesis using that [of "n - 1"] n by simp
qed

section \<open>Accepted proposals\<close>

text \<open>A sequence of calls of \<open>is_valid_proposal\<close>, each with what the backend answers at that time, and
  the blocks that were accepted.\<close>

fun accepted_proposals ::
    "(u8 list \<Rightarrow> hash_value) \<Rightarrow> (author_t list \<Rightarrow> new_block_event list \<Rightarrow> u64 list)
      \<Rightarrow> ((round_t \<Rightarrow> new_block_event list) \<times> block) list \<Rightarrow> leader_reputation \<Rightarrow> block list" where
  "accepted_proposals sha3_256_of heuristic [] lr = []"
| "accepted_proposals sha3_256_of heuristic ((backend, b) # calls) lr =
     (case lr_is_valid_proposal sha3_256_of backend heuristic b lr of
        (out, lr') \<Rightarrow> (if out = Ok True then [b] else []) @ accepted_proposals sha3_256_of heuristic calls lr')"

definition proposed_or_past :: "leader_reputation \<Rightarrow> block \<Rightarrow> bool" where
  "proposed_or_past lr b \<longleftrightarrow>
     blk_round b < fst (lr_already_proposed lr) \<or>
     blk_round b = fst (lr_already_proposed lr) \<and>
       (\<exists>a. blk_author b = Some a \<and> snd (lr_already_proposed lr) a = Some (blk_id b))"

lemma lr_is_valid_proposal_step:
  assumes "lr_is_valid_proposal sha3_256_of backend heuristic b lr = (out, lr')"
  shows "proposed_or_past lr c \<Longrightarrow> proposed_or_past lr' c"
    and "out = Ok True \<Longrightarrow> proposed_or_past lr' b"
    and "out = Ok True \<Longrightarrow> proposed_or_past lr c \<Longrightarrow> blk_round c = blk_round b \<Longrightarrow>
      blk_author c = blk_author b \<Longrightarrow> blk_id c = blk_id b"
  using assms
  by (auto simp: lr_is_valid_proposal_def proposed_or_past_def bindS_def lift_res_def Let_def
      split: option.splits result.splits prod.splits if_splits)

definition no_equivocation :: "block set \<Rightarrow> bool" where
  "no_equivocation B \<longleftrightarrow>
     (\<forall>b \<in> B. \<forall>c \<in> B. blk_round b = blk_round c \<longrightarrow> blk_author b = blk_author c \<longrightarrow> blk_id b = blk_id c)"

lemma no_equivocation_insert:
  assumes "no_equivocation B"
    and "\<And>z. z \<in> B \<Longrightarrow> blk_round z = blk_round d \<Longrightarrow> blk_author z = blk_author d \<Longrightarrow> blk_id z = blk_id d"
  shows "no_equivocation (insert d B)"
  unfolding no_equivocation_def
proof (intro ballI impI)
  fix b c assume bc: "b \<in> insert d B" "c \<in> insert d B" "blk_round b = blk_round c" "blk_author b = blk_author c"
  consider "b = d" "c = d" | "b = d" "c \<in> B" | "b \<in> B" "c = d" | "b \<in> B" "c \<in> B"
    using bc(1,2) by blast
  then show "blk_id b = blk_id c"
  proof cases
    case 2
    from assms(2) [OF this(2)] show ?thesis using bc(3,4) 2(1) by argo
  next
    case 3
    from assms(2) [OF this(1)] show ?thesis using bc(3,4) 3(2) by argo
  next
    case 4
    then show ?thesis using assms(1) bc(3,4) unfolding no_equivocation_def by blast
  qed simp
qed

lemma accepted_proposals_unique:
  assumes "\<forall>c \<in> past. proposed_or_past lr c" "no_equivocation past"
  shows "no_equivocation (past \<union> set (accepted_proposals sha3_256_of heuristic calls lr))"
  using assms
proof (induction calls arbitrary: past lr)
  case Nil
  then show ?case by simp
next
  case (Cons call calls)
  obtain backend d where call: "call = (backend, d)" by fastforce
  obtain out lr' where step: "lr_is_valid_proposal sha3_256_of backend heuristic d lr = (out, lr')" by fastforce
  note keep = lr_is_valid_proposal_step(1) [OF step]
  show ?case
  proof (cases "out = Ok True")
    case True
    have "no_equivocation (insert d past)"
      using Cons.prems lr_is_valid_proposal_step(3) [OF step True] by (intro no_equivocation_insert) auto
    moreover have "\<forall>c \<in> insert d past. proposed_or_past lr' c"
      using keep lr_is_valid_proposal_step(2) [OF step True] Cons.prems(1) by blast
    ultimately show ?thesis using Cons.IH [of "insert d past" lr'] call step True by simp
  next
    case False
    have "\<forall>c \<in> past. proposed_or_past lr' c" using keep Cons.prems(1) by blast
    then show ?thesis using Cons.IH [of past lr'] Cons.prems(2) call step False by simp
  qed
qed

section \<open>Rotation\<close>

lemma reach_mod:
  assumes "j < (n :: nat)"
  shows "\<exists>k < n. (q + k) mod n = j"
proof -
  define m where "m = q mod n"
  have m: "m < n" using assms by (simp add: m_def)
  define k where "k = (if m \<le> j then j - m else j + n - m)"
  have "m + k = j \<or> m + k = j + n" "k < n" using m assms by (auto simp: k_def)
  moreover have "(q + k) mod n = (m + k) mod n" unfolding m_def by (rule mod_add_left_eq [symmetric])
  ultimately show ?thesis using assms by (intro exI [of _ k]) auto
qed

lemma rotating_round:
  assumes "0 < (c :: nat)" "j < n"
  shows "\<exists>r'. r \<le> r' \<and> r' < r + c * n \<and> (r' div c) mod n = j"
proof -
  obtain k where k: "k < n" "(r div c + k) mod n = j" using reach_mod [OF assms(2)] by blast
  have "(r + k * c) div c = r div c + k" using assms(1) by simp
  moreover have "k * c < c * n" using k(1) assms(1) by simp
  ultimately show ?thesis using k(2) by (intro exI [of _ "r + k * c"]) (simp add: add.commute)
qed

section \<open>Properties\<close>

text \<open>C20: At most one proposal per proposer and round is accepted. Whatever proposals the leader
  reputation election is asked about, in whatever order and with whatever history behind it, two
  accepted blocks of the same author and round have the same id.\<close>

theorem accepted_proposals_no_equivocation:
  "no_equivocation (set (accepted_proposals sha3_256_of heuristic calls (leader_reputation_new proposers exclude_round)))"
proof -
  have "no_equivocation {}" by (simp add: no_equivocation_def)
  from accepted_proposals_unique [OF _ this] show ?thesis by simp
qed

text \<open>C21: Leaders are elected in proportion to their weight. When the weights do not sum to zero or
  overflow, the election yields one of the proposers for every pseudo-random index, and out of the
  possible remainders of the index the number that elects a given proposer is its weight.\<close>

theorem leader_chosen_by_weight:
  assumes "length ws = length proposers" "distinct proposers"
    and "0 < sum_list (map unat ws)" "sum_list (map unat ws) < 2 ^ 64" "i < length proposers"
  shows "(\<forall>index. \<exists>p \<in> set proposers. elect proposers ws index = Ok p) \<and>
    card {c. c < sum_list (map unat ws) \<and> elect proposers ws (word_of_nat c) = Ok (proposers ! i)} = unat (ws ! i)"
proof (intro conjI allI)
  fix index :: u64
  have "unat index mod sum_list (map unat ws) < sum_list (map unat ws)" using assms(3) by simp
  from weight_interval [OF this] obtain j where "j < length ws"
    "weight_before ws j \<le> unat index mod sum_list (map unat ws)" "unat index mod sum_list (map unat ws) < weight_before ws (Suc j)" .
  then show "\<exists>p \<in> set proposers. elect proposers ws index = Ok p"
    using elect_index [OF assms(1,4)] assms(1) by (intro bexI [of _ "proposers ! j"]) auto
next
  let ?S = "sum_list (map unat ws)"
  have small: "unat (word_of_nat c :: u64) mod ?S = c" if "c < ?S" for c
    using that assms(4) by (simp add: unat_of_nat)
  have "{c. c < ?S \<and> elect proposers ws (word_of_nat c) = Ok (proposers ! i)} = {weight_before ws i..<weight_before ws (Suc i)}"
  proof (intro set_eqI iffI)
    fix c assume c: "c \<in> {c. c < ?S \<and> elect proposers ws (word_of_nat c) = Ok (proposers ! i)}"
    then obtain j where j: "j < length ws" "weight_before ws j \<le> c" "c < weight_before ws (Suc j)"
      using weight_interval [of c ws] by auto
    then have "elect proposers ws (word_of_nat c) = Ok (proposers ! j)"
      using c by (intro elect_index [OF assms(1,4)]) (simp_all add: small)
    then have "j = i" using c j(1) assms(1,2,5) by (simp add: nth_eq_iff_index_eq)
    then show "c \<in> {weight_before ws i..<weight_before ws (Suc i)}" using j by simp
  next
    fix c assume c: "c \<in> {weight_before ws i..<weight_before ws (Suc i)}"
    have "weight_before ws (Suc i) \<le> ?S"
      using weight_before_mono [of "Suc i" "length ws" ws] assms(1,5) by (simp add: weight_before_def)
    then have "c < ?S" using c by simp
    then show "c \<in> {c. c < ?S \<and> elect proposers ws (word_of_nat c) = Ok (proposers ! i)}"
      using c assms(1,5) elect_index [OF assms(1,4), of i "word_of_nat c"] by (simp add: small)
  qed
  then show "card {c. c < ?S \<and> elect proposers ws (word_of_nat c) = Ok (proposers ! i)} = unat (ws ! i)"
    using assms(1,5) by (simp add: weight_before_Suc)
qed

theorem leader_chosen_by_weight_witness:
  "(\<forall>index. \<exists>p \<in> set [7, 8, 9]. elect [7, 8, 9] [10, 1, 10] index = Ok p) \<and>
   card {c. c < 21 \<and> elect [7, 8, 9] [10, 1, 10] (word_of_nat c) = Ok 8} = 1"
  using leader_chosen_by_weight [of "[10, 1, 10]" "[7, 8, 9]" 1] by simp

text \<open>C24: With rotating proposers every validator gets its turn: from any round on, each proposer is
  the valid proposer of some round within one full rotation.\<close>

theorem rotating_every_proposer_leads:
  assumes "rp_contiguous_rounds rp \<noteq> 0" "length (rp_proposers rp) < 2 ^ 64" "p \<in> set (rp_proposers rp)"
    and "unat r + unat (rp_contiguous_rounds rp) * length (rp_proposers rp) \<le> 2 ^ 64"
  shows "\<exists>r'. r \<le> r' \<and> unat r' < unat r + unat (rp_contiguous_rounds rp) * length (rp_proposers rp) \<and>
    rotating_get_valid_proposer rp r' = Ok p"
proof -
  let ?c = "unat (rp_contiguous_rounds rp)" and ?n = "length (rp_proposers rp)"
  obtain j where j: "j < ?n" "rp_proposers rp ! j = p" using assms(3) by (auto simp: in_set_conv_nth)
  have "0 < ?c" using assms(1) by (simp add: unat_gt_0)
  from rotating_round [OF this j(1), of "unat r"] obtain r' where
    r': "unat r \<le> r'" "r' < unat r + ?c * ?n" "(r' div ?c) mod ?n = j" by blast
  have "unat (word_of_nat r' :: u64) = r'" using r'(2) assms(4) by (simp add: unat_of_nat)
  moreover have "unat (ucast (rp_contiguous_rounds rp) :: u64) = ?c"
    using unsigned_less [of "rp_contiguous_rounds rp", where 'a = nat]
    by (simp add: unsigned_ucast_eq take_bit_nat_eq_self_iff)
  moreover have "unat (word_of_nat ?n :: u64) = ?n" using assms(2) by (simp add: unat_of_nat)
  ultimately show ?thesis
    using r' j assms(1) by (intro exI [of _ "word_of_nat r'"])
      (auto simp: rotating_get_valid_proposer_def unat_div unat_mod word_le_nat_alt)
qed

theorem rotating_every_proposer_leads_witness:
  "\<exists>r'. 5 \<le> r' \<and> unat r' < unat (5 :: u64) + unat (2 :: u32) * length [7, 8, 9 :: author_t] \<and>
    rotating_get_valid_proposer \<lparr>rp_proposers = [7, 8, 9], rp_contiguous_rounds = 2\<rparr> r' = Ok 9"
  using rotating_every_proposer_leads [of "\<lparr>rp_proposers = [7, 8, 9], rp_contiguous_rounds = 2\<rparr>" 9 5] by simp

end
