(* ===== verification/Block_Tree.thy ===== *)
theory Block_Tree
  imports Consensus_Messages
begin

text \<open>
  The tree of pending blocks: \<^verbatim>\<open>consensus/src/block_storage/block_tree.rs\<close> with executed blocks
  (\<^verbatim>\<open>consensus-types/src/executed_block.rs\<close>) and execution results
  (\<^verbatim>\<open>execution/executor-types/src/lib.rs\<close>).

  A \<open>HashMap\<close> is a map and a \<open>HashSet\<close> a set; the order in which the children of a block are
  iterated is the parameter \<open>iter\<close>. The two loops that follow links, \<open>path_from_root_to_block\<close>
  and \<open>find_blocks_to_prune\<close>, are partial functions, so that a loop that does not end is the value
  \<open>None\<close>; under the invariant of the tree both end, the first with the chain below the root and
  the second with exactly the blocks outside the subtree of the new root.
\<close>

section \<open>Executed blocks\<close>

text \<open>The VM status of a transaction is its serialised form.\<close>

datatype transaction_status = Discard "u8 list" | Keep "u8 list" | Retry

record state_compute_result =
  scr_root_hash :: hash_value
  scr_frozen_subtree_roots :: "hash_value list"
  scr_parent_frozen_subtree_roots :: "hash_value list"
  scr_num_leaves :: u64
  scr_parent_num_leaves :: u64
  scr_epoch_state :: "epoch_state option"
  scr_compute_status :: "transaction_status list"
  scr_transaction_info_hashes :: "hash_value list"
  scr_signature :: "signature option"
  scr_reconfig_events :: "u8 list list"

definition scr_version :: "state_compute_result \<Rightarrow> u64" where
  "scr_version r = max (scr_num_leaves r) 1 - 1"

definition extension_proof :: "state_compute_result \<Rightarrow> accumulator_extension_proof" where
  "extension_proof r =
     \<lparr>aep_frozen_subtree_roots = scr_parent_frozen_subtree_roots r, aep_num_leaves = scr_parent_num_leaves r,
      aep_leaves = scr_transaction_info_hashes r\<rparr>"

definition scr_has_reconfiguration :: "state_compute_result \<Rightarrow> bool" where
  "scr_has_reconfiguration r \<longleftrightarrow> scr_epoch_state r \<noteq> None"

record executed_block =
  eb_block :: block
  eb_state_compute_result :: state_compute_result

abbreviation eb_id :: "executed_block \<Rightarrow> hash_value" where "eb_id eb \<equiv> blk_id (eb_block eb)"
abbreviation eb_round :: "executed_block \<Rightarrow> round_t" where "eb_round eb \<equiv> blk_round (eb_block eb)"
abbreviation eb_parent_id :: "executed_block \<Rightarrow> hash_value" where "eb_parent_id eb \<equiv> blk_parent_id (eb_block eb)"

definition eb_block_info :: "executed_block \<Rightarrow> block_info" where
  "eb_block_info eb =
     gen_block_info (eb_block eb) (scr_root_hash (eb_state_compute_result eb))
       (scr_version (eb_state_compute_result eb)) (scr_epoch_state (eb_state_compute_result eb))"

definition eb_maybe_signed_vote_proposal :: "executed_block \<Rightarrow> bool \<Rightarrow> maybe_signed_vote_proposal" where
  "eb_maybe_signed_vote_proposal eb decoupled_execution =
     \<lparr>mvp_vote_proposal =
        \<lparr>vp_accumulator_extension_proof = extension_proof (eb_state_compute_result eb), vp_block = eb_block eb,
         vp_next_epoch_state = scr_epoch_state (eb_state_compute_result eb),
         vp_decoupled_execution = decoupled_execution\<rparr>,
      mvp_signature = scr_signature (eb_state_compute_result eb)\<rparr>"

definition eb_is_reconfiguration_suffix :: "executed_block \<Rightarrow> bool" where
  "eb_is_reconfiguration_suffix eb \<longleftrightarrow>
     scr_has_reconfiguration (eb_state_compute_result eb) \<and> scr_compute_status (eb_state_compute_result eb) = []"

text \<open>\<open>zip_eq\<close> panics when one of the two sequences is longer.\<close>

definition transactions_to_commit :: "executed_block \<Rightarrow> (anyhow_error, transaction list) result" where
  "transactions_to_commit eb =
     (if eb_is_reconfiguration_suffix eb then Ok []
      else let txns = transactions_to_execute (eb_block eb); status = scr_compute_status (eb_state_compute_result eb) in
        if length txns \<noteq> length status then Panic
        else Ok (map fst (filter (\<lambda>(txn, st). case st of Keep _ \<Rightarrow> True | _ \<Rightarrow> False) (zip txns status))))"

definition reconfig_event :: "executed_block \<Rightarrow> u8 list list" where
  "reconfig_event eb =
     (if eb_is_reconfiguration_suffix eb then [] else scr_reconfig_events (eb_state_compute_result eb))"

section \<open>The tree\<close>

record linkable_block =
  lb_executed_block :: executed_block
  lb_children :: "hash_value set"

record block_tree =
  tr_id_to_block :: "hash_value \<rightharpoonup> linkable_block"
  tr_ordered_root_id :: hash_value
  tr_commit_root_id :: hash_value
  tr_highest_certified_block_id :: hash_value
  tr_highest_quorum_cert :: quorum_cert
  tr_highest_timeout_cert :: "timeout_certificate option"
  tr_highest_2chain_timeout_cert :: "two_chain_timeout_certificate option"
  tr_highest_ordered_cert :: quorum_cert
  tr_highest_ledger_info :: ledger_info_with_signatures
  tr_id_to_quorum_cert :: "hash_value \<rightharpoonup> quorum_cert"
  tr_pruned_block_ids :: "hash_value list"
  tr_max_pruned_blocks_in_mem :: nat

type_synonym 'a tree_action = "(block_tree, anyhow_error, 'a) action"

definition linkable_new :: "executed_block \<Rightarrow> linkable_block" where
  "linkable_new eb = \<lparr>lb_executed_block = eb, lb_children = {}\<rparr>"

definition add_child :: "hash_value \<Rightarrow> linkable_block \<Rightarrow> (anyhow_error, linkable_block) result" where
  "add_child child_id lb =
     (if child_id \<in> lb_children lb then Panic else Ok (lb\<lparr>lb_children := insert child_id (lb_children lb)\<rparr>))"

definition block_tree_new ::
    "executed_block \<Rightarrow> quorum_cert \<Rightarrow> quorum_cert \<Rightarrow> ledger_info_with_signatures \<Rightarrow> nat
      \<Rightarrow> timeout_certificate option \<Rightarrow> two_chain_timeout_certificate option \<Rightarrow> (anyhow_error, block_tree) result" where
  "block_tree_new root root_quorum_cert root_ordered_cert root_commit_ledger_info max_pruned htc h2tc =
     bind_res (assert_that (eb_id root = bi_id (qc_commit_info root_ordered_cert))) (\<lambda>_.
     Ok \<lparr>tr_id_to_block = [eb_id root \<mapsto> linkable_new root], tr_ordered_root_id = eb_id root,
         tr_commit_root_id = eb_id root, tr_highest_certified_block_id = eb_id root,
         tr_highest_quorum_cert = root_quorum_cert, tr_highest_timeout_cert = htc,
         tr_highest_2chain_timeout_cert = h2tc, tr_highest_ordered_cert = root_ordered_cert,
         tr_highest_ledger_info = root_commit_ledger_info,
         tr_id_to_quorum_cert = [bi_id (qc_certified_block root_quorum_cert) \<mapsto> root_quorum_cert],
         tr_pruned_block_ids = [], tr_max_pruned_blocks_in_mem = max_pruned\<rparr>)"

abbreviation get_linkable_block :: "block_tree \<Rightarrow> hash_value \<Rightarrow> linkable_block option" where
  "get_linkable_block t \<equiv> tr_id_to_block t"

definition linkable_root :: "block_tree \<Rightarrow> (anyhow_error, linkable_block) result" where
  "linkable_root t = expect (get_linkable_block t (tr_commit_root_id t))"

definition remove_block :: "hash_value \<Rightarrow> block_tree \<Rightarrow> block_tree" where
  "remove_block block_id t =
     t\<lparr>tr_id_to_block := (tr_id_to_block t)(block_id := None),
       tr_id_to_quorum_cert := (tr_id_to_quorum_cert t)(block_id := None)\<rparr>"

definition block_exists :: "block_tree \<Rightarrow> hash_value \<Rightarrow> bool" where
  "block_exists t block_id \<longleftrightarrow> tr_id_to_block t block_id \<noteq> None"

definition tree_get_block :: "block_tree \<Rightarrow> hash_value \<Rightarrow> executed_block option" where
  "tree_get_block t block_id = map_option lb_executed_block (get_linkable_block t block_id)"

definition ordered_root :: "block_tree \<Rightarrow> (anyhow_error, executed_block) result" where
  "ordered_root t = expect (tree_get_block t (tr_ordered_root_id t))"

definition commit_root :: "block_tree \<Rightarrow> (anyhow_error, executed_block) result" where
  "commit_root t = expect (tree_get_block t (tr_commit_root_id t))"

definition highest_certified_block :: "block_tree \<Rightarrow> (anyhow_error, executed_block) result" where
  "highest_certified_block t = expect (tree_get_block t (tr_highest_certified_block_id t))"

section \<open>Inserting\<close>

definition tree_insert_block :: "executed_block \<Rightarrow> executed_block tree_action" where
  "tree_insert_block eb t =
     (case tree_get_block t (eb_id eb) of
        Some existing_block \<Rightarrow>
          (if eb_state_compute_result existing_block = eb_state_compute_result eb then (Ok existing_block, t) else (Panic, t))
      | None \<Rightarrow>
          (case get_linkable_block t (eb_parent_id eb) of
             None \<Rightarrow> (Err (Msg ''Parent block not found''), t)
           | Some parent_block \<Rightarrow>
               (case add_child (eb_id eb) parent_block of
                  Ok parent' \<Rightarrow>
                    (let m = (tr_id_to_block t)(eb_parent_id eb \<mapsto> parent') in
                     if m (eb_id eb) = None
                     then (Ok eb, t\<lparr>tr_id_to_block := m(eb_id eb \<mapsto> linkable_new eb)\<rparr>)
                     else (Panic, t\<lparr>tr_id_to_block := m(eb_id eb \<mapsto> linkable_new eb)\<rparr>))
                | Err e \<Rightarrow> (Err e, t)
                | Panic \<Rightarrow> (Panic, t))))"

definition tree_insert_quorum_cert :: "quorum_cert \<Rightarrow> unit tree_action" where
  "tree_insert_quorum_cert qc =
     (let block_id = bi_id (qc_certified_block qc) in
      bindS get_state (\<lambda>t.
      bindS (lift_res (ok_or (tree_get_block t block_id) (Msg ''Block not found''))) (\<lambda>b.
      bindS (lift_res (highest_certified_block t)) (\<lambda>highest t.
        let t = (if eb_round b > eb_round highest
                 then t\<lparr>tr_highest_certified_block_id := eb_id b, tr_highest_quorum_cert := qc\<rparr> else t);
            t = (case tr_id_to_quorum_cert t block_id of
                   None \<Rightarrow> t\<lparr>tr_id_to_quorum_cert := (tr_id_to_quorum_cert t)(block_id \<mapsto> qc)\<rparr> | Some _ \<Rightarrow> t)
        in (Ok (), if bi_round (qc_commit_info (tr_highest_ordered_cert t)) < bi_round (qc_commit_info qc)
                   then t\<lparr>tr_highest_ordered_cert := qc\<rparr> else t)))))"

section \<open>Roots and pruning\<close>

definition update_ordered_root :: "hash_value \<Rightarrow> unit tree_action" where
  "update_ordered_root root_id t =
     (if block_exists t root_id then (Ok (), t\<lparr>tr_ordered_root_id := root_id\<rparr>) else (Panic, t))"

definition update_commit_root :: "hash_value \<Rightarrow> unit tree_action" where
  "update_commit_root root_id t =
     (if block_exists t root_id then (Ok (), t\<lparr>tr_commit_root_id := root_id\<rparr>) else (Panic, t))"

definition update_highest_ledger_info :: "ledger_info_with_signatures \<Rightarrow> unit tree_action" where
  "update_highest_ledger_info ls t =
     (if bi_round (li_commit_info (ls_ledger_info ls)) > bi_round (li_commit_info (ls_ledger_info (tr_highest_ledger_info t)))
      then update_commit_root (bi_id (li_commit_info (ls_ledger_info ls))) (t\<lparr>tr_highest_ledger_info := ls\<rparr>)
      else (Ok (), t))"

text \<open>The work list is a stack, with its top first.\<close>

fun push_children ::
    "block_tree \<Rightarrow> hash_value \<Rightarrow> hash_value list \<Rightarrow> linkable_block list \<Rightarrow> (anyhow_error, linkable_block list) result" where
  "push_children t next_root_id [] stack = Ok stack"
| "push_children t next_root_id (child_id # cs) stack =
     (if next_root_id = child_id then push_children t next_root_id cs stack
      else bind_res (expect (get_linkable_block t child_id)) (\<lambda>lb. push_children t next_root_id cs (lb # stack)))"

partial_function (option) prune_loop ::
    "(hash_value set \<Rightarrow> hash_value list) \<Rightarrow> block_tree \<Rightarrow> hash_value \<Rightarrow> linkable_block list \<Rightarrow> hash_value list
      \<Rightarrow> (anyhow_error, hash_value list) result option" where
  "prune_loop iter t next_root_id stack blocks_pruned =
     (case stack of
        [] \<Rightarrow> Some (Ok blocks_pruned)
      | block_to_remove # rest \<Rightarrow>
          (case push_children t next_root_id (iter (lb_children block_to_remove)) rest of
             Ok stack' \<Rightarrow> prune_loop iter t next_root_id stack' (blocks_pruned @ [eb_id (lb_executed_block block_to_remove)])
           | Err e \<Rightarrow> Some (Err e)
           | Panic \<Rightarrow> Some Panic))"

definition find_blocks_to_prune ::
    "(hash_value set \<Rightarrow> hash_value list) \<Rightarrow> hash_value \<Rightarrow> block_tree \<Rightarrow> (anyhow_error, hash_value list) result option" where
  "find_blocks_to_prune iter next_root_id t =
     (if next_root_id = tr_commit_root_id t then Some (Ok [])
      else case linkable_root t of
          Ok lb \<Rightarrow> prune_loop iter t next_root_id [lb] []
        | Err e \<Rightarrow> Some (Err e)
        | Panic \<Rightarrow> Some Panic)"

definition process_pruned_blocks :: "hash_value list \<Rightarrow> block_tree \<Rightarrow> block_tree" where
  "process_pruned_blocks newly_pruned_blocks t =
     (let ids = tr_pruned_block_ids t @ newly_pruned_blocks;
          num_blocks_to_remove = length ids - tr_max_pruned_blocks_in_mem t
      in fold remove_block (take num_blocks_to_remove ids)
           (t\<lparr>tr_pruned_block_ids := drop num_blocks_to_remove ids\<rparr>))"

definition commit_callback ::
    "(hash_value set \<Rightarrow> hash_value list) \<Rightarrow> executed_block list \<Rightarrow> ledger_info_with_signatures \<Rightarrow> block_tree
      \<Rightarrow> ((anyhow_error, unit) result \<times> block_tree) option" where
  "commit_callback iter blocks_to_commit commit_proof t =
     (if blocks_to_commit = [] then Some (Panic, t)
      else let block_to_commit = last blocks_to_commit in
        case commit_root t of
          Ok _ \<Rightarrow>
            (case find_blocks_to_prune iter (eb_id block_to_commit) t of
               None \<Rightarrow> None
             | Some (Ok id_to_remove) \<Rightarrow>
                 Some (update_highest_ledger_info commit_proof (process_pruned_blocks id_to_remove t))
             | Some (Err e) \<Rightarrow> Some (Err e, t)
             | Some Panic \<Rightarrow> Some (Panic, t))
        | Err e \<Rightarrow> Some (Err e, t)
        | Panic \<Rightarrow> Some (Panic, t))"

section \<open>Paths\<close>

partial_function (option) path_loop ::
    "block_tree \<Rightarrow> round_t \<Rightarrow> hash_value \<Rightarrow> executed_block list \<Rightarrow> (hash_value \<times> executed_block list) option option" where
  "path_loop t root_round cur_block_id res =
     (case tree_get_block t cur_block_id of
        None \<Rightarrow> Some None
      | Some b \<Rightarrow>
          if eb_round b \<le> root_round then Some (Some (cur_block_id, res))
          else path_loop t root_round (eb_parent_id b) (res @ [b]))"

definition path_from_root_to_block ::
    "hash_value \<Rightarrow> hash_value \<Rightarrow> round_t \<Rightarrow> block_tree \<Rightarrow> executed_block list option option" where
  "path_from_root_to_block block_id root_id root_round t =
     (case path_loop t root_round block_id [] of
        None \<Rightarrow> None
      | Some None \<Rightarrow> Some None
      | Some (Some (cur_block_id, res)) \<Rightarrow> Some (if cur_block_id \<noteq> root_id then None else Some (rev res)))"

text \<open>The paths from the two roots: \<open>None\<close> if the loop does not end, else a panic or the result.\<close>

definition path_from_ordered_root ::
    "hash_value \<Rightarrow> block_tree \<Rightarrow> (anyhow_error, executed_block list option) result option" where
  "path_from_ordered_root block_id t =
     (case ordered_root t of
        Ok r \<Rightarrow> map_option Ok (path_from_root_to_block block_id (tr_ordered_root_id t) (eb_round r) t)
      | Err e \<Rightarrow> Some (Err e)
      | Panic \<Rightarrow> Some Panic)"

definition path_from_commit_root ::
    "hash_value \<Rightarrow> block_tree \<Rightarrow> (anyhow_error, executed_block list option) result option" where
  "path_from_commit_root block_id t =
     (case commit_root t of
        Ok r \<Rightarrow> map_option Ok (path_from_root_to_block block_id (tr_commit_root_id t) (eb_round r) t)
      | Err e \<Rightarrow> Some (Err e)
      | Panic \<Rightarrow> Some Panic)"

section \<open>Links\<close>

definition child :: "block_tree \<Rightarrow> (hash_value \<times> hash_value) set" where
  "child t = {(p, c). \<exists>lb. tr_id_to_block t p = Some lb \<and> c \<in> lb_children lb}"

definition round_of :: "block_tree \<Rightarrow> hash_value \<Rightarrow> nat" where
  "round_of t h = (case tr_id_to_block t h of None \<Rightarrow> 0 | Some lb \<Rightarrow> unat (eb_round (lb_executed_block lb)))"

definition parent_of :: "block_tree \<Rightarrow> hash_value \<Rightarrow> hash_value" where
  "parent_of t h = eb_parent_id (lb_executed_block (the (tr_id_to_block t h)))"

text \<open>The shape of the tree: blocks are stored under their id, every child link leads to a block of the
  tree that has the link's origin as its parent and a higher round, and every parent link into the
  tree has its child link.\<close>

definition tree_links :: "block_tree \<Rightarrow> bool" where
  "tree_links t \<longleftrightarrow>
     (\<forall>h lb. tr_id_to_block t h = Some lb \<longrightarrow> eb_id (lb_executed_block lb) = h \<and> finite (lb_children lb)) \<and>
     (\<forall>p c. (p, c) \<in> child t \<longrightarrow> c \<in> dom (tr_id_to_block t) \<and> parent_of t c = p \<and> round_of t p < round_of t c) \<and>
     (\<forall>c \<in> dom (tr_id_to_block t). parent_of t c \<in> dom (tr_id_to_block t) \<longrightarrow> (parent_of t c, c) \<in> child t)"

lemma child_dom: "(p, c) \<in> child t \<Longrightarrow> p \<in> dom (tr_id_to_block t)"
  by (auto simp: child_def)

lemma tree_linksD:
  assumes "tree_links t"
  shows "tr_id_to_block t h = Some lb \<Longrightarrow> eb_id (lb_executed_block lb) = h"
    and "tr_id_to_block t h = Some lb \<Longrightarrow> finite (lb_children lb)"
    and "(p, c) \<in> child t \<Longrightarrow> c \<in> dom (tr_id_to_block t)"
    and "(p, c) \<in> child t \<Longrightarrow> parent_of t c = p"
    and "(p, c) \<in> child t \<Longrightarrow> round_of t p < round_of t c"
    and "c \<in> dom (tr_id_to_block t) \<Longrightarrow> parent_of t c \<in> dom (tr_id_to_block t) \<Longrightarrow> (parent_of t c, c) \<in> child t"
  using assms unfolding tree_links_def by blast+

lemma child_unique: "tree_links t \<Longrightarrow> (p, c) \<in> child t \<Longrightarrow> (q, c) \<in> child t \<Longrightarrow> p = q"
  using tree_linksD(4) by blast

lemma descendant_dom:
  assumes "tree_links t" "(a, b) \<in> (child t)\<^sup>*" "a \<in> dom (tr_id_to_block t)"
  shows "b \<in> dom (tr_id_to_block t)"
  using assms(2,3) by (induction rule: rtrancl_induct) (auto dest: tree_linksD(3) [OF assms(1)])

lemma descendant_round_le:
  assumes "tree_links t" "(a, b) \<in> (child t)\<^sup>*"
  shows "round_of t a \<le> round_of t b"
  using assms(2)
  by (induction rule: rtrancl_induct) (auto dest: tree_linksD(5) [OF assms(1)] intro: order_trans less_imp_le)

lemma descendant_round:
  assumes "tree_links t" "(a, b) \<in> (child t)\<^sup>+"
  shows "round_of t a < round_of t b"
  using assms(2) tree_linksD(5) [OF assms(1)] descendant_round_le [OF assms(1)]
  by (meson le_less_trans tranclD2)

lemma ancestors_comparable:
  assumes "tree_links t" "(a, x) \<in> (child t)\<^sup>*" "(b, x) \<in> (child t)\<^sup>*"
  shows "(a, b) \<in> (child t)\<^sup>* \<or> (b, a) \<in> (child t)\<^sup>*"
  using assms(2,3)
proof (induction rule: rtrancl_induct)
  case base
  then show ?case by blast
next
  case (step y z)
  show ?case
  proof (cases "b = z")
    case True
    then show ?thesis using step.hyps by (meson rtrancl.rtrancl_into_rtrancl)
  next
    case False
    then obtain q where "(b, q) \<in> (child t)\<^sup>*" "(q, z) \<in> child t"
      using step.prems by (metis rtranclE)
    then show ?thesis using step.IH child_unique [OF assms(1) step.hyps(2)] by blast
  qed
qed

lemma wf_child: "tree_links t \<Longrightarrow> wf ((child t)\<inverse>)"
proof (rule wf_subset [OF wf_measure [of "\<lambda>h. 2 ^ 64 - round_of t h"]])
  assume t: "tree_links t"
  have "round_of t h < 2 ^ 64" for h
    by (auto simp: round_of_def unat_u64_less [simplified] split: option.split)
  then show "(child t)\<inverse> \<subseteq> measure (\<lambda>h. 2 ^ 64 - round_of t h)"
    using tree_linksD(5) [OF t] by (fastforce intro: diff_less_mono2)
qed

section \<open>Pruning visits the blocks outside the new subtree\<close>

text \<open>Links that do not enter the new root.\<close>

definition child_avoiding :: "hash_value \<Rightarrow> block_tree \<Rightarrow> (hash_value \<times> hash_value) set" where
  "child_avoiding n t = {(p, c) \<in> child t. c \<noteq> n}"

definition iterates :: "(hash_value set \<Rightarrow> hash_value list) \<Rightarrow> bool" where
  "iterates iter \<longleftrightarrow> (\<forall>S. finite S \<longrightarrow> set (iter S) = S \<and> distinct (iter S))"

lemma child_avoiding_subset: "(a, b) \<in> (child_avoiding n t)\<^sup>* \<Longrightarrow> (a, b) \<in> (child t)\<^sup>*"
  by (rule rtrancl_mono [THEN subsetD, rotated]) (auto simp: child_avoiding_def)

lemma siblings_disjoint:
  assumes t: "tree_links t" and c: "(h, c) \<in> child t" "(h, d) \<in> child t"
    and x: "(c, x) \<in> (child t)\<^sup>*" "(d, x) \<in> (child t)\<^sup>*"
  shows "c = d"
proof (rule ccontr)
  have False if "(a, b) \<in> (child t)\<^sup>*" "a \<noteq> b" "(h, a) \<in> child t" "(h, b) \<in> child t" for a b
  proof -
    obtain q where "(a, q) \<in> (child t)\<^sup>*" "(q, b) \<in> child t"
      using \<open>(a, b) \<in> (child t)\<^sup>*\<close> \<open>a \<noteq> b\<close> by (metis rtranclE)
    then have "(a, h) \<in> (child t)\<^sup>*" using child_unique [OF t \<open>(q, b) \<in> child t\<close> that(4)] by simp
    then show False
      using descendant_round_le [OF t, of a h] tree_linksD(5) [OF t that(3)] by simp
  qed
  moreover assume "c \<noteq> d"
  ultimately show False using ancestors_comparable [OF t x] c by metis
qed

lemma push_children_Ok:
  assumes "tree_links t" "\<forall>c \<in> set cs. (h, c) \<in> child t"
  shows "push_children t n cs stack = Ok (rev (map (the \<circ> tr_id_to_block t) (filter (\<lambda>c. c \<noteq> n) cs)) @ stack)"
  using assms(2)
proof (induction cs arbitrary: stack)
  case (Cons c cs)
  then obtain lb where "tr_id_to_block t c = Some lb" using tree_linksD(3) [OF assms(1)] by fastforce
  with Cons show ?case by auto
qed simp

text \<open>A list in which every block comes after its parent, or has its parent in a given set.\<close>

fun parents_first :: "block_tree \<Rightarrow> hash_value set \<Rightarrow> hash_value list \<Rightarrow> bool" where
  "parents_first t P [] \<longleftrightarrow> True"
| "parents_first t P (x # xs) \<longleftrightarrow> parent_of t x \<in> P \<and> parents_first t (insert x P) xs"

lemma parents_first_mono: "parents_first t P xs \<Longrightarrow> P \<subseteq> Q \<Longrightarrow> parents_first t Q xs"
  by (induction xs arbitrary: P Q) (auto, meson insert_mono)

lemma parents_first_append:
  "parents_first t P (xs @ ys) \<longleftrightarrow> parents_first t P xs \<and> parents_first t (P \<union> set xs) ys"
  by (induction xs arbitrary: P) auto

lemma parents_first_concat:
  "\<forall>ys \<in> set yss. parents_first t P ys \<Longrightarrow> parents_first t P (concat yss)"
  by (induction yss) (auto simp: parents_first_append intro: parents_first_mono)

lemma parents_firstD:
  "parents_first t P xs \<Longrightarrow> x \<in> set (take k xs) \<Longrightarrow> parent_of t x \<in> P \<union> set (take k xs)"
proof (induction xs arbitrary: P k)
  case (Cons y ys)
  then show ?case by (cases k) (auto dest: Cons.IH)
qed simp

definition prunes_to ::
    "(hash_value set \<Rightarrow> hash_value list) \<Rightarrow> block_tree \<Rightarrow> hash_value \<Rightarrow> hash_value \<Rightarrow> hash_value list \<Rightarrow> bool" where
  "prunes_to iter t n h l \<longleftrightarrow> distinct l \<and> (\<exists>l'. l = h # l' \<and> parents_first t {h} l') \<and> set l = {x. (h, x) \<in> (child_avoiding n t)\<^sup>*} \<and>
     (\<forall>rest pruned. prune_loop iter t n (the (tr_id_to_block t h) # rest) pruned = prune_loop iter t n rest (pruned @ l))"

lemma prunes_to_all:
  assumes "\<forall>c \<in> set cs. prunes_to iter t n c (f c)"
  shows "prune_loop iter t n (map (the \<circ> tr_id_to_block t) cs @ rest) pruned =
    prune_loop iter t n rest (pruned @ concat (map f cs))"
  using assms by (induction cs arbitrary: pruned) (auto simp: prunes_to_def)

lemma avoiding_unfold:
  "{x. (h, x) \<in> (child_avoiding n t)\<^sup>*} =
     insert h (\<Union>c \<in> {c. (h, c) \<in> child t \<and> c \<noteq> n}. {x. (c, x) \<in> (child_avoiding n t)\<^sup>*})"
proof (intro set_eqI iffI)
  fix x assume "x \<in> {x. (h, x) \<in> (child_avoiding n t)\<^sup>*}"
  then consider "x = h" | c where "(h, c) \<in> child_avoiding n t" "(c, x) \<in> (child_avoiding n t)\<^sup>*"
    by (auto elim: converse_rtranclE)
  then show "x \<in> insert h (\<Union>c \<in> {c. (h, c) \<in> child t \<and> c \<noteq> n}. {x. (c, x) \<in> (child_avoiding n t)\<^sup>*})"
    by cases (auto simp: child_avoiding_def)
next
  fix x assume "x \<in> insert h (\<Union>c \<in> {c. (h, c) \<in> child t \<and> c \<noteq> n}. {x. (c, x) \<in> (child_avoiding n t)\<^sup>*})"
  then consider "x = h" | c where "(h, c) \<in> child_avoiding n t" "(c, x) \<in> (child_avoiding n t)\<^sup>*"
    by (auto simp: child_avoiding_def)
  then show "x \<in> {x. (h, x) \<in> (child_avoiding n t)\<^sup>*}"
    by cases (auto intro: converse_rtrancl_into_rtrancl)
qed

lemma subtrees_distinct:
  assumes "tree_links t" "distinct cs"
    and "\<forall>c \<in> set cs. (h, c) \<in> child t \<and> distinct (f c) \<and> (\<forall>x \<in> set (f c). (c, x) \<in> (child t)\<^sup>*)"
  shows "distinct (concat (map f cs))"
  using assms(2,3)
proof (induction cs)
  case (Cons c cs)
  have "False" if "x \<in> set (f c)" "d \<in> set cs" "x \<in> set (f d)" for x d
    using that Cons.prems siblings_disjoint [OF assms(1), of h c d x] by auto
  then show ?case using Cons by fastforce
qed simp

lemma prunes_to_children:
  assumes t: "tree_links t" and it: "iterates iter" and h: "tr_id_to_block t h = Some lb"
    and f: "\<forall>c. (h, c) \<in> child t \<and> c \<noteq> n \<longrightarrow> prunes_to iter t n c (f c)"
  shows "prunes_to iter t n h (h # concat (map f (rev (filter (\<lambda>c. c \<noteq> n) (iter (lb_children lb))))))"
proof -
  let ?cs = "filter (\<lambda>c. c \<noteq> n) (iter (lb_children lb))"
  have iter: "set (iter (lb_children lb)) = lb_children lb" "distinct (iter (lb_children lb))"
    using it tree_linksD(2) [OF t h] by (auto simp: iterates_def)
  have kids: "lb_children lb = {c. (h, c) \<in> child t}" using h by (auto simp: child_def)
  have cs: "set ?cs = {c. (h, c) \<in> child t \<and> c \<noteq> n}" using iter(1) kids by auto
  have sub: "set (f c) = {x. (c, x) \<in> (child_avoiding n t)\<^sup>*}" "distinct (f c)" if "c \<in> set ?cs" for c
    using f that cs by (auto simp: prunes_to_def)
  have step: "prune_loop iter t n (the (tr_id_to_block t h) # rest) pruned =
      prune_loop iter t n rest (pruned @ h # concat (map f (rev ?cs)))" for rest pruned
  proof -
    have "push_children t n (iter (lb_children lb)) rest = Ok (map (the \<circ> tr_id_to_block t) (rev ?cs) @ rest)"
      using push_children_Ok [OF t, of "iter (lb_children lb)" h n rest] iter(1) kids by (simp add: rev_map)
    then have "prune_loop iter t n (the (tr_id_to_block t h) # rest) pruned =
        prune_loop iter t n (map (the \<circ> tr_id_to_block t) (rev ?cs) @ rest) (pruned @ [h])"
      using h tree_linksD(1) [OF t h] by (subst prune_loop.simps) simp
    also have "\<dots> = prune_loop iter t n rest ((pruned @ [h]) @ concat (map f (rev ?cs)))"
      by (rule prunes_to_all) (use f cs in auto)
    finally show ?thesis by simp
  qed
  have up: "round_of t h < round_of t x" if "c \<in> set ?cs" "x \<in> set (f c)" for c x
    using that sub(1) cs tree_linksD(5) [OF t] child_avoiding_subset descendant_round_le [OF t]
    by (metis (mono_tags, lifting) le_less_trans mem_Collect_eq not_le)
  have "\<forall>c \<in> set (rev ?cs). (h, c) \<in> child t \<and> distinct (f c) \<and> (\<forall>x \<in> set (f c). (c, x) \<in> (child t)\<^sup>*)"
  proof
    fix c assume "c \<in> set (rev ?cs)"
    then have c: "c \<in> set ?cs" by (simp only: set_rev)
    show "(h, c) \<in> child t \<and> distinct (f c) \<and> (\<forall>x \<in> set (f c). (c, x) \<in> (child t)\<^sup>*)"
      using sub [OF c] cs c child_avoiding_subset [of c _ n t] by blast
  qed
  from subtrees_distinct [OF t _ this] have "distinct (concat (map f (rev ?cs)))" using iter(2) by simp
  moreover have "h \<notin> set (concat (map f (rev ?cs)))" using up by auto
  moreover have "parents_first t {h} (concat (map f (rev ?cs)))"
  proof (rule parents_first_concat, rule ballI)
    fix ys assume "ys \<in> set (map f (rev ?cs))"
    then obtain c where c: "c \<in> set ?cs" "ys = f c" by auto
    then have "prunes_to iter t n c ys" "parent_of t c = h"
      using f cs tree_linksD(4) [OF t] by auto
    then obtain l' where c: "ys = c # l'" "parents_first t {c} l'" "parent_of t c = h"
      by (auto simp: prunes_to_def)
    then show "parents_first t {h} ys" by (auto intro: parents_first_mono)
  qed
  moreover have "set (h # concat (map f (rev ?cs))) = {x. (h, x) \<in> (child_avoiding n t)\<^sup>*}"
    using sub(1) cs unfolding avoiding_unfold [of h] by auto
  ultimately show ?thesis using step by (simp add: prunes_to_def)
qed

lemma prunes_to_exists:
  assumes t: "tree_links t" and it: "iterates iter"
  shows "h \<in> dom (tr_id_to_block t) \<Longrightarrow> \<exists>l. prunes_to iter t n h l"
proof (induction h rule: wf_induct_rule [OF wf_child [OF t]])
  case (1 h)
  then obtain lb where lb: "tr_id_to_block t h = Some lb" by blast
  have "\<exists>l. prunes_to iter t n c l" if "(h, c) \<in> child t" for c
    using 1(1) [of c] that tree_linksD(3) [OF t that] by simp
  then obtain f where "\<forall>c. (h, c) \<in> child t \<longrightarrow> prunes_to iter t n c (f c)" by metis
  then show ?case using prunes_to_children [OF t it lb, of n f] by blast
qed

lemma avoiding_iff:
  assumes t: "tree_links t" and n: "(r, n) \<in> (child t)\<^sup>*" "r \<noteq> n"
  shows "(r, x) \<in> (child_avoiding n t)\<^sup>* \<longleftrightarrow> (r, x) \<in> (child t)\<^sup>* \<and> (n, x) \<notin> (child t)\<^sup>*"
proof
  assume "(r, x) \<in> (child_avoiding n t)\<^sup>*"
  then show "(r, x) \<in> (child t)\<^sup>* \<and> (n, x) \<notin> (child t)\<^sup>*"
  proof (induction rule: rtrancl_induct)
    case base
    have "(r, n) \<in> (child t)\<^sup>+" using n by (meson rtranclD)
    then show ?case using descendant_round [OF t] descendant_round_le [OF t, of n r] by fastforce
  next
    case (step y z)
    then have yz: "(y, z) \<in> child t" "z \<noteq> n" by (auto simp: child_avoiding_def)
    have "(n, y) \<in> (child t)\<^sup>*" if "(n, z) \<in> (child t)\<^sup>*"
      using that yz child_unique [OF t yz(1)] by (metis rtranclE)
    then show ?case using step.IH yz(1) by (meson rtrancl.rtrancl_into_rtrancl)
  qed
next
  assume "(r, x) \<in> (child t)\<^sup>* \<and> (n, x) \<notin> (child t)\<^sup>*"
  then have "(r, x) \<in> (child t)\<^sup>*" "(n, x) \<notin> (child t)\<^sup>*" by simp_all
  then show "(r, x) \<in> (child_avoiding n t)\<^sup>*"
  proof (induction rule: rtrancl_induct)
    case (step y z)
    then have "(n, y) \<notin> (child t)\<^sup>*" "z \<noteq> n" by (auto intro: rtrancl_into_rtrancl)
    then show ?case using step.IH step.hyps(2) by (auto simp: child_avoiding_def intro: rtrancl.rtrancl_into_rtrancl)
  qed simp
qed

lemma find_blocks_to_prune_Ok:
  assumes t: "tree_links t" and it: "iterates iter" and root: "tr_commit_root_id t \<in> dom (tr_id_to_block t)"
    and n: "(tr_commit_root_id t, n) \<in> (child t)\<^sup>*"
  shows "\<exists>l. find_blocks_to_prune iter n t = Some (Ok l) \<and> distinct l \<and>
    (parent_of t (tr_commit_root_id t) \<in> P \<longrightarrow> parents_first t P l) \<and>
    set l = {x. (tr_commit_root_id t, x) \<in> (child t)\<^sup>* \<and> (n, x) \<notin> (child t)\<^sup>*}"
proof (cases "n = tr_commit_root_id t")
  case True
  then show ?thesis by (simp add: find_blocks_to_prune_def)
next
  case False
  obtain lb where lb: "tr_id_to_block t (tr_commit_root_id t) = Some lb" using root by blast
  obtain l where l: "prunes_to iter t n (tr_commit_root_id t) l" using prunes_to_exists [OF t it root] by blast
  then have "prune_loop iter t n [lb] [] = Some (Ok l)"
    using lb by (simp add: prunes_to_def prune_loop.simps [of iter t n "[]"])
  then show ?thesis
    using l lb False avoiding_iff [OF t n]
    by (auto simp: find_blocks_to_prune_def linkable_root_def prunes_to_def intro: parents_first_mono)
qed

section \<open>Paths follow the links\<close>

fun chain_of :: "block_tree \<Rightarrow> hash_value \<Rightarrow> executed_block list \<Rightarrow> hash_value \<Rightarrow> bool" where
  "chain_of t r [] b \<longleftrightarrow> r = b"
| "chain_of t r (x # xs) b \<longleftrightarrow>
     tree_get_block t (eb_id x) = Some x \<and> (r, eb_id x) \<in> child t \<and> chain_of t (eb_id x) xs b"

lemma chain_of_snoc:
  "chain_of t r xs y \<Longrightarrow> tree_get_block t z = Some x \<Longrightarrow> eb_id x = z \<Longrightarrow> (y, z) \<in> child t \<Longrightarrow> chain_of t r (xs @ [x]) z"
  by (induction t r xs y rule: chain_of.induct) auto

lemma chain_of_descendant: "chain_of t r xs b \<Longrightarrow> (r, b) \<in> (child t)\<^sup>*"
  by (induction t r xs b rule: chain_of.induct) (auto intro: converse_rtrancl_into_rtrancl)

lemma chain_of_last: "chain_of t r xs b \<Longrightarrow> xs \<noteq> [] \<Longrightarrow> eb_id (last xs) = b"
  by (induction t r xs b rule: chain_of.induct) (auto split: if_splits)

lemma get_block_Some:
  assumes "tree_links t" "h \<in> dom (tr_id_to_block t)"
  obtains eb where "tree_get_block t h = Some eb" "eb_id eb = h" "eb_parent_id eb = parent_of t h"
    "unat (eb_round eb) = round_of t h"
  using assms tree_linksD(1) [OF assms(1)]
  by (auto simp: tree_get_block_def parent_of_def round_of_def)

lemma path_loop_descendant:
  assumes t: "tree_links t" and b: "(r, b) \<in> (child t)\<^sup>*"
    and r: "r \<in> dom (tr_id_to_block t)" "unat root_round = round_of t r"
  shows "\<exists>xs. chain_of t r xs b \<and> (\<forall>res. path_loop t root_round b res = Some (Some (r, res @ rev xs)))"
  using b
proof (induction rule: rtrancl_induct)
  case base
  obtain eb where "tree_get_block t r = Some eb" "unat (eb_round eb) = round_of t r"
    using get_block_Some [OF t r(1)] .
  then show ?case
    using r(2) by (intro exI [of _ "[]"]) (simp add: path_loop.simps [of t root_round r] word_le_nat_alt)
next
  case (step y z)
  then obtain xs where xs: "chain_of t r xs y" "\<forall>res. path_loop t root_round y res = Some (Some (r, res @ rev xs))"
    by blast
  obtain eb where eb: "tree_get_block t z = Some eb" "eb_id eb = z" "eb_parent_id eb = y" "unat (eb_round eb) = round_of t z"
    using get_block_Some [OF t tree_linksD(3) [OF t step.hyps(2)]] tree_linksD(4) [OF t step.hyps(2)] by metis
  have "round_of t r < round_of t z"
    using descendant_round_le [OF t step.hyps(1)] tree_linksD(5) [OF t step.hyps(2)] by simp
  then have "path_loop t root_round z res = Some (Some (r, res @ rev (xs @ [eb])))" for res
    using eb r(2) xs(2) by (subst path_loop.simps) (simp add: word_le_nat_alt)
  then show ?case using chain_of_snoc [OF xs(1) eb(1,2) step.hyps(2)] by blast
qed

lemma path_loop_other:
  assumes t: "tree_links t" and r: "r \<in> dom (tr_id_to_block t)"
  shows "(r, b) \<notin> (child t)\<^sup>* \<Longrightarrow>
    \<exists>out. path_loop t root_round b res = Some out \<and> (\<forall>cur res'. out = Some (cur, res') \<longrightarrow> cur \<noteq> r)"
proof (induction "round_of t b" arbitrary: b res rule: less_induct)
  case less
  show ?case
  proof (cases "b \<in> dom (tr_id_to_block t)")
    case False
    then show ?thesis by (subst path_loop.simps) (simp add: tree_get_block_def domIff)
  next
    case True
    obtain eb where eb: "tree_get_block t b = Some eb" "eb_id eb = b" "eb_parent_id eb = parent_of t b"
      using get_block_Some [OF t True] by metis
    note unfold = path_loop.simps [of t root_round b res]
    show ?thesis
    proof (cases "eb_round eb \<le> root_round")
      case True
      then show ?thesis using eb unfold less.prems by auto
    next
      case stop: False
      show ?thesis
      proof (cases "parent_of t b \<in> dom (tr_id_to_block t)")
        case True
        then have link: "(parent_of t b, b) \<in> child t" using tree_linksD(6) [OF t \<open>b \<in> dom _\<close>] by simp
        then have "(r, parent_of t b) \<notin> (child t)\<^sup>*" using less.prems by (meson rtrancl_into_rtrancl)
        with less.hyps [OF tree_linksD(5) [OF t link], of "res @ [eb]"] show ?thesis
          using eb stop unfold by simp
      next
        case False
        then have "tree_get_block t (parent_of t b) = None" by (simp add: tree_get_block_def domIff)
        then show ?thesis
          using eb stop unfold path_loop.simps [of t root_round "parent_of t b" "res @ [eb]"] by simp
      qed
    qed
  qed
qed

lemma path_from_root_spec:
  assumes t: "tree_links t" and r: "r \<in> dom (tr_id_to_block t)" "unat root_round = round_of t r"
  shows "\<exists>path. path_from_root_to_block b r root_round t = Some path \<and>
    (case path of None \<Rightarrow> (r, b) \<notin> (child t)\<^sup>* | Some xs \<Rightarrow> chain_of t r xs b)"
proof (cases "(r, b) \<in> (child t)\<^sup>*")
  case True
  from path_loop_descendant [OF t True r] show ?thesis
    by (auto simp: path_from_root_to_block_def)
next
  case False
  from path_loop_other [OF t r(1) this, of root_round "[]"] show ?thesis
    using False by (auto simp: path_from_root_to_block_def split: option.split)
qed

end
