(* ===== verification/Block_Store.thy ===== *)
theory Block_Store
  imports Block_Tree
begin

text \<open>
  The block store, \<^verbatim>\<open>consensus/src/block_storage/block_store.rs\<close>, with the insertion of quorum
  certificates of \<^verbatim>\<open>sync_manager.rs\<close> and the commit path of the execution proxy
  (\<^verbatim>\<open>consensus/src/state_computer.rs\<close>), which delivers the commit callback later and in order: the
  queued notifications are part of the state.

  The trait objects are the parameters \<open>bs_env\<close>: the executor acts on a state of its own, of type
  \<open>'x\<close>, and the outcome of a write to the persistent storage is given. An operation yields \<open>None\<close>
  when a loop of the block tree does not end.
\<close>

section \<open>Data\<close>

datatype execution_error = BlockNotFound hash_value | ExecutionError string

definition execution_to_anyhow :: "execution_error \<Rightarrow> anyhow_error" where
  "execution_to_anyhow e =
     Msg (case e of BlockNotFound _ \<Rightarrow> ''Cannot find speculation result for block id'' | ExecutionError m \<Rightarrow> m)"

record commit_notification =
  cn_blocks :: "executed_block list"
  cn_finality_proof :: ledger_info_with_signatures
  cn_txns :: "transaction list"
  cn_reconfig_events :: "u8 list list"

record 'x block_store =
  bs_inner :: block_tree
  bs_executor :: 'x
  bs_notifications :: "commit_notification list"
  bs_back_pressure_limit :: round_t

record 'x bs_env =
  bse_iter :: "hash_value set \<Rightarrow> hash_value list"
  bse_execute_block :: "block \<Rightarrow> hash_value \<Rightarrow> ('x, execution_error, state_compute_result) action"
  bse_commit_blocks :: "hash_value list \<Rightarrow> ledger_info_with_signatures \<Rightarrow> ('x, execution_error, unit) action"
  bse_save_tree :: "block list \<Rightarrow> quorum_cert list \<Rightarrow> (anyhow_error, unit) result"
  bse_save_highest_timeout_cert :: "timeout_certificate \<Rightarrow> (anyhow_error, unit) result"
  bse_save_highest_2chain_timeout_cert :: "two_chain_timeout_certificate \<Rightarrow> (anyhow_error, unit) result"

type_synonym ('x, 'a) bs_action = "'x block_store \<Rightarrow> ((anyhow_error, 'a) result \<times> 'x block_store) option"

definition bindO :: "('x, 'a) bs_action \<Rightarrow> ('a \<Rightarrow> ('x, 'b) bs_action) \<Rightarrow> ('x, 'b) bs_action" where
  "bindO m f s =
     (case m s of
        None \<Rightarrow> None
      | Some (Ok a, s') \<Rightarrow> f a s'
      | Some (Err e, s') \<Rightarrow> Some (Err e, s')
      | Some (Panic, s') \<Rightarrow> Some (Panic, s'))"

definition liftO :: "(anyhow_error, 'a) result \<Rightarrow> ('x, 'a) bs_action" where
  "liftO r s = Some (r, s)"

definition on_tree :: "'a tree_action \<Rightarrow> ('x, 'a) bs_action" where
  "on_tree m s = (case m (bs_inner s) of (r, t) \<Rightarrow> Some (r, s\<lparr>bs_inner := t\<rparr>))"

section \<open>Executing and inserting blocks\<close>

definition execute_block :: "'x bs_env \<Rightarrow> block \<Rightarrow> ('x block_store, execution_error, executed_block) action" where
  "execute_block env b s =
     (case bse_execute_block env b (blk_parent_id b) (bs_executor s) of
        (r, x) \<Rightarrow> (bind_res r (\<lambda>res. Ok \<lparr>eb_block = b, eb_state_compute_result = res\<rparr>), s\<lparr>bs_executor := x\<rparr>))"

fun reexecute_blocks :: "'x bs_env \<Rightarrow> executed_block list \<Rightarrow> ('x block_store, execution_error, unit) action" where
  "reexecute_blocks env [] = ret ()"
| "reexecute_blocks env (b # bs) = bindS (execute_block env (eb_block b)) (\<lambda>_. reexecute_blocks env bs)"

text \<open>When the executor has lost the parent, the blocks from the ordered root on are executed again.\<close>

definition execute_or_recover :: "'x bs_env \<Rightarrow> block \<Rightarrow> ('x, executed_block) bs_action" where
  "execute_or_recover env b s =
     (case execute_block env b s of
        (Err (BlockNotFound parent_block_id), s') \<Rightarrow>
          (case path_from_ordered_root parent_block_id (bs_inner s') of
             None \<Rightarrow> None
           | Some (Ok path) \<Rightarrow>
               (case bindS (reexecute_blocks env (case path of None \<Rightarrow> [] | Some bs \<Rightarrow> bs))
                      (\<lambda>_. execute_block env b) s' of
                  (r, s'') \<Rightarrow> Some (map_err execution_to_anyhow r, s''))
           | Some (Err e) \<Rightarrow> Some (Err e, s')
           | Some Panic \<Rightarrow> Some (Panic, s'))
      | (r, s') \<Rightarrow> Some (map_err execution_to_anyhow r, s'))"

definition execute_and_insert_block :: "'x bs_env \<Rightarrow> block \<Rightarrow> ('x, executed_block) bs_action" where
  "execute_and_insert_block env b s =
     (case tree_get_block (bs_inner s) (blk_id b) of
        Some existing_block \<Rightarrow> Some (Ok existing_block, s)
      | None \<Rightarrow>
          bindO (liftO (ordered_root (bs_inner s))) (\<lambda>r.
          bindO (liftO (ensure (eb_round r < blk_round b) (Msg ''Block with old round''))) (\<lambda>_.
          bindO (execute_or_recover env b) (\<lambda>eb.
          bindO (liftO (map_err (Context ''Insert block failed when saving block'')
            (bse_save_tree env [eb_block eb] []))) (\<lambda>_.
          on_tree (tree_insert_block eb))))) s)"

section \<open>Certificates\<close>

definition insert_single_quorum_cert :: "'x bs_env \<Rightarrow> quorum_cert \<Rightarrow> ('x, unit) bs_action" where
  "insert_single_quorum_cert env qc s =
     bindO (liftO (case tree_get_block (bs_inner s) (bi_id (qc_certified_block qc)) of
         Some executed_block \<Rightarrow>
           ensure (match_ordered_only (eb_block_info executed_block) (qc_certified_block qc))
             (Msg ''QC for block has different block info than local'')
       | None \<Rightarrow> Err (Msg ''Insert without having the block in store first''))) (\<lambda>_.
     bindO (liftO (map_err (Context ''Insert block failed when saving quorum'') (bse_save_tree env [] [qc]))) (\<lambda>_.
     on_tree (tree_insert_quorum_cert qc))) s"

definition cur_2chain_tc_round :: "block_tree \<Rightarrow> round_t" where
  "cur_2chain_tc_round t = (case tr_highest_2chain_timeout_cert t of None \<Rightarrow> 0 | Some tc \<Rightarrow> tc2_round tc)"

definition insert_timeout_certificate :: "'x bs_env \<Rightarrow> timeout_certificate \<Rightarrow> ('x, unit) bs_action" where
  "insert_timeout_certificate env tc s =
     (if to_round (tc_timeout tc) \<le> cur_2chain_tc_round (bs_inner s) then Some (Ok (), s)
      else bindO (liftO (map_err (Context ''Timeout certificate insert failed when persisting to DB'')
               (bse_save_highest_timeout_cert env tc))) (\<lambda>_.
             on_tree (\<lambda>t. (Ok (), t\<lparr>tr_highest_timeout_cert := Some tc\<rparr>))) s)"

definition insert_2chain_timeout_certificate ::
    "'x bs_env \<Rightarrow> two_chain_timeout_certificate \<Rightarrow> ('x, unit) bs_action" where
  "insert_2chain_timeout_certificate env tc s =
     (if tc2_round tc \<le> cur_2chain_tc_round (bs_inner s) then Some (Ok (), s)
      else bindO (liftO (map_err (Context ''Timeout certificate insert failed when persisting to DB'')
               (bse_save_highest_2chain_timeout_cert env tc))) (\<lambda>_.
             on_tree (\<lambda>t. (Ok (), t\<lparr>tr_highest_2chain_timeout_cert := Some tc\<rparr>))) s)"

definition bs_sync_info :: "'x block_store \<Rightarrow> (anyhow_error, sync_info) result" where
  "bs_sync_info s =
     (let t = bs_inner s in
      sync_info_new_decoupled (tr_highest_quorum_cert t) (tr_highest_ordered_cert t) (Some (tr_highest_ledger_info t))
        (tr_highest_timeout_cert t) (tr_highest_2chain_timeout_cert t))"

section \<open>Committing\<close>

fun collect_transactions :: "executed_block list \<Rightarrow> (anyhow_error, transaction list) result" where
  "collect_transactions [] = Ok []"
| "collect_transactions (b # bs) =
     bind_res (transactions_to_commit b) (\<lambda>txns. bind_res (collect_transactions bs) (\<lambda>rest. Ok (txns @ rest)))"

text \<open>The commit of the execution proxy; the caller panics on every error.\<close>

definition state_computer_commit ::
    "'x bs_env \<Rightarrow> executed_block list \<Rightarrow> ledger_info_with_signatures \<Rightarrow> ('x, unit) bs_action" where
  "state_computer_commit env blocks finality_proof s =
     bindO (liftO (collect_transactions blocks)) (\<lambda>txns s.
       case bse_commit_blocks env (map eb_id blocks) finality_proof (bs_executor s) of
         (Ok _, x) \<Rightarrow>
           Some (Ok (), s\<lparr>bs_executor := x,
             bs_notifications := bs_notifications s @
               [\<lparr>cn_blocks = blocks, cn_finality_proof = finality_proof, cn_txns = txns,
                 cn_reconfig_events = concat (map reconfig_event blocks)\<rparr>]\<rparr>)
       | (_, x) \<Rightarrow> Some (Panic, s\<lparr>bs_executor := x\<rparr>)) s"

definition commit :: "'x bs_env \<Rightarrow> ledger_info_with_signatures \<Rightarrow> ('x, executed_block list) bs_action" where
  "commit env finality_proof s =
     (let block_id_to_commit = li_consensus_block_id (ls_ledger_info finality_proof) in
      bindO (liftO (ok_or (tree_get_block (bs_inner s) block_id_to_commit) (Msg ''Committed block id not found'')))
        (\<lambda>block_to_commit.
      bindO (liftO (ordered_root (bs_inner s))) (\<lambda>r.
      bindO (liftO (ensure (eb_round block_to_commit > eb_round r) (Msg ''Committed block round lower than root''))) (\<lambda>_ s.
        case path_from_ordered_root block_id_to_commit (bs_inner s) of
          None \<Rightarrow> None
        | Some path \<Rightarrow>
            bindO (liftO path) (\<lambda>path.
              let blocks_to_commit = (case path of None \<Rightarrow> [] | Some bs \<Rightarrow> bs) in
              bindO (liftO (assert_that (blocks_to_commit \<noteq> []))) (\<lambda>_.
              bindO (state_computer_commit env blocks_to_commit finality_proof) (\<lambda>_.
              bindO (on_tree (update_ordered_root (eb_id block_to_commit))) (\<lambda>_.
              liftO (Ok blocks_to_commit))))) s))) s)"

text \<open>The task that notifies state sync of a commit and then runs its callback on the tree.\<close>

definition process_notification :: "'x bs_env \<Rightarrow> ('x, unit) bs_action" where
  "process_notification env s =
     (case bs_notifications s of
        [] \<Rightarrow> Some (Ok (), s)
      | cn # cns \<Rightarrow>
          (case commit_callback (bse_iter env) (cn_blocks cn) (cn_finality_proof cn) (bs_inner s) of
             None \<Rightarrow> None
           | Some (r, t) \<Rightarrow> Some (r, s\<lparr>bs_inner := t, bs_notifications := cns\<rparr>)))"

section \<open>Inserting certificates with their dependencies\<close>

definition need_sync_for_ledger_info :: "'x block_store \<Rightarrow> ledger_info_with_signatures \<Rightarrow> (anyhow_error, bool) result" where
  "need_sync_for_ledger_info s li =
     bind_res (ordered_root (bs_inner s)) (\<lambda>r.
       Ok (eb_round r + bs_back_pressure_limit s < bi_round (li_commit_info (ls_ledger_info li))))"

datatype need_fetch_result = QCRoundBeforeRoot | QCAlreadyExist | QCBlockExist | NeedFetch

definition need_fetch_for_quorum_cert :: "'x block_store \<Rightarrow> quorum_cert \<Rightarrow> (anyhow_error, need_fetch_result) result" where
  "need_fetch_for_quorum_cert s qc =
     bind_res (ordered_root (bs_inner s)) (\<lambda>r.
       Ok (if bi_round (qc_certified_block qc) < eb_round r then QCRoundBeforeRoot
           else if tr_id_to_quorum_cert (bs_inner s) (bi_id (qc_certified_block qc)) \<noteq> None then QCAlreadyExist
           else if block_exists (bs_inner s) (bi_id (qc_certified_block qc)) then QCBlockExist
           else NeedFetch))"

text \<open>The blocks below a certificate are retrieved one by one until a block of the store is reached;
  \<open>retrieve\<close> is what the network answers to the request for the block of a certificate.\<close>

partial_function (option) fetch_loop ::
    "(quorum_cert \<Rightarrow> (anyhow_error, block list) result) \<Rightarrow> block_tree \<Rightarrow> quorum_cert \<Rightarrow> block list
      \<Rightarrow> (anyhow_error, block list) result option" where
  "fetch_loop retrieve t retrieve_qc pending =
     (if block_exists t (bi_id (qc_certified_block retrieve_qc)) then Some (Ok pending)
      else case retrieve retrieve_qc of
          Ok [] \<Rightarrow> Some Panic
        | Ok (b # _) \<Rightarrow> fetch_loop retrieve t (blk_quorum_cert b) (b # pending)
        | Err e \<Rightarrow> Some (Err e)
        | Panic \<Rightarrow> Some Panic)"

fun insert_pending :: "'x bs_env \<Rightarrow> block list \<Rightarrow> ('x, unit) bs_action" where
  "insert_pending env [] = liftO (Ok ())"
| "insert_pending env (b # pending) =
     bindO (insert_single_quorum_cert env (blk_quorum_cert b)) (\<lambda>_.
     bindO (execute_and_insert_block env b) (\<lambda>_.
     insert_pending env pending))"

definition fetch_quorum_cert ::
    "'x bs_env \<Rightarrow> (quorum_cert \<Rightarrow> (anyhow_error, block list) result) \<Rightarrow> quorum_cert \<Rightarrow> ('x, unit) bs_action" where
  "fetch_quorum_cert env retrieve qc s =
     (case fetch_loop retrieve (bs_inner s) qc [] of
        None \<Rightarrow> None
      | Some pending \<Rightarrow>
          bindO (liftO pending) (\<lambda>pending.
          bindO (insert_pending env pending) (\<lambda>_.
          insert_single_quorum_cert env qc)) s)"

definition insert_quorum_cert ::
    "'x bs_env \<Rightarrow> (quorum_cert \<Rightarrow> (anyhow_error, block list) result) \<Rightarrow> quorum_cert \<Rightarrow> ('x, executed_block list) bs_action" where
  "insert_quorum_cert env retrieve qc s =
     bindO (liftO (need_fetch_for_quorum_cert s qc)) (\<lambda>need.
     bindO (case need of
         NeedFetch \<Rightarrow> fetch_quorum_cert env retrieve qc
       | QCBlockExist \<Rightarrow> insert_single_quorum_cert env qc
       | _ \<Rightarrow> liftO (Ok ())) (\<lambda>_ s.
     bindO (liftO (ordered_root (bs_inner s))) (\<lambda>r.
       if eb_round r < bi_round (qc_commit_info qc) then commit env (qc_signed_ledger_info qc)
       else liftO (Ok [])) s)) s"

section \<open>Start-up\<close>

record root_info =
  ri_block :: block
  ri_quorum_cert :: quorum_cert
  ri_ordered_cert :: quorum_cert
  ri_commit_ledger_info :: ledger_info_with_signatures

record root_metadata =
  rm_accu_hash :: hash_value
  rm_frozen_root_hashes :: "hash_value list"
  rm_num_leaves :: u64

definition rm_version :: "root_metadata \<Rightarrow> u64" where
  "rm_version md = max (rm_num_leaves md) 1 - 1"

definition or_panic :: "('x, 'a) bs_action \<Rightarrow> ('x, 'a) bs_action" where
  "or_panic m s = map_option (\<lambda>(r, s'). (case r of Err e \<Rightarrow> Panic | _ \<Rightarrow> r, s')) (m s)"

fun insert_recovered_blocks :: "'x bs_env \<Rightarrow> block list \<Rightarrow> ('x, unit) bs_action" where
  "insert_recovered_blocks env [] = liftO (Ok ())"
| "insert_recovered_blocks env (b # bs) =
     bindO (or_panic (execute_and_insert_block env b)) (\<lambda>_. insert_recovered_blocks env bs)"

fun insert_recovered_certs :: "'x bs_env \<Rightarrow> quorum_cert list \<Rightarrow> ('x, unit) bs_action" where
  "insert_recovered_certs env [] = liftO (Ok ())"
| "insert_recovered_certs env (qc # qcs) =
     bindO (or_panic (insert_single_quorum_cert env qc)) (\<lambda>_. insert_recovered_certs env qcs)"

definition root_compute_result :: "root_metadata \<Rightarrow> state_compute_result" where
  "root_compute_result md =
     \<lparr>scr_root_hash = rm_accu_hash md, scr_frozen_subtree_roots = rm_frozen_root_hashes md,
      scr_parent_frozen_subtree_roots = [], scr_num_leaves = rm_num_leaves md, scr_parent_num_leaves = 0,
      scr_epoch_state = None, scr_compute_status = [], scr_transaction_info_hashes = [], scr_signature = None,
      scr_reconfig_events = []\<rparr>"

definition root_tree ::
    "root_info \<Rightarrow> root_metadata \<Rightarrow> timeout_certificate option \<Rightarrow> two_chain_timeout_certificate option \<Rightarrow> nat
      \<Rightarrow> (anyhow_error, block_tree) result" where
  "root_tree root md htc h2tc max_pruned =
     (let certified = qc_certified_block (ri_quorum_cert root) in
      bind_res (assert_that (bi_version certified = 0 \<or> bi_version certified = rm_version md)) (\<lambda>_.
      bind_res (assert_that (bi_executed_state_id certified = accumulator_placeholder_hash \<or>
          bi_executed_state_id certified = rm_accu_hash md)) (\<lambda>_.
      block_tree_new \<lparr>eb_block = ri_block root, eb_state_compute_result = root_compute_result md\<rparr>
        (ri_quorum_cert root) (ri_ordered_cert root) (ri_commit_ledger_info root) max_pruned htc h2tc)))"

definition block_store_build ::
    "'x bs_env \<Rightarrow> root_info \<Rightarrow> root_metadata \<Rightarrow> block list \<Rightarrow> quorum_cert list \<Rightarrow> timeout_certificate option
      \<Rightarrow> two_chain_timeout_certificate option \<Rightarrow> nat \<Rightarrow> round_t \<Rightarrow> 'x
      \<Rightarrow> (anyhow_error, 'x block_store) result option" where
  "block_store_build env root md blocks quorum_certs htc h2tc max_pruned back_pressure_limit x =
     (case root_tree root md htc h2tc max_pruned of
        Ok t \<Rightarrow>
          (case bindO (insert_recovered_blocks env blocks) (\<lambda>_. insert_recovered_certs env quorum_certs)
                  \<lparr>bs_inner = t, bs_executor = x, bs_notifications = [], bs_back_pressure_limit = back_pressure_limit\<rparr> of
             None \<Rightarrow> None
           | Some (Ok _, s) \<Rightarrow> Some (Ok s)
           | Some (Err e, s) \<Rightarrow> Some (Err e)
           | Some (Panic, s) \<Rightarrow> Some Panic)
      | Err e \<Rightarrow> Some (Err e)
      | Panic \<Rightarrow> Some Panic)"

end
