(* ===== verification/Block_Tree_Inv.thy ===== *)
theory Block_Tree_Inv
  imports Block_Tree
begin

text \<open>
  The invariant of the block tree, kept by inserting a block and by pruning. Removed blocks never
  come back, so that every parent link into the tree keeps its child link. The blocks that ever reach
  the tree come from a set \<open>U\<close> in which the id determines the contents and a parent has a lower
  round, which hashing and \<open>verify_well_formed\<close> provide.
\<close>

section \<open>The blocks that occur\<close>

definition universe :: "block set \<Rightarrow> bool" where
  "universe U \<longleftrightarrow>
     (\<forall>b \<in> U. \<forall>b' \<in> U. blk_id b = blk_id b' \<longrightarrow> blk_block_data b = blk_block_data b') \<and>
     (\<forall>b \<in> U. \<forall>p \<in> U. blk_id p = blk_parent_id b \<longrightarrow> blk_round p < blk_round b)"

section \<open>Links after insertion and removal\<close>

definition with_block :: "executed_block \<Rightarrow> block_tree \<Rightarrow> block_tree" where
  "with_block eb t =
     (let lb = the (tr_id_to_block t (eb_parent_id eb)) in
      t\<lparr>tr_id_to_block := (tr_id_to_block t)
         (eb_parent_id eb \<mapsto> lb\<lparr>lb_children := insert (eb_id eb) (lb_children lb)\<rparr>, eb_id eb \<mapsto> linkable_new eb)\<rparr>)"

lemma tree_insert_block_cases:
  assumes "tree_links t" "tree_insert_block eb t = (out, t')"
  obtains (same) "t' = t"
  | (new) "out = Ok eb" "t' = with_block eb t" "eb_id eb \<notin> dom (tr_id_to_block t)"
      "eb_parent_id eb \<in> dom (tr_id_to_block t)"
proof (cases "tr_id_to_block t (eb_id eb)")
  case (Some lb)
  then show thesis using assms(2) same by (auto simp: tree_insert_block_def tree_get_block_def split: if_splits)
next
  case None
  show thesis
  proof (cases "tr_id_to_block t (eb_parent_id eb)")
    case None
    then show thesis
      using assms(2) same \<open>tr_id_to_block t (eb_id eb) = None\<close>
      by (auto simp: tree_insert_block_def tree_get_block_def)
  next
    case (Some lb)
    have "eb_id eb \<notin> lb_children lb"
      using tree_linksD(3) [OF assms(1), of "eb_parent_id eb" "eb_id eb"] Some None by (auto simp: child_def)
    moreover have "eb_id eb \<noteq> eb_parent_id eb" using Some None by (metis option.distinct(1))
    ultimately have "tree_insert_block eb t = (Ok eb, with_block eb t)"
      using Some None by (simp add: tree_insert_block_def tree_get_block_def add_child_def with_block_def Let_def)
    then show thesis using assms(2) Some None new by auto
  qed
qed

definition can_insert :: "executed_block \<Rightarrow> block_tree \<Rightarrow> bool" where
  "can_insert eb t \<longleftrightarrow> eb_id eb \<notin> dom (tr_id_to_block t) \<and> eb_parent_id eb \<in> dom (tr_id_to_block t)"

lemma with_block_fields [simp]:
  "tr_commit_root_id (with_block eb t) = tr_commit_root_id t"
  "tr_ordered_root_id (with_block eb t) = tr_ordered_root_id t"
  "tr_pruned_block_ids (with_block eb t) = tr_pruned_block_ids t"
  "tr_highest_ledger_info (with_block eb t) = tr_highest_ledger_info t"
  "tr_id_to_quorum_cert (with_block eb t) = tr_id_to_quorum_cert t"
  by (simp_all add: with_block_def Let_def)

lemma with_block_get:
  "can_insert eb t \<Longrightarrow> tree_get_block (with_block eb t) h = (if h = eb_id eb then Some eb else tree_get_block t h)"
  by (auto simp: can_insert_def with_block_def tree_get_block_def linkable_new_def Let_def)

lemma dom_get: "dom (tr_id_to_block t) = dom (tree_get_block t)"
  by (auto simp: tree_get_block_def)

lemma round_of_get: "round_of t h = (case tree_get_block t h of None \<Rightarrow> 0 | Some b \<Rightarrow> unat (eb_round b))"
  by (simp add: round_of_def tree_get_block_def split: option.split)

lemma parent_of_get: "h \<in> dom (tr_id_to_block t) \<Longrightarrow> parent_of t h = eb_parent_id (the (tree_get_block t h))"
  by (auto simp: parent_of_def tree_get_block_def)

lemma with_block_dom: "can_insert eb t \<Longrightarrow> dom (tr_id_to_block (with_block eb t)) = insert (eb_id eb) (dom (tr_id_to_block t))"
  unfolding dom_get by (auto simp: with_block_get split: if_splits)

lemma with_block_round:
  "can_insert eb t \<Longrightarrow> round_of (with_block eb t) h = (if h = eb_id eb then unat (eb_round eb) else round_of t h)"
  by (simp add: round_of_get with_block_get)

lemma with_block_parent:
  "can_insert eb t \<Longrightarrow> h \<in> insert (eb_id eb) (dom (tr_id_to_block t)) \<Longrightarrow>
     parent_of (with_block eb t) h = (if h = eb_id eb then eb_parent_id eb else parent_of t h)"
  using with_block_dom [of eb t] by (cases "h = eb_id eb") (simp_all add: parent_of_get with_block_get)

lemma with_block_child:
  "can_insert eb t \<Longrightarrow> child (with_block eb t) = insert (eb_parent_id eb, eb_id eb) (child t)"
  by (auto simp: can_insert_def child_def with_block_def linkable_new_def Let_def split: if_splits)

lemma with_block_reach:
  assumes "can_insert eb t" "(a, x) \<in> (child (with_block eb t))\<^sup>*"
  shows "(a, x) \<in> (child t)\<^sup>* \<or> x = eb_id eb \<and> (a, eb_parent_id eb) \<in> (child t)\<^sup>* \<or> a = x"
  using assms(2)
proof (induction rule: rtrancl_induct)
  case (step y z)
  have "y \<noteq> eb_id eb"
  proof
    assume "y = eb_id eb"
    then have "(eb_id eb, z) \<in> child t \<or> eb_id eb = eb_parent_id eb"
      using step.hyps(2) with_block_child [OF assms(1)] by auto
    then show False using assms(1) child_dom [of "eb_id eb" z t] by (auto simp: can_insert_def)
  qed
  then have "(a, y) \<in> (child t)\<^sup>*" using step.IH by auto
  then show ?case using step.hyps(2) with_block_child [OF assms(1)] by (auto intro: rtrancl_into_rtrancl)
qed simp

section \<open>The invariant of the tree\<close>

text \<open>\<open>R\<close> holds the blocks that were removed after pruning. They never come back: their ancestors
  were removed before them, down to blocks that are older than the commit root.\<close>

definition tree_inv :: "block set \<Rightarrow> hash_value set \<Rightarrow> block_tree \<Rightarrow> bool" where
  "tree_inv U R t \<longleftrightarrow> tree_links t \<and>
     (\<forall>h eb. tree_get_block t h = Some eb \<longrightarrow> eb_block eb \<in> U) \<and>
     tr_commit_root_id t \<in> dom (tr_id_to_block t) \<and>
     (tr_commit_root_id t, tr_ordered_root_id t) \<in> (child t)\<^sup>* \<and>
     parents_first t (- dom (tr_id_to_block t)) (tr_pruned_block_ids t) \<and>
     set (tr_pruned_block_ids t) \<subseteq> dom (tr_id_to_block t) \<and> distinct (tr_pruned_block_ids t) \<and>
     (\<forall>x \<in> set (tr_pruned_block_ids t). (tr_commit_root_id t, x) \<notin> (child t)\<^sup>*) \<and>
     parent_of t (tr_commit_root_id t) \<in> - dom (tr_id_to_block t) \<union> set (tr_pruned_block_ids t) \<and>
     (\<forall>x \<in> dom (tr_id_to_block t).
        parent_of t x \<in> dom (tr_id_to_block t) \<union> R \<or> round_of t x \<le> round_of t (tr_commit_root_id t)) \<and>
     R \<inter> dom (tr_id_to_block t) = {} \<and>
     (\<forall>r \<in> R. \<exists>b \<in> U. blk_id b = r \<and> (blk_parent_id b \<in> R \<or> unat (blk_round b) \<le> round_of t (tr_commit_root_id t)))"

lemma tree_invD:
  assumes "tree_inv U R t"
  shows "tree_links t" "\<And>h eb. tree_get_block t h = Some eb \<Longrightarrow> eb_block eb \<in> U"
    "tr_commit_root_id t \<in> dom (tr_id_to_block t)" "(tr_commit_root_id t, tr_ordered_root_id t) \<in> (child t)\<^sup>*"
    "parents_first t (- dom (tr_id_to_block t)) (tr_pruned_block_ids t)"
    "set (tr_pruned_block_ids t) \<subseteq> dom (tr_id_to_block t)"
    "\<And>x. x \<in> set (tr_pruned_block_ids t) \<Longrightarrow> (tr_commit_root_id t, x) \<notin> (child t)\<^sup>*"
    "parent_of t (tr_commit_root_id t) \<in> - dom (tr_id_to_block t) \<union> set (tr_pruned_block_ids t)"
    "\<And>x. x \<in> dom (tr_id_to_block t) \<Longrightarrow>
        parent_of t x \<in> dom (tr_id_to_block t) \<union> R \<or> round_of t x \<le> round_of t (tr_commit_root_id t)"
    "R \<inter> dom (tr_id_to_block t) = {}"
    "\<And>r. r \<in> R \<Longrightarrow> \<exists>b \<in> U. blk_id b = r \<and> (blk_parent_id b \<in> R \<or> unat (blk_round b) \<le> round_of t (tr_commit_root_id t))"
    "distinct (tr_pruned_block_ids t)"
  using assms unfolding tree_inv_def by blast+

lemma tree_invI:
  assumes "tree_links t" "\<And>h eb. tree_get_block t h = Some eb \<Longrightarrow> eb_block eb \<in> U"
    "tr_commit_root_id t \<in> dom (tr_id_to_block t)" "(tr_commit_root_id t, tr_ordered_root_id t) \<in> (child t)\<^sup>*"
    "parents_first t (- dom (tr_id_to_block t)) (tr_pruned_block_ids t)"
    "set (tr_pruned_block_ids t) \<subseteq> dom (tr_id_to_block t)"
    "\<And>x. x \<in> set (tr_pruned_block_ids t) \<Longrightarrow> (tr_commit_root_id t, x) \<notin> (child t)\<^sup>*"
    "parent_of t (tr_commit_root_id t) \<in> - dom (tr_id_to_block t) \<union> set (tr_pruned_block_ids t)"
    "\<And>x. x \<in> dom (tr_id_to_block t) \<Longrightarrow>
        parent_of t x \<in> dom (tr_id_to_block t) \<union> R \<or> round_of t x \<le> round_of t (tr_commit_root_id t)"
    "R \<inter> dom (tr_id_to_block t) = {}"
    "\<And>r. r \<in> R \<Longrightarrow> \<exists>b \<in> U. blk_id b = r \<and> (blk_parent_id b \<in> R \<or> unat (blk_round b) \<le> round_of t (tr_commit_root_id t))"
    "distinct (tr_pruned_block_ids t)"
  shows "tree_inv U R t"
  using assms unfolding tree_inv_def by blast

lemma ordered_root_dom: "tree_inv U R t \<Longrightarrow> tr_ordered_root_id t \<in> dom (tr_id_to_block t)"
  using descendant_dom [OF tree_invD(1)] tree_invD(3,4) by blast

text \<open>A block that passes the round check of the store was not removed before and is not the parent of
  a block of the tree.\<close>

lemma insertable:
  assumes inv: "tree_inv U R t" and U: "universe U" "eb_block eb \<in> U" and can: "can_insert eb t"
    and new: "round_of t (tr_ordered_root_id t) < unat (eb_round eb)"
  shows "eb_id eb \<notin> R" "c \<in> dom (tr_id_to_block t) \<Longrightarrow> parent_of t c \<noteq> eb_id eb"
proof -
  note inv' = tree_invD [OF inv]
  have root: "round_of t (tr_commit_root_id t) < unat (eb_round eb)"
    using descendant_round_le [OF inv'(1,4)] new by simp
  show R: "eb_id eb \<notin> R"
  proof
    assume "eb_id eb \<in> R"
    from inv'(11) [OF this] obtain b where b: "b \<in> U" "blk_id b = eb_id eb"
      "blk_parent_id b \<in> R \<or> unat (blk_round b) \<le> round_of t (tr_commit_root_id t)" by blast
    then have "blk_block_data b = blk_block_data (eb_block eb)" using U unfolding universe_def by blast
    then have "eb_parent_id eb \<in> R" using b(3) root by auto
    then show False using inv'(10) can unfolding can_insert_def by blast
  qed
  show "parent_of t c \<noteq> eb_id eb" if c: "c \<in> dom (tr_id_to_block t)"
  proof
    assume p: "parent_of t c = eb_id eb"
    then have "round_of t c \<le> round_of t (tr_commit_root_id t)"
      using inv'(9) [OF c] R can by (auto simp: can_insert_def)
    moreover obtain d where d: "tree_get_block t c = Some d" "eb_parent_id d = eb_id eb" "unat (eb_round d) = round_of t c"
      using get_block_Some [OF inv'(1) c] p by metis
    moreover have "eb_round eb < eb_round d"
      using U d(1,2) inv'(2) unfolding universe_def by (metis (no_types, lifting))
    ultimately show False using root by (simp add: word_less_nat_alt)
  qed
qed

lemma with_block_links:
  assumes links: "tree_links t" and can: "can_insert eb t"
    and up: "round_of t (eb_parent_id eb) < unat (eb_round eb)"
    and orphan: "\<And>c. c \<in> dom (tr_id_to_block t) \<Longrightarrow> parent_of t c \<noteq> eb_id eb"
  shows "tree_links (with_block eb t)"
proof -
  have ne: "eb_parent_id eb \<noteq> eb_id eb" using can by (auto simp: can_insert_def)
  have "eb_id (lb_executed_block lb) = h \<and> finite (lb_children lb)" if "tr_id_to_block (with_block eb t) h = Some lb" for h lb
  proof -
    obtain lp where lp: "tr_id_to_block t (eb_parent_id eb) = Some lp" using can by (auto simp: can_insert_def)
    show ?thesis
    proof (cases "h = eb_id eb")
      case True
      then have "lb = linkable_new eb" using that by (simp add: with_block_def Let_def)
      then show ?thesis using True by (simp add: linkable_new_def)
    next
      case False
      then have "lb = (if h = eb_parent_id eb then lp\<lparr>lb_children := insert (eb_id eb) (lb_children lp)\<rparr>
          else the (tr_id_to_block t h)) \<and> h \<in> dom (tr_id_to_block t)"
        using that lp by (auto simp: with_block_def Let_def)
      then show ?thesis using tree_linksD(1,2) [OF links] lp by (auto split: if_splits)
    qed
  qed
  moreover have "c \<in> dom (tr_id_to_block (with_block eb t)) \<and> parent_of (with_block eb t) c = p \<and>
      round_of (with_block eb t) p < round_of (with_block eb t) c" if "(p, c) \<in> child (with_block eb t)" for p c
  proof (cases "(p, c) \<in> child t")
    case True
    then have "c \<noteq> eb_id eb" "p \<noteq> eb_id eb" "c \<in> dom (tr_id_to_block t)"
      using can tree_linksD(3) [OF links True] child_dom [OF True] by (auto simp: can_insert_def)
    then show ?thesis
      using tree_linksD(4,5) [OF links True] can by (simp add: with_block_dom with_block_parent with_block_round)
  next
    case False
    then have "p = eb_parent_id eb" "c = eb_id eb" using that with_block_child [OF can] by auto
    then show ?thesis using up ne can by (simp add: with_block_dom with_block_parent with_block_round)
  qed
  moreover have "(parent_of (with_block eb t) c, c) \<in> child (with_block eb t)"
    if "c \<in> dom (tr_id_to_block (with_block eb t))" "parent_of (with_block eb t) c \<in> dom (tr_id_to_block (with_block eb t))" for c
  proof (cases "c = eb_id eb")
    case True
    then show ?thesis using can by (simp add: with_block_child with_block_parent)
  next
    case False
    then have "c \<in> dom (tr_id_to_block t)" "parent_of t c \<in> insert (eb_id eb) (dom (tr_id_to_block t))"
      using that can by (auto simp: with_block_dom with_block_parent simp del: domIff)
    then show ?thesis
      using tree_linksD(6) [OF links, of c] orphan [of c] False can by (simp add: with_block_child with_block_parent)
  qed
  ultimately show ?thesis unfolding tree_links_def by blast
qed

lemma parents_first_cong:
  "(\<And>x. x \<in> set xs \<Longrightarrow> parent_of t' x = parent_of t x) \<Longrightarrow> parents_first t' P xs = parents_first t P xs"
  by (induction xs arbitrary: P) auto

lemma parents_first_drop:
  "parents_first t P xs \<Longrightarrow> (\<And>x. x \<in> set xs \<Longrightarrow> parent_of t x \<noteq> b) \<Longrightarrow> parents_first t (P - {b}) xs"
proof (induction xs arbitrary: P)
  case (Cons x xs)
  have "parents_first t (insert x P - {b}) xs" using Cons by simp
  then show ?case using Cons.prems by (auto intro: parents_first_mono)
qed simp

lemma with_block_old:
  assumes "can_insert eb t" "x \<in> dom (tr_id_to_block t)"
  shows "parent_of (with_block eb t) x = parent_of t x" "round_of (with_block eb t) x = round_of t x"
  using with_block_parent [OF assms(1), of x] with_block_round [OF assms(1), of x] assms by (auto simp: can_insert_def)

lemma parent_round:
  assumes "tree_inv U R t" "universe U" "eb_block eb \<in> U" "can_insert eb t"
  shows "round_of t (eb_parent_id eb) < unat (eb_round eb)"
proof -
  have "eb_parent_id eb \<in> dom (tr_id_to_block t)" using assms(4) by (simp add: can_insert_def)
  then obtain p where p: "tree_get_block t (eb_parent_id eb) = Some p" "eb_id p = eb_parent_id eb"
    "unat (eb_round p) = round_of t (eb_parent_id eb)"
    using get_block_Some [OF tree_invD(1) [OF assms(1)]] by metis
  have "eb_round p < eb_round eb"
    using assms(2,3) tree_invD(2) [OF assms(1) p(1)] p(2) unfolding universe_def by blast
  then show ?thesis using p(3) by (simp add: word_less_nat_alt)
qed

lemma with_block_pruned:
  assumes inv: "tree_inv U R t" and can: "can_insert eb t"
    and orphan: "\<And>c. c \<in> dom (tr_id_to_block t) \<Longrightarrow> parent_of t c \<noteq> eb_id eb"
  shows "parents_first (with_block eb t) (- dom (tr_id_to_block (with_block eb t))) (tr_pruned_block_ids t)"
    and "x \<in> set (tr_pruned_block_ids t) \<Longrightarrow> (tr_commit_root_id t, x) \<notin> (child (with_block eb t))\<^sup>*"
proof -
  let ?D = "dom (tr_id_to_block t)"
  note inv' = tree_invD [OF inv]
  have "parents_first t (- ?D - {eb_id eb}) (tr_pruned_block_ids t)"
    using inv'(5,6) orphan by (intro parents_first_drop) auto
  moreover have "- ?D - {eb_id eb} = - dom (tr_id_to_block (with_block eb t))" using with_block_dom [OF can] by auto
  moreover have "parents_first (with_block eb t) P (tr_pruned_block_ids t) = parents_first t P (tr_pruned_block_ids t)" for P
    by (rule parents_first_cong) (use inv'(6) with_block_old(1) [OF can] in blast)
  ultimately show "parents_first (with_block eb t) (- dom (tr_id_to_block (with_block eb t))) (tr_pruned_block_ids t)"
    by simp
  show "(tr_commit_root_id t, x) \<notin> (child (with_block eb t))\<^sup>*" if "x \<in> set (tr_pruned_block_ids t)"
    using with_block_reach [OF can, of "tr_commit_root_id t" x] inv'(6) inv'(7) [of x] that can by (auto simp: can_insert_def)
qed

lemma with_block_inv:
  assumes inv: "tree_inv U R t" and U: "universe U" "eb_block eb \<in> U" and can: "can_insert eb t"
    and new: "round_of t (tr_ordered_root_id t) < unat (eb_round eb)"
  shows "tree_inv U R (with_block eb t)"
proof -
  let ?t = "with_block eb t" and ?D = "dom (tr_id_to_block t)"
  note inv' = tree_invD [OF inv]
  note orphan = insertable(2) [OF inv U can new]
  have D: "dom (tr_id_to_block ?t) = insert (eb_id eb) ?D" by (rule with_block_dom [OF can])
  note old = with_block_old [OF can]
  show ?thesis
  proof (rule tree_invI, unfold with_block_fields)
    show "tree_links ?t" by (rule with_block_links [OF inv'(1) can parent_round [OF inv U can] orphan])
    show "eb_block e \<in> U" if "tree_get_block ?t h = Some e" for h e
      using that with_block_get [OF can, of h] inv'(2) [of h e] U(2) by (simp split: if_splits)
    show "tr_commit_root_id t \<in> dom (tr_id_to_block ?t)" using inv'(3) D by simp
    show "(tr_commit_root_id t, tr_ordered_root_id t) \<in> (child ?t)\<^sup>*"
      using inv'(4) rtrancl_mono [of "child t" "child ?t"] with_block_child [OF can] by auto
    show "parents_first ?t (- dom (tr_id_to_block ?t)) (tr_pruned_block_ids t)"
      by (rule with_block_pruned(1) [OF inv can orphan])
    show "(tr_commit_root_id t, x) \<notin> (child ?t)\<^sup>*" if "x \<in> set (tr_pruned_block_ids t)" for x
      by (rule with_block_pruned(2) [OF inv can orphan that])
    show "set (tr_pruned_block_ids t) \<subseteq> dom (tr_id_to_block ?t)" using inv'(6) D by auto
    show "parent_of ?t (tr_commit_root_id t) \<in> - dom (tr_id_to_block ?t) \<union> set (tr_pruned_block_ids t)"
      using inv'(8) old(1) [OF inv'(3)] orphan [OF inv'(3)] D by auto
    show "parent_of ?t x \<in> dom (tr_id_to_block ?t) \<union> R \<or> round_of ?t x \<le> round_of ?t (tr_commit_root_id t)"
      if "x \<in> dom (tr_id_to_block ?t)" for x
    proof (cases "x = eb_id eb")
      case True
      then show ?thesis using with_block_parent [OF can, of x] can D by (simp add: can_insert_def)
    next
      case False
      then have "x \<in> ?D" using that D by blast
      then show ?thesis using inv'(9) [of x] old [of x] old(2) [OF inv'(3)] D by auto
    qed
    show "R \<inter> dom (tr_id_to_block ?t) = {}" using inv'(10) D insertable(1) [OF inv U can new] by auto
    show "\<exists>b \<in> U. blk_id b = r \<and> (blk_parent_id b \<in> R \<or> unat (blk_round b) \<le> round_of ?t (tr_commit_root_id t))"
      if "r \<in> R" for r
      using inv'(11) [OF that] old(2) [OF inv'(3)] by simp
    show "distinct (tr_pruned_block_ids t)" by (rule inv'(12))
  qed
qed

section \<open>Removing blocks\<close>

lemma remove_block_fields:
  "tr_id_to_block (remove_block x t) h = (if h = x then None else tr_id_to_block t h)"
  "tr_commit_root_id (remove_block x t) = tr_commit_root_id t"
  "tr_ordered_root_id (remove_block x t) = tr_ordered_root_id t"
  "tr_pruned_block_ids (remove_block x t) = tr_pruned_block_ids t"
  "tr_highest_ledger_info (remove_block x t) = tr_highest_ledger_info t"
  by (simp_all add: remove_block_def)

lemma fold_remove_block_get:
  "tr_id_to_block (fold remove_block xs t) h = (if h \<in> set xs then None else tr_id_to_block t h)"
  by (induction xs arbitrary: t) (auto simp: remove_block_fields)

lemma fold_remove_block:
  "tr_id_to_block (fold remove_block xs t) = (tr_id_to_block t) |` (- set xs)"
  "tr_commit_root_id (fold remove_block xs t) = tr_commit_root_id t"
  "tr_ordered_root_id (fold remove_block xs t) = tr_ordered_root_id t"
  "tr_pruned_block_ids (fold remove_block xs t) = tr_pruned_block_ids t"
  "tr_highest_ledger_info (fold remove_block xs t) = tr_highest_ledger_info t"
  by (auto simp: fold_remove_block_get restrict_map_def)
    (induction xs arbitrary: t; simp add: remove_block_fields)+

text \<open>What is left of the links when a set of blocks goes: \<open>t'\<close> is \<open>t\<close> without the blocks in \<open>X\<close>.\<close>

definition without :: "hash_value set \<Rightarrow> block_tree \<Rightarrow> block_tree \<Rightarrow> bool" where
  "without X t t' \<longleftrightarrow> tr_id_to_block t' = (tr_id_to_block t) |` (- X)"

lemma without_facts:
  assumes "without X t t'"
  shows "dom (tr_id_to_block t') = dom (tr_id_to_block t) - X"
    "child t' = {(p, c) \<in> child t. p \<notin> X}"
    "x \<notin> X \<Longrightarrow> parent_of t' x = parent_of t x"
    "x \<notin> X \<Longrightarrow> round_of t' x = round_of t x"
    "tree_get_block t' x = Some eb \<Longrightarrow> tree_get_block t x = Some eb"
  using assms
  by (auto simp: without_def child_def parent_of_def round_of_def tree_get_block_def restrict_map_def split: if_splits)

lemma without_reach:
  assumes "without X t t'" "\<And>x. (n, x) \<in> (child t)\<^sup>* \<Longrightarrow> x \<notin> X"
  shows "(n, x) \<in> (child t')\<^sup>* \<longleftrightarrow> (n, x) \<in> (child t)\<^sup>*"
proof
  show "(n, x) \<in> (child t)\<^sup>*" if "(n, x) \<in> (child t')\<^sup>*"
    using that without_facts(2) [OF assms(1)] rtrancl_mono [of "child t'" "child t"] by auto
  show "(n, x) \<in> (child t')\<^sup>*" if "(n, x) \<in> (child t)\<^sup>*"
    using that
  proof (induction rule: rtrancl_induct)
    case (step y z)
    then have "(y, z) \<in> child t'" using assms(2) [of y] without_facts(2) [OF assms(1)] by simp
    then show ?case using step.IH by (meson rtrancl_into_rtrancl)
  qed simp
qed

lemma without_links:
  assumes t: "tree_links t" and w: "without X t t'"
    and closed: "\<And>x. x \<in> X \<Longrightarrow> parent_of t x \<in> - dom (tr_id_to_block t) \<union> X"
  shows "tree_links t'"
proof -
  note f = without_facts [OF w]
  have "eb_id (lb_executed_block lb) = h \<and> finite (lb_children lb)" if "tr_id_to_block t' h = Some lb" for h lb
    using that w tree_linksD(1,2) [OF t, of h lb] by (auto simp: without_def restrict_map_def split: if_splits)
  moreover have "c \<in> dom (tr_id_to_block t') \<and> parent_of t' c = p \<and> round_of t' p < round_of t' c"
    if "(p, c) \<in> child t'" for p c
  proof -
    have pc: "(p, c) \<in> child t" "p \<notin> X" using that f(2) by auto
    have "c \<notin> X" using closed [of c] tree_linksD(4) [OF t pc(1)] child_dom [OF pc(1)] pc(2) by auto
    then show ?thesis using tree_linksD(3-5) [OF t pc(1)] pc(2) f(1,3,4) by auto
  qed
  moreover have "(parent_of t' c, c) \<in> child t'"
    if "c \<in> dom (tr_id_to_block t')" "parent_of t' c \<in> dom (tr_id_to_block t')" for c
    using that f tree_linksD(6) [OF t, of c] by auto
  ultimately show ?thesis unfolding tree_links_def by blast
qed

text \<open>One step of pruning: the commit root moves to its descendant \<open>n\<close>, the blocks outside the
  subtree of \<open>n\<close> join the queue \<open>ids\<close> of pruned blocks and the first \<open>k\<close> of the queue are removed.\<close>

definition prunes :: "hash_value \<Rightarrow> hash_value list \<Rightarrow> nat \<Rightarrow> block_tree \<Rightarrow> block_tree \<Rightarrow> bool" where
  "prunes n ids k t t' \<longleftrightarrow>
     (tr_commit_root_id t, n) \<in> (child t)\<^sup>* \<and> (n, tr_ordered_root_id t) \<in> (child t)\<^sup>* \<and>
     distinct ids \<and> parents_first t (- dom (tr_id_to_block t)) ids \<and>
     set ids = set (tr_pruned_block_ids t) \<union> {x. (tr_commit_root_id t, x) \<in> (child t)\<^sup>* \<and> (n, x) \<notin> (child t)\<^sup>*} \<and>
     without (set (take k ids)) t t' \<and>
     tr_commit_root_id t' = n \<and> tr_ordered_root_id t' = tr_ordered_root_id t \<and> tr_pruned_block_ids t' = drop k ids"

lemma prunesD:
  assumes "tree_inv U R t" "prunes n ids k t t'"
  shows "x \<in> set ids \<Longrightarrow> x \<in> dom (tr_id_to_block t)"
    and "(n, x) \<in> (child t)\<^sup>* \<Longrightarrow> x \<notin> set ids"
    and "x \<in> set (take k ids) \<Longrightarrow> parent_of t x \<in> - dom (tr_id_to_block t) \<union> set (take k ids)"
    and "parents_first t (- (dom (tr_id_to_block t) - set (take k ids))) (drop k ids)"
    and "set (drop k ids) \<inter> set (take k ids) = {}"
proof -
  note inv' = tree_invD [OF assms(1)]
  have ids: "set ids = set (tr_pruned_block_ids t) \<union> {x. (tr_commit_root_id t, x) \<in> (child t)\<^sup>* \<and> (n, x) \<notin> (child t)\<^sup>*}"
    "distinct ids" "parents_first t (- dom (tr_id_to_block t)) ids" and n: "(tr_commit_root_id t, n) \<in> (child t)\<^sup>*"
    using assms(2) by (simp_all add: prunes_def)
  show "x \<in> dom (tr_id_to_block t)" if "x \<in> set ids"
    using that ids(1) inv'(6) descendant_dom [OF inv'(1) _ inv'(3)] by blast
  show "x \<notin> set ids" if "(n, x) \<in> (child t)\<^sup>*"
    using that n inv'(7) [of x] ids(1) rtrancl_trans [OF n that] by auto
  show "parent_of t x \<in> - dom (tr_id_to_block t) \<union> set (take k ids)" if "x \<in> set (take k ids)"
    by (rule parents_firstD [OF ids(3) that])
  have "parents_first t (- dom (tr_id_to_block t) \<union> set (take k ids)) (drop k ids)"
    using ids(3) parents_first_append [of t "- dom (tr_id_to_block t)" "take k ids" "drop k ids"] by simp
  then show "parents_first t (- (dom (tr_id_to_block t) - set (take k ids))) (drop k ids)"
    by (rule parents_first_mono) auto
  show "set (drop k ids) \<inter> set (take k ids) = {}"
    using ids(2) append_take_drop_id [of k ids] by (metis distinct_append inf_commute)
qed

lemma prunes_root_parent:
  assumes inv: "tree_inv U R t" and pr: "prunes n ids k t t'"
  shows "parent_of t n \<in> - dom (tr_id_to_block t) \<union> set ids"
proof -
  have ids: "set ids = set (tr_pruned_block_ids t) \<union> {x. (tr_commit_root_id t, x) \<in> (child t)\<^sup>* \<and> (n, x) \<notin> (child t)\<^sup>*}"
    and n: "(tr_commit_root_id t, n) \<in> (child t)\<^sup>*"
    using pr by (simp_all add: prunes_def)
  note links = tree_invD(1) [OF inv]
  from n show ?thesis
  proof (cases rule: rtranclE)
    case base
    then show ?thesis using tree_invD(8) [OF inv] ids by blast
  next
    case (step q)
    have "(n, q) \<notin> (child t)\<^sup>*"
      using descendant_round_le [OF links, of n q] tree_linksD(5) [OF links step(2)] by linarith
    then show ?thesis using ids step(1) tree_linksD(4) [OF links step(2)] by blast
  qed
qed

lemma removed_parents:
  assumes inv: "tree_inv U R t" and x: "x \<in> X" "x \<in> dom (tr_id_to_block t)"
    and closed: "parent_of t x \<in> - dom (tr_id_to_block t) \<union> X"
  shows "\<exists>b \<in> U. blk_id b = x \<and> (blk_parent_id b \<in> R \<union> X \<or> unat (blk_round b) \<le> round_of t (tr_commit_root_id t))"
proof -
  obtain eb where eb: "tree_get_block t x = Some eb" "eb_id eb = x" "eb_parent_id eb = parent_of t x" "unat (eb_round eb) = round_of t x"
    using get_block_Some [OF tree_invD(1) [OF inv] x(2)] .
  have "parent_of t x \<in> R \<union> X \<or> round_of t x \<le> round_of t (tr_commit_root_id t)"
    using tree_invD(9) [OF inv x(2)] closed by blast
  then show ?thesis using eb tree_invD(2) [OF inv eb(1)] by (intro bexI [of _ "eb_block eb"]) auto
qed

lemma prunes_inv:
  assumes inv: "tree_inv U R t" and pr: "prunes n ids k t t'"
  shows "tree_inv U (R \<union> set (take k ids)) t'"
proof -
  define X where "X = set (take k ids)"
  note inv' = tree_invD [OF inv] and D = prunesD [OF inv pr, folded X_def]
  have t': "tr_commit_root_id t' = n" "tr_ordered_root_id t' = tr_ordered_root_id t" "tr_pruned_block_ids t' = drop k ids"
    and w: "without X t t'" and n: "(tr_commit_root_id t, n) \<in> (child t)\<^sup>*" "(n, tr_ordered_root_id t) \<in> (child t)\<^sup>*"
    and dist: "distinct ids"
    using pr by (simp_all add: prunes_def X_def)
  note f = without_facts [OF w]
  have ids: "set ids = X \<union> set (drop k ids)" unfolding X_def by (metis append_take_drop_id set_append)
  have reach: "(n, x) \<in> (child t')\<^sup>* \<longleftrightarrow> (n, x) \<in> (child t)\<^sup>*" for x
    using without_reach [OF w, of n x] D(2) ids by blast
  have nX: "n \<notin> X" using D(2) [of n] ids by auto
  have up: "round_of t (tr_commit_root_id t) \<le> round_of t' n"
    using descendant_round_le [OF inv'(1) n(1)] f(4) [OF nX] by simp
  have "parents_first t' P (drop k ids) = parents_first t P (drop k ids)" for P
    by (rule parents_first_cong) (use f(3) D(5) in blast)
  then have pf: "parents_first t' (- dom (tr_id_to_block t')) (drop k ids)" using D(4) f(1) by simp
  show ?thesis unfolding X_def [symmetric]
  proof (rule tree_invI, unfold t')
    show "tree_links t'" by (rule without_links [OF inv'(1) w D(3)])
    show "eb_block eb \<in> U" if "tree_get_block t' h = Some eb" for h eb using inv'(2) f(5) [OF that] by blast
    show "n \<in> dom (tr_id_to_block t')" using descendant_dom [OF inv'(1) n(1) inv'(3)] nX f(1) by simp
    show "(n, tr_ordered_root_id t) \<in> (child t')\<^sup>*" using reach n(2) by simp
    show "set (drop k ids) \<subseteq> dom (tr_id_to_block t')" using D(1,5) f(1) ids by blast
    show "(n, x) \<notin> (child t')\<^sup>*" if "x \<in> set (drop k ids)" for x using that reach D(2) ids by blast
    show "parents_first t' (- dom (tr_id_to_block t')) (drop k ids)" by (rule pf)
    show "parent_of t' n \<in> - dom (tr_id_to_block t') \<union> set (drop k ids)"
      using prunes_root_parent [OF inv pr] f(1) f(3) [OF nX] ids by auto
    show "parent_of t' x \<in> dom (tr_id_to_block t') \<union> (R \<union> X) \<or> round_of t' x \<le> round_of t' n"
      if "x \<in> dom (tr_id_to_block t')" for x
      using inv'(9) [of x] that f(1) f(3,4) [of x] up by auto
    show "(R \<union> X) \<inter> dom (tr_id_to_block t') = {}" using inv'(10) f(1) by auto
    show "\<exists>b \<in> U. blk_id b = x \<and> (blk_parent_id b \<in> R \<union> X \<or> unat (blk_round b) \<le> round_of t' n)" if "x \<in> R \<union> X" for x
    proof (cases "x \<in> R")
      case True
      then show ?thesis using inv'(11) [of x] up by fastforce
    next
      case False
      then have "x \<in> X" using that by simp
      from removed_parents [OF inv this D(1) D(3)] show ?thesis using \<open>x \<in> X\<close> ids up by fastforce
    qed
    show "distinct (drop k ids)" using dist by simp
  qed
qed

section \<open>Properties of the tree loops\<close>

text \<open>C23: The path to a block ends and is right. Under the invariant of the tree the loop of
  \<open>path_from_root_to_block\<close> ends for every block id. It returns the blocks from the child of the ordered
  root down to the block, each the parent of the next, when the block descends from the root, and
  \<open>None\<close> otherwise.\<close>

theorem path_from_ordered_root_terminates:
  assumes "tree_inv U R t"
  shows "\<exists>path. path_from_ordered_root b t = Some (Ok path) \<and>
    (case path of None \<Rightarrow> (tr_ordered_root_id t, b) \<notin> (child t)\<^sup>* | Some xs \<Rightarrow> chain_of t (tr_ordered_root_id t) xs b)"
proof -
  obtain r where r: "tree_get_block t (tr_ordered_root_id t) = Some r" "unat (eb_round r) = round_of t (tr_ordered_root_id t)"
    using get_block_Some [OF tree_invD(1) [OF assms] ordered_root_dom [OF assms]] .
  from path_from_root_spec [OF tree_invD(1) [OF assms] ordered_root_dom [OF assms] r(2), of b] show ?thesis
    using r(1) by (auto simp: path_from_ordered_root_def ordered_root_def)
qed

text \<open>C22: Pruning removes exactly what is outside the new subtree. For a new root that descends from
  the commit root the search of \<open>find_blocks_to_prune\<close> ends, whatever the order in which children are
  visited, without a panic, and returns, each once and parents before children, the descendants of
  the commit root that are not descendants of the new root.\<close>

theorem find_blocks_to_prune_exact:
  assumes "tree_inv U R t" "iterates iter" "(tr_commit_root_id t, n) \<in> (child t)\<^sup>*"
  shows "\<exists>l. find_blocks_to_prune iter n t = Some (Ok l) \<and> distinct l \<and>
    parents_first t (- dom (tr_id_to_block t) \<union> set (tr_pruned_block_ids t)) l \<and>
    set l = {x. (tr_commit_root_id t, x) \<in> (child t)\<^sup>* \<and> (n, x) \<notin> (child t)\<^sup>*}"
  using find_blocks_to_prune_Ok [OF tree_invD(1) [OF assms(1)] assms(2) tree_invD(3) [OF assms(1)] assms(3),
      of "- dom (tr_id_to_block t) \<union> set (tr_pruned_block_ids t)"] tree_invD(8) [OF assms(1)] by blast

end
