(* ===== verification/Block_Store_Runs.thy ===== *)
theory Block_Store_Runs
  imports Block_Store Block_Tree_Inv
begin

text \<open>
  Runs of the block store. From the invariant of the tree and of the queued notifications: every
  operation of the store returns, keeps the invariant, and moves the ordered root only along a chain
  of blocks; the notifications then move the commit root after it without a panic.
\<close>

section \<open>The invariant of the store\<close>

text \<open>The queued notifications lead from the commit root to the ordered root.\<close>

abbreviation committed_id :: "commit_notification \<Rightarrow> hash_value" where
  "committed_id cn \<equiv> eb_id (last (cn_blocks cn))"

abbreviation proof_info :: "ledger_info_with_signatures \<Rightarrow> block_info" where
  "proof_info ls \<equiv> li_commit_info (ls_ledger_info ls)"

definition notifies :: "block_tree \<Rightarrow> hash_value \<Rightarrow> commit_notification \<Rightarrow> bool" where
  "notifies t r cn \<longleftrightarrow> cn_blocks cn \<noteq> [] \<and> bi_id (proof_info (cn_finality_proof cn)) = committed_id cn \<and>
     (r, committed_id cn) \<in> (child t)\<^sup>+ \<and> unat (bi_round (proof_info (cn_finality_proof cn))) = round_of t (committed_id cn)"

fun pending_ok :: "block_tree \<Rightarrow> hash_value \<Rightarrow> commit_notification list \<Rightarrow> hash_value \<Rightarrow> bool" where
  "pending_ok t r [] target \<longleftrightarrow> r = target"
| "pending_ok t r (cn # cns) target \<longleftrightarrow> notifies t r cn \<and> pending_ok t (committed_id cn) cns target"

definition bs_inv :: "block set \<Rightarrow> 'x block_store \<Rightarrow> bool" where
  "bs_inv U s \<longleftrightarrow> (\<exists>R. tree_inv U R (bs_inner s)) \<and>
     pending_ok (bs_inner s) (tr_commit_root_id (bs_inner s)) (bs_notifications s) (tr_ordered_root_id (bs_inner s)) \<and>
     unat (bi_round (proof_info (tr_highest_ledger_info (bs_inner s)))) =
       round_of (bs_inner s) (tr_commit_root_id (bs_inner s))"

lemma pending_reach: "pending_ok t r cns target \<Longrightarrow> (r, target) \<in> (child t)\<^sup>*"
proof (induction cns arbitrary: r)
  case (Cons cn cns)
  then have "(r, committed_id cn) \<in> (child t)\<^sup>+" "(committed_id cn, target) \<in> (child t)\<^sup>*"
    by (auto simp: notifies_def)
  then show ?case by (meson rtrancl_trans trancl_into_rtrancl)
qed simp

lemma pending_append:
  "pending_ok t r cns m \<Longrightarrow> notifies t m cn \<Longrightarrow> pending_ok t r (cns @ [cn]) (committed_id cn)"
  by (induction cns arbitrary: r) simp_all

lemma pending_mono:
  assumes "tree_links t" "child t \<subseteq> child t'" "\<And>h. h \<in> dom (tr_id_to_block t) \<Longrightarrow> round_of t' h = round_of t h"
  shows "pending_ok t r cns target \<Longrightarrow> r \<in> dom (tr_id_to_block t) \<Longrightarrow> pending_ok t' r cns target"
proof (induction cns arbitrary: r)
  case (Cons cn cns)
  have n: "notifies t r cn" "pending_ok t (committed_id cn) cns target" using Cons.prems(1) by simp_all
  then have reach: "(r, committed_id cn) \<in> (child t)\<^sup>+" by (simp add: notifies_def)
  have D: "committed_id cn \<in> dom (tr_id_to_block t)"
    using descendant_dom [OF assms(1) trancl_into_rtrancl [OF reach] Cons.prems(2)] .
  have "notifies t' r cn"
    using n(1) assms(3) [OF D] trancl_mono [OF reach assms(2)] unfolding notifies_def by simp
  then show ?case using Cons.IH [OF n(2) D] by simp
qed simp

lemma pending_without:
  assumes "without X t t'"
  shows "pending_ok t r cns target \<Longrightarrow> (\<And>x. (r, x) \<in> (child t)\<^sup>* \<Longrightarrow> x \<notin> X) \<Longrightarrow> pending_ok t' r cns target"
proof (induction cns arbitrary: r)
  case (Cons cn cns)
  have n: "notifies t r cn" "pending_ok t (committed_id cn) cns target" using Cons.prems(1) by simp_all
  then have reach: "(r, committed_id cn) \<in> (child t)\<^sup>+" by (simp add: notifies_def)
  then obtain q where q: "(r, q) \<in> (child t)\<^sup>*" "(q, committed_id cn) \<in> child t" by (meson tranclD2)
  have "(r, q) \<in> (child t')\<^sup>*" using without_reach [OF assms Cons.prems(2)] q(1) by blast
  moreover have "(q, committed_id cn) \<in> child t'" using without_facts(2) [OF assms] q Cons.prems(2) [OF q(1)] by simp
  ultimately have "(r, committed_id cn) \<in> (child t')\<^sup>+" by (rule rtrancl_into_trancl1)
  moreover have "committed_id cn \<notin> X" using Cons.prems(2) trancl_into_rtrancl [OF reach] by blast
  ultimately have "notifies t' r cn" using n(1) without_facts(4) [OF assms] unfolding notifies_def by metis
  moreover have "pending_ok t' (committed_id cn) cns target"
    using Cons.IH [OF n(2)] Cons.prems(2) rtrancl_trans [OF trancl_into_rtrancl [OF reach]] by blast
  ultimately show ?case by simp
qed simp

section \<open>The commit callback\<close>

lemma process_pruned_blocks_fields:
  fixes l t
  defines "ids \<equiv> tr_pruned_block_ids t @ l"
  defines "k \<equiv> length ids - tr_max_pruned_blocks_in_mem t"
  shows "tr_id_to_block (process_pruned_blocks l t) = (tr_id_to_block t) |` (- set (take k ids))"
    "tr_ordered_root_id (process_pruned_blocks l t) = tr_ordered_root_id t"
    "tr_pruned_block_ids (process_pruned_blocks l t) = drop k ids"
    "tr_highest_ledger_info (process_pruned_blocks l t) = tr_highest_ledger_info t"
  unfolding process_pruned_blocks_def Let_def ids_def [symmetric] k_def [symmetric] fold_remove_block
  by simp_all

lemma commit_callback_step:
  assumes inv: "tree_inv U R t" and it: "iterates iter" and blocks: "blocks \<noteq> []"
    and n: "(tr_commit_root_id t, eb_id (last blocks)) \<in> (child t)\<^sup>+" "(eb_id (last blocks), tr_ordered_root_id t) \<in> (child t)\<^sup>*"
    and li: "bi_id (proof_info ls) = eb_id (last blocks)"
      "bi_round (proof_info (tr_highest_ledger_info t)) < bi_round (proof_info ls)"
  obtains ids k t' where "commit_callback iter blocks ls t = Some (Ok (), t')" "prunes (eb_id (last blocks)) ids k t t'"
    "tr_highest_ledger_info t' = ls"
proof -
  note inv' = tree_invD [OF inv]
  let ?n = "eb_id (last blocks)" and ?D = "dom (tr_id_to_block t)"
  obtain l where l: "find_blocks_to_prune iter ?n t = Some (Ok l)" "distinct l"
    "parents_first t (- ?D \<union> set (tr_pruned_block_ids t)) l"
    "set l = {x. (tr_commit_root_id t, x) \<in> (child t)\<^sup>* \<and> (?n, x) \<notin> (child t)\<^sup>*}"
    using find_blocks_to_prune_Ok [OF inv'(1) it inv'(3) trancl_into_rtrancl [OF n(1)],
        of "- ?D \<union> set (tr_pruned_block_ids t)"] inv'(8) by auto
  define ids where "ids = tr_pruned_block_ids t @ l"
  define k where "k = length ids - tr_max_pruned_blocks_in_mem t"
  define t1 where "t1 = process_pruned_blocks l t"
  note f = process_pruned_blocks_fields [of l t, folded ids_def t1_def, folded k_def]
  have ids1: "distinct ids" unfolding ids_def distinct_append using l(2,4) inv'(7,12) by blast
  have ids2: "parents_first t (- ?D) ids" unfolding ids_def parents_first_append using l(3) inv'(5) by blast
  have ids3: "set ids = set (tr_pruned_block_ids t) \<union> {x. (tr_commit_root_id t, x) \<in> (child t)\<^sup>* \<and> (?n, x) \<notin> (child t)\<^sup>*}"
    unfolding ids_def set_append l(4) ..
  have "?n \<notin> set (take k ids)"
    using ids3 inv'(7) [of ?n] trancl_into_rtrancl [OF n(1)] in_set_takeD [of ?n k ids] by blast
  moreover have "?n \<in> ?D" using descendant_dom [OF inv'(1) trancl_into_rtrancl [OF n(1)] inv'(3)] .
  ultimately have ex: "tr_id_to_block t1 ?n \<noteq> None" using f(1) by (simp add: restrict_map_def domIff)
  obtain r where "commit_root t = Ok r" using inv'(3) by (auto simp: commit_root_def tree_get_block_def)
  then have "commit_callback iter blocks ls t = Some (update_highest_ledger_info ls t1)"
    using blocks l(1) by (simp add: commit_callback_def t1_def)
  moreover have "update_highest_ledger_info ls t1 = (Ok (), t1\<lparr>tr_highest_ledger_info := ls, tr_commit_root_id := ?n\<rparr>)"
    using li ex f(4) by (simp add: update_highest_ledger_info_def update_commit_root_def block_exists_def)
  moreover have "prunes ?n ids k t (t1\<lparr>tr_highest_ledger_info := ls, tr_commit_root_id := ?n\<rparr>)"
    unfolding prunes_def without_def using n(2) ids1 ids2 ids3 f(1-3) trancl_into_rtrancl [OF n(1)] by simp
  ultimately show thesis using that by simp
qed

lemma process_notification_step:
  assumes inv: "bs_inv U s" and it: "iterates (bse_iter env)"
  shows "\<exists>s'. process_notification env s = Some (Ok (), s') \<and> bs_inv U s' \<and>
    tr_ordered_root_id (bs_inner s') = tr_ordered_root_id (bs_inner s) \<and>
    (\<forall>cn cns. bs_notifications s = cn # cns \<longrightarrow>
       tr_commit_root_id (bs_inner s') = committed_id cn \<and> bs_notifications s' = cns)"
proof (cases "bs_notifications s")
  case Nil
  then show ?thesis using inv by (simp add: process_notification_def)
next
  case (Cons cn cns)
  let ?t = "bs_inner s"
  obtain R where R: "tree_inv U R ?t" using inv by (auto simp: bs_inv_def)
  have p: "notifies ?t (tr_commit_root_id ?t) cn" "pending_ok ?t (committed_id cn) cns (tr_ordered_root_id ?t)"
    and hl: "unat (bi_round (proof_info (tr_highest_ledger_info ?t))) = round_of ?t (tr_commit_root_id ?t)"
    using inv Cons by (simp_all add: bs_inv_def)
  have n: "cn_blocks cn \<noteq> []" "bi_id (proof_info (cn_finality_proof cn)) = committed_id cn"
    "(tr_commit_root_id ?t, committed_id cn) \<in> (child ?t)\<^sup>+"
    "unat (bi_round (proof_info (cn_finality_proof cn))) = round_of ?t (committed_id cn)"
    using p(1) by (simp_all add: notifies_def)
  have "bi_round (proof_info (tr_highest_ledger_info ?t)) < bi_round (proof_info (cn_finality_proof cn))"
    using descendant_round [OF tree_invD(1) [OF R] n(3)] n(4) hl by (simp add: word_less_nat_alt)
  from commit_callback_step [OF R it n(1,3) pending_reach [OF p(2)] n(2) this] obtain ids k t' where
    t': "commit_callback (bse_iter env) (cn_blocks cn) (cn_finality_proof cn) ?t = Some (Ok (), t')"
      "prunes (committed_id cn) ids k ?t t'" "tr_highest_ledger_info t' = cn_finality_proof cn" .
  have f: "without (set (take k ids)) ?t t'" "tr_commit_root_id t' = committed_id cn"
    "tr_ordered_root_id t' = tr_ordered_root_id ?t" using t'(2) by (simp_all add: prunes_def)
  have keep: "x \<notin> set (take k ids)" if "(committed_id cn, x) \<in> (child ?t)\<^sup>*" for x
    using prunesD(2) [OF R t'(2) that] by (meson in_set_takeD)
  have "round_of t' (committed_id cn) = round_of ?t (committed_id cn)"
    using without_facts(4) [OF f(1)] keep by blast
  then have "bs_inv U (s\<lparr>bs_inner := t', bs_notifications := cns\<rparr>)"
    using prunes_inv [OF R t'(2)] pending_without [OF f(1) p(2) keep] f(2,3) t'(3) n(4)
    by (auto simp: bs_inv_def)
  then show ?thesis using Cons t'(1) f(2,3) by (simp add: process_notification_def)
qed

section \<open>Operations that keep the invariant\<close>

text \<open>The part of the tree that the invariant speaks about.\<close>

definition same_core :: "block_tree \<Rightarrow> block_tree \<Rightarrow> bool" where
  "same_core t t' \<longleftrightarrow> tr_id_to_block t' = tr_id_to_block t \<and> tr_commit_root_id t' = tr_commit_root_id t \<and>
     tr_ordered_root_id t' = tr_ordered_root_id t \<and> tr_pruned_block_ids t' = tr_pruned_block_ids t \<and>
     tr_highest_ledger_info t' = tr_highest_ledger_info t"

lemma same_core_refl [simp]: "same_core t t"
  by (simp add: same_core_def)

lemma same_core_derived:
  assumes "same_core t t'"
  shows "child t' = child t" "round_of t' = round_of t" "parent_of t' = parent_of t" "tree_get_block t' = tree_get_block t"
  using assms by (auto simp: same_core_def child_def round_of_def parent_of_def tree_get_block_def fun_eq_iff)

lemma same_core_pending:
  assumes "same_core t t'"
  shows "pending_ok t' r cns target \<longleftrightarrow> pending_ok t r cns target"
  by (induction cns arbitrary: r) (simp_all add: notifies_def same_core_derived [OF assms])

lemma same_core_inv:
  assumes "same_core t t'" "tree_inv U R t"
  shows "tree_inv U R t'"
proof -
  have "parents_first t' P xs = parents_first t P xs" for P xs
    by (rule parents_first_cong) (simp add: same_core_derived [OF assms(1)])
  moreover have "tree_links t' = tree_links t"
    using assms(1) by (simp add: tree_links_def same_core_derived [OF assms(1)] same_core_def)
  ultimately show ?thesis
    using assms by (simp add: tree_inv_def same_core_derived [OF assms(1)] same_core_def)
qed

definition same_store :: "'x block_store \<Rightarrow> 'x block_store \<Rightarrow> bool" where
  "same_store s s' \<longleftrightarrow> same_core (bs_inner s) (bs_inner s') \<and> bs_notifications s' = bs_notifications s"

lemma same_store_inv: "same_store s s' \<Longrightarrow> bs_inv U s \<Longrightarrow> bs_inv U s'"
  using same_core_inv [of "bs_inner s" "bs_inner s'" U] same_core_pending [of "bs_inner s" "bs_inner s'"]
    same_core_derived(2) [of "bs_inner s" "bs_inner s'"]
  by (auto simp: same_store_def bs_inv_def same_core_def)

lemma ordered_root_Ok:
  assumes "tree_inv U R t"
  obtains r where "ordered_root t = Ok r" "unat (eb_round r) = round_of t (tr_ordered_root_id t)"
proof -
  obtain r where "tree_get_block t (tr_ordered_root_id t) = Some r" "unat (eb_round r) = round_of t (tr_ordered_root_id t)"
    using get_block_Some [OF tree_invD(1) [OF assms] ordered_root_dom [OF assms]] .
  then show thesis using that by (simp add: ordered_root_def)
qed

lemma path_from_ordered_root_Ok:
  assumes "tree_inv U R t"
  obtains path where "path_from_ordered_root b t = Some (Ok path)"
    "case path of None \<Rightarrow> (tr_ordered_root_id t, b) \<notin> (child t)\<^sup>* | Some xs \<Rightarrow> chain_of t (tr_ordered_root_id t) xs b"
proof -
  obtain r where r: "ordered_root t = Ok r" "unat (eb_round r) = round_of t (tr_ordered_root_id t)"
    using ordered_root_Ok [OF assms] .
  from path_from_root_spec [OF tree_invD(1) [OF assms] ordered_root_dom [OF assms] r(2), of b] show thesis
    using that r(1) by (auto simp: path_from_ordered_root_def)
qed

lemma execute_block_keeps:
  assumes "execute_block env b s = (r, s')"
  shows "same_store s s'" "bs_inner s' = bs_inner s" "r = Ok eb \<Longrightarrow> eb_block eb = b"
  using assms by (auto simp: execute_block_def same_store_def bind_res_Ok_iff split: prod.splits)

lemma same_store_trans: "same_store s s' \<Longrightarrow> same_store s' s'' \<Longrightarrow> same_store s s''"
  by (simp add: same_store_def same_core_def)

lemma same_store_refl [simp]: "same_store s s"
  by (simp add: same_store_def)

lemma reexecute_blocks_keeps: "reexecute_blocks env bs s = (r, s') \<Longrightarrow> same_store s s'"
proof (induction bs arbitrary: s)
  case (Cons b bs)
  obtain r1 s1 where 1: "execute_block env (eb_block b) s = (r1, s1)" by fastforce
  note k = execute_block_keeps(1) [OF 1]
  show ?case
  proof (cases r1)
    case (Ok eb)
    then have "reexecute_blocks env bs s1 = (r, s')" using Cons.prems 1 by (simp add: bindS_def)
    from Cons.IH [OF this] show ?thesis by (rule same_store_trans [OF k])
  qed (use Cons.prems 1 k in \<open>auto simp: bindS_def\<close>)
qed simp

lemma reexecute_then_execute:
  assumes "bindS (reexecute_blocks env bs) (\<lambda>_. execute_block env b) s = (r, s')"
  shows "same_store s s'" "r = Ok eb \<Longrightarrow> eb_block eb = b"
proof -
  obtain r1 s1 where 1: "reexecute_blocks env bs s = (r1, s1)" by fastforce
  note k = reexecute_blocks_keeps [OF 1]
  have "same_store s s' \<and> (r = Ok eb \<longrightarrow> eb_block eb = b)"
  proof (cases r1)
    case (Ok u)
    then have e: "execute_block env b s1 = (r, s')" using assms 1 by (simp add: bindS_def)
    show ?thesis using same_store_trans [OF k execute_block_keeps(1) [OF e]] execute_block_keeps(3) [OF e] by blast
  qed (use assms 1 k in \<open>auto simp: bindS_def\<close>)
  then show "same_store s s'" "r = Ok eb \<Longrightarrow> eb_block eb = b" by simp_all
qed

lemma execute_or_recover_step:
  assumes "bs_inv U s"
  obtains r s' where "execute_or_recover env b s = Some (r, s')" "same_store s s'" "\<And>eb. r = Ok eb \<Longrightarrow> eb_block eb = b"
proof -
  obtain r1 s1 where 1: "execute_block env b s = (r1, s1)" by fastforce
  note k = execute_block_keeps [OF 1]
  show thesis
  proof (cases "\<exists>h. r1 = Err (BlockNotFound h)")
    case False
    then have "execute_or_recover env b s = Some (map_err execution_to_anyhow r1, s1)"
      using 1 by (cases r1; simp add: execute_or_recover_def split: execution_error.split)
    then show thesis using that [OF _ k(1)] k(3) by simp
  next
    case True
    then obtain h where h: "r1 = Err (BlockNotFound h)" by blast
    obtain R where "tree_inv U R (bs_inner s1)" using assms k(2) by (auto simp: bs_inv_def)
    from path_from_ordered_root_Ok [OF this, of h] obtain path where
      path: "path_from_ordered_root h (bs_inner s1) = Some (Ok path)" by blast
    obtain r2 s2 where 2: "bindS (reexecute_blocks env (case path of None \<Rightarrow> [] | Some bs \<Rightarrow> bs))
        (\<lambda>_. execute_block env b) s1 = (r2, s2)" by fastforce
    have "execute_or_recover env b s = Some (map_err execution_to_anyhow r2, s2)"
      using 1 h path 2 by (simp add: execute_or_recover_def)
    then show thesis
      using that [OF _ same_store_trans [OF k(1) reexecute_then_execute(1) [OF 2]]] reexecute_then_execute(2) [OF 2] by simp
  qed
qed

text \<open>A successful step: it returns (the loops of the tree end), keeps the invariant and moves the
  ordered root along a chain of blocks, which it hands out.\<close>

fun linked :: "hash_value \<Rightarrow> executed_block list \<Rightarrow> hash_value \<Rightarrow> bool" where
  "linked r [] target \<longleftrightarrow> r = target"
| "linked r (b # bs) target \<longleftrightarrow> eb_parent_id b = r \<and> linked (eb_id b) bs target"

lemma linked_append: "linked r (xs @ ys) target \<longleftrightarrow> (\<exists>m. linked r xs m \<and> linked m ys target)"
  by (induction xs arbitrary: r) auto

lemma chain_linked: "tree_links t \<Longrightarrow> chain_of t r xs b \<Longrightarrow> linked r xs b"
proof (induction xs arbitrary: r)
  case (Cons x xs)
  then have x: "tree_get_block t (eb_id x) = Some x" "(r, eb_id x) \<in> child t" "chain_of t (eb_id x) xs b" by simp_all
  have "eb_parent_id x = parent_of t (eb_id x)" using x(1) by (auto simp: parent_of_def tree_get_block_def)
  then show ?case using tree_linksD(4) [OF Cons.prems(1) x(2)] Cons.IH [OF Cons.prems(1) x(3)] by simp
qed simp

definition step_to :: "block set \<Rightarrow> 'x block_store \<Rightarrow> ((anyhow_error, executed_block list) result \<times> 'x block_store) option \<Rightarrow> bool" where
  "step_to U s res \<longleftrightarrow> (\<exists>out s'. res = Some (out, s') \<and> bs_inv U s' \<and>
     (case out of
        Ok blocks \<Rightarrow> linked (tr_ordered_root_id (bs_inner s)) blocks (tr_ordered_root_id (bs_inner s'))
      | _ \<Rightarrow> tr_ordered_root_id (bs_inner s') = tr_ordered_root_id (bs_inner s)))"

lemma same_store_root: "same_store s s' \<Longrightarrow> tr_ordered_root_id (bs_inner s') = tr_ordered_root_id (bs_inner s)"
  by (simp add: same_store_def same_core_def)

lemma on_tree_insert:
  assumes inv: "bs_inv U s" and U: "universe U" "eb_block eb \<in> U"
    and new: "round_of (bs_inner s) (tr_ordered_root_id (bs_inner s)) < unat (eb_round eb)"
  shows "\<exists>out s'. on_tree (tree_insert_block eb) s = Some (out, s') \<and> bs_inv U s' \<and>
    tr_ordered_root_id (bs_inner s') = tr_ordered_root_id (bs_inner s)"
proof -
  let ?t = "bs_inner s"
  obtain R where R: "tree_inv U R ?t" using inv by (auto simp: bs_inv_def)
  note links = tree_invD(1) [OF R]
  obtain out t' where ins: "tree_insert_block eb ?t = (out, t')" by fastforce
  have "bs_inv U (s\<lparr>bs_inner := t'\<rparr>) \<and> tr_ordered_root_id t' = tr_ordered_root_id ?t"
  proof (cases rule: tree_insert_block_cases [OF links ins])
    case 1
    then show ?thesis using inv by simp
  next
    case 2
    then have can: "can_insert eb ?t" by (simp add: can_insert_def)
    have "pending_ok (with_block eb ?t) (tr_commit_root_id ?t) (bs_notifications s) (tr_ordered_root_id ?t)"
      using pending_mono [OF links, of "with_block eb ?t"] with_block_child [OF can] with_block_old(2) [OF can]
        inv tree_invD(3) [OF R] by (auto simp: bs_inv_def)
    then show ?thesis
      using with_block_inv [OF R U can new] with_block_old(2) [OF can tree_invD(3) [OF R]] inv 2(2)
      by (auto simp: bs_inv_def)
  qed
  then show ?thesis using ins by (simp add: on_tree_def)
qed

lemma bindO_liftO:
  "bindO (liftO (Ok a)) f s = f a s"
  "bindO (liftO (Err e)) f s = Some (Err e, s)"
  "bindO (liftO Panic) f s = Some (Panic, s)"
  by (simp_all add: bindO_def liftO_def)

lemma execute_and_insert_block_cases:
  assumes "ordered_root (bs_inner s) = Ok r" "execute_or_recover env b s = Some (res, s1)"
    and "\<And>eb. res = Ok eb \<Longrightarrow> eb_block eb = b"
  shows "(\<exists>out s'. execute_and_insert_block env b s = Some (out, s') \<and> (s' = s \<or> s' = s1)) \<or>
    (\<exists>eb. res = Ok eb \<and> eb_round r < blk_round b \<and> execute_and_insert_block env b s = on_tree (tree_insert_block eb) s1)"
proof (cases "tree_get_block (bs_inner s) (blk_id b) = None \<and> eb_round r < blk_round b")
  case False
  have "\<exists>out. execute_and_insert_block env b s = Some (out, s)"
  proof (cases "tree_get_block (bs_inner s) (blk_id b)")
    case None
    then have "\<not> eb_round r < blk_round b" using False by simp
    then show ?thesis using assms(1) None by (simp add: execute_and_insert_block_def bindO_liftO)
  qed (simp add: execute_and_insert_block_def)
  then show ?thesis by blast
next
  case True
  then have ex: "execute_and_insert_block env b s =
      bindO (execute_or_recover env b) (\<lambda>eb.
        bindO (liftO (map_err (Context ''Insert block failed when saving block'') (bse_save_tree env [eb_block eb] []))) (\<lambda>_.
        on_tree (tree_insert_block eb))) s"
    using assms(1) by (simp add: execute_and_insert_block_def bindO_liftO)
  show ?thesis
  proof (cases res)
    case (Ok eb)
    then have "execute_and_insert_block env b s =
        bindO (liftO (map_err (Context ''Insert block failed when saving block'') (bse_save_tree env [b] []))) (\<lambda>_.
        on_tree (tree_insert_block eb)) s1"
      unfolding ex using assms(2,3) by (simp add: bindO_def)
    then show ?thesis
      using Ok True by (cases "bse_save_tree env [b] []") (simp_all add: bindO_liftO)
  next
    case (Err e)
    then have "execute_and_insert_block env b s = Some (Err e, s1)" unfolding ex using assms(2) by (simp add: bindO_def)
    then show ?thesis by blast
  next
    case Panic
    then have "execute_and_insert_block env b s = Some (Panic, s1)" unfolding ex using assms(2) by (simp add: bindO_def)
    then show ?thesis by blast
  qed
qed

lemma execute_and_insert_block_step:
  assumes inv: "bs_inv U s" and U: "universe U" "b \<in> U"
  shows "\<exists>out s'. execute_and_insert_block env b s = Some (out, s') \<and> bs_inv U s' \<and>
    tr_ordered_root_id (bs_inner s') = tr_ordered_root_id (bs_inner s)"
proof -
  obtain R where R: "tree_inv U R (bs_inner s)" using inv by (auto simp: bs_inv_def)
  obtain r where r: "ordered_root (bs_inner s) = Ok r" "unat (eb_round r) = round_of (bs_inner s) (tr_ordered_root_id (bs_inner s))"
    using ordered_root_Ok [OF R] .
  obtain res s1 where ex: "execute_or_recover env b s = Some (res, s1)" "same_store s s1" "\<And>eb. res = Ok eb \<Longrightarrow> eb_block eb = b"
    using execute_or_recover_step [OF inv] by blast
  have inv1: "bs_inv U s1" "tr_ordered_root_id (bs_inner s1) = tr_ordered_root_id (bs_inner s)"
    "round_of (bs_inner s1) = round_of (bs_inner s)"
    using same_store_inv [OF ex(2) inv] same_store_root [OF ex(2)] ex(2)
      same_core_derived(2) [of "bs_inner s" "bs_inner s1"] by (simp_all add: same_store_def)
  from execute_and_insert_block_cases [OF r(1) ex(1,3)] show ?thesis
  proof
    assume "\<exists>out s'. execute_and_insert_block env b s = Some (out, s') \<and> (s' = s \<or> s' = s1)"
    then show ?thesis using inv inv1(1,2) by blast
  next
    assume "\<exists>eb. res = Ok eb \<and> eb_round r < blk_round b \<and> execute_and_insert_block env b s = on_tree (tree_insert_block eb) s1"
    then obtain eb where eb: "eb_block eb = b" "eb_round r < blk_round b"
      "execute_and_insert_block env b s = on_tree (tree_insert_block eb) s1" using ex(3) by blast
    have "round_of (bs_inner s1) (tr_ordered_root_id (bs_inner s1)) < unat (eb_round eb)"
      using eb(1,2) r(2) inv1(2,3) by (simp add: word_less_nat_alt)
    from on_tree_insert [OF inv1(1) U(1) _ this] show ?thesis using U(2) eb inv1(2) by simp
  qed
qed

lemma tree_insert_quorum_cert_core: "same_core t (snd (tree_insert_quorum_cert qc t))"
  by (auto simp: tree_insert_quorum_cert_def bindS_def get_state_def lift_res_def Let_def same_core_def
      split: result.split option.split)

lemma on_tree_core:
  assumes "\<And>t. same_core t (snd (m t))"
  shows "\<exists>out s'. on_tree m s = Some (out, s') \<and> same_store s s'"
  using assms [of "bs_inner s"] by (cases "m (bs_inner s)") (simp add: on_tree_def same_store_def)

lemma bindO_liftO_cases:
  assumes "\<And>a. r = Ok a \<Longrightarrow> \<exists>out s'. f a s = Some (out, s') \<and> same_store s s'"
  shows "\<exists>out s'. bindO (liftO r) f s = Some (out, s') \<and> same_store s s'"
  using assms by (cases r) (simp_all add: bindO_liftO)

lemma insert_single_quorum_cert_same: "\<exists>out s'. insert_single_quorum_cert env qc s = Some (out, s') \<and> same_store s s'"
  unfolding insert_single_quorum_cert_def
  by (intro bindO_liftO_cases on_tree_core tree_insert_quorum_cert_core)

lemma insert_timeout_certificate_same: "\<exists>out s'. insert_timeout_certificate env tc s = Some (out, s') \<and> same_store s s'"
proof (cases "to_round (tc_timeout tc) \<le> cur_2chain_tc_round (bs_inner s)")
  case False
  then show ?thesis
    unfolding insert_timeout_certificate_def
    by (simp, intro bindO_liftO_cases on_tree_core) (simp add: same_core_def)
qed (simp add: insert_timeout_certificate_def)

lemma insert_2chain_timeout_certificate_same:
  "\<exists>out s'. insert_2chain_timeout_certificate env tc s = Some (out, s') \<and> same_store s s'"
proof (cases "tc2_round tc \<le> cur_2chain_tc_round (bs_inner s)")
  case False
  then show ?thesis
    unfolding insert_2chain_timeout_certificate_def
    by (simp, intro bindO_liftO_cases on_tree_core) (simp add: same_core_def)
qed (simp add: insert_2chain_timeout_certificate_def)

section \<open>Commit\<close>

definition proof_ok :: "block set \<Rightarrow> ledger_info_with_signatures \<Rightarrow> bool" where
  "proof_ok U ls \<longleftrightarrow> (\<forall>b \<in> U. blk_id b = bi_id (proof_info ls) \<longrightarrow> blk_round b = bi_round (proof_info ls))"

lemma state_computer_commit_cases:
  obtains (failed) out s' where "state_computer_commit env blocks ls s = Some (out, s')" "same_store s s'" "out \<noteq> Ok ()"
  | (sent) s' cn where "state_computer_commit env blocks ls s = Some (Ok (), s')" "bs_inner s' = bs_inner s"
      "bs_notifications s' = bs_notifications s @ [cn]" "cn_blocks cn = blocks" "cn_finality_proof cn = ls"
proof (cases "collect_transactions blocks")
  case (Ok txns)
  obtain r x where c: "bse_commit_blocks env (map eb_id blocks) ls (bs_executor s) = (r, x)" by fastforce
  show thesis
  proof (cases r)
    case r: (Ok u)
    show thesis
      by (rule sent [of "s\<lparr>bs_executor := x, bs_notifications := bs_notifications s @
          [\<lparr>cn_blocks = blocks, cn_finality_proof = ls, cn_txns = txns, cn_reconfig_events = concat (map reconfig_event blocks)\<rparr>]\<rparr>"
          "\<lparr>cn_blocks = blocks, cn_finality_proof = ls, cn_txns = txns, cn_reconfig_events = concat (map reconfig_event blocks)\<rparr>"])
        (use Ok c r in \<open>simp_all add: state_computer_commit_def bindO_liftO\<close>)
  qed (rule failed [of Panic "s\<lparr>bs_executor := x\<rparr>"];
      use Ok c in \<open>simp add: state_computer_commit_def bindO_liftO same_store_def\<close>)+
next
  case (Err e)
  then show thesis by (intro failed [of "Err e" s]) (simp_all add: state_computer_commit_def bindO_liftO)
next
  case Panic
  then show thesis by (intro failed [of Panic s]) (simp_all add: state_computer_commit_def bindO_liftO)
qed

lemma committed_inv:
  assumes inv: "bs_inv U s" and pf: "proof_ok U ls"
    and chain: "chain_of (bs_inner s) (tr_ordered_root_id (bs_inner s)) xs (bi_id (proof_info ls))" "xs \<noteq> []"
    and s1: "bs_inner s1 = bs_inner s" "bs_notifications s1 = bs_notifications s @ [cn]"
      "cn_blocks cn = xs" "cn_finality_proof cn = ls"
    and s': "s' = s1\<lparr>bs_inner := (bs_inner s)\<lparr>tr_ordered_root_id := bi_id (proof_info ls)\<rparr>\<rparr>"
  shows "bs_inv U s'"
proof -
  let ?t = "bs_inner s" and ?n = "bi_id (proof_info ls)"
  let ?t' = "?t\<lparr>tr_ordered_root_id := ?n\<rparr>"
  obtain R where R: "tree_inv U R ?t" using inv by (auto simp: bs_inv_def)
  note inv' = tree_invD [OF R]
  obtain x ys where xs: "xs = x # ys" using chain(2) by (cases xs) auto
  then have up: "(tr_ordered_root_id ?t, ?n) \<in> (child ?t)\<^sup>+"
    using chain(1) chain_of_descendant [of ?t "eb_id x" ys ?n] by (auto intro: rtrancl_into_trancl2)
  have D: "?n \<in> dom (tr_id_to_block ?t)"
    using descendant_dom [OF inv'(1) trancl_into_rtrancl [OF up] ordered_root_dom [OF R]] .
  obtain b where b: "tree_get_block ?t ?n = Some b" "eb_id b = ?n" "unat (eb_round b) = round_of ?t ?n"
    using get_block_Some [OF inv'(1) D] by metis
  have "unat (bi_round (proof_info ls)) = round_of ?t ?n"
    using pf inv'(2) [OF b(1)] b(2,3) by (auto simp: proof_ok_def)
  then have noted: "notifies ?t (tr_ordered_root_id ?t) cn"
    using up chain_of_last [OF chain] chain(2) s1(3,4) by (simp add: notifies_def)
  have "pending_ok ?t (tr_commit_root_id ?t) (bs_notifications s) (tr_ordered_root_id ?t)"
    using inv by (simp add: bs_inv_def)
  from pending_append [OF this noted] have pend: "pending_ok ?t (tr_commit_root_id ?t) (bs_notifications s @ [cn]) ?n"
    using chain_of_last [OF chain] s1(3) by simp
  have same: "child ?t' = child ?t" "round_of ?t' = round_of ?t" "parent_of ?t' = parent_of ?t"
    "tree_get_block ?t' = tree_get_block ?t"
    by (auto simp: child_def round_of_def parent_of_def tree_get_block_def fun_eq_iff)
  have pf': "parents_first ?t' P ys = parents_first ?t P ys" for P ys
    by (rule parents_first_cong) (simp add: same(3))
  have links: "tree_links ?t'" using inv'(1) by (simp add: tree_links_def same)
  have "tree_inv U R ?t'"
    using R links rtrancl_trans [OF inv'(4) trancl_into_rtrancl [OF up]] by (simp add: tree_inv_def same pf')
  moreover have "pending_ok ?t' r cns m = pending_ok ?t r cns m" for r cns m
    by (induction cns arbitrary: r) (simp_all add: notifies_def same)
  ultimately show ?thesis using inv s' s1(2) pend same(2) by (auto simp: bs_inv_def)
qed

lemma step_to_same:
  assumes "bs_inv U s" "res = Some (out, s')" "same_store s s'" "\<And>blocks. out = Ok blocks \<Longrightarrow> blocks = []"
  shows "step_to U s res"
  using assms same_store_inv [OF assms(3,1)] same_store_root [OF assms(3)]
  by (cases out) (auto simp: step_to_def)

lemma commit_path:
  assumes R: "tree_inv U R (bs_inner s)"
    and b: "tree_get_block (bs_inner s) (bi_id (proof_info ls)) = Some b" "eb_id b = bi_id (proof_info ls)"
    and r: "ordered_root (bs_inner s) = Ok r" "eb_round r < eb_round b"
    and path: "path_from_ordered_root (bi_id (proof_info ls)) (bs_inner s) = Some (Ok path)"
  shows "commit env ls s =
    (case path of
       None \<Rightarrow> Some (Panic, s)
     | Some [] \<Rightarrow> Some (Panic, s)
     | Some xs \<Rightarrow> bindO (state_computer_commit env xs ls) (\<lambda>_.
         bindO (on_tree (update_ordered_root (bi_id (proof_info ls)))) (\<lambda>_. liftO (Ok xs))) s)"
  using b r path
  by (cases path; cases "the path") (simp_all add: commit_def Let_def bindO_liftO)

lemma commit_step:
  assumes inv: "bs_inv U s" and pf: "proof_ok U ls"
  shows "step_to U s (commit env ls s)"
proof -
  let ?t = "bs_inner s" and ?n = "bi_id (proof_info ls)"
  obtain R where R: "tree_inv U R ?t" using inv by (auto simp: bs_inv_def)
  obtain r where r: "ordered_root ?t = Ok r" using ordered_root_Ok [OF R] by blast
  show ?thesis
  proof (cases "\<exists>b. tree_get_block ?t ?n = Some b \<and> eb_round r < eb_round b")
    case False
    then have "\<exists>e. commit env ls s = Some (Err e, s)"
      using r by (cases "tree_get_block ?t ?n") (auto simp: commit_def Let_def bindO_liftO)
    then show ?thesis using step_to_same [OF inv _ same_store_refl] by blast
  next
    case True
    then obtain b where b: "tree_get_block ?t ?n = Some b" "eb_round r < eb_round b" by blast
    then have D: "?n \<in> dom (tr_id_to_block ?t)" "eb_id b = ?n"
      using tree_linksD(1) [OF tree_invD(1) [OF R]] by (auto simp: tree_get_block_def)
    obtain path where path: "path_from_ordered_root ?n ?t = Some (Ok path)"
      "case path of None \<Rightarrow> (tr_ordered_root_id ?t, ?n) \<notin> (child ?t)\<^sup>* | Some xs \<Rightarrow> chain_of ?t (tr_ordered_root_id ?t) xs ?n"
      using path_from_ordered_root_Ok [OF R] .
    note commit = commit_path [OF R b(1) D(2) r b(2) path(1), of env]
    show ?thesis
    proof (cases "path = None \<or> path = Some []")
      case True
      then have "commit env ls s = Some (Panic, s)" using commit by auto
      then show ?thesis using step_to_same [OF inv _ same_store_refl] by blast
    next
      case False
      then obtain xs where xs: "path = Some xs" "xs \<noteq> []" by auto
      then have chain: "chain_of ?t (tr_ordered_root_id ?t) xs ?n" using path(2) by simp
      have go: "commit env ls s = bindO (state_computer_commit env xs ls) (\<lambda>_.
          bindO (on_tree (update_ordered_root ?n)) (\<lambda>_. liftO (Ok xs))) s"
        using commit xs by (cases xs) simp_all
      show ?thesis
      proof (cases rule: state_computer_commit_cases [of env xs ls s])
        case (failed out s1)
        then have "\<exists>out'. commit env ls s = Some (out', s1) \<and> (\<forall>bs. out' \<noteq> Ok bs)"
          using go by (cases out) (auto simp: bindO_def)
        then show ?thesis using step_to_same [OF inv _ failed(2)] by blast
      next
        case (sent s1 cn)
        let ?s = "s1\<lparr>bs_inner := ?t\<lparr>tr_ordered_root_id := ?n\<rparr>\<rparr>"
        have "commit env ls s = Some (Ok xs, ?s)"
          using go sent(1,2) D(1) by (auto simp: bindO_def on_tree_def update_ordered_root_def block_exists_def liftO_def)
        then show ?thesis
          using committed_inv [OF inv pf chain xs(2) sent(2-5) refl] chain_linked [OF tree_invD(1) [OF R] chain]
          by (simp add: step_to_def)
      qed
    qed
  qed
qed

section \<open>Runs of the store\<close>

datatype bs_input =
    InsertBlock block
  | InsertQuorumCert quorum_cert
  | InsertTimeoutCert timeout_certificate
  | Insert2ChainTimeoutCert two_chain_timeout_certificate
  | Commit ledger_info_with_signatures
  | CommitNotification

definition bs_step :: "'x bs_env \<Rightarrow> bs_input \<Rightarrow> ('x, executed_block list) bs_action" where
  "bs_step env i =
     (case i of
        InsertBlock b \<Rightarrow> bindO (execute_and_insert_block env b) (\<lambda>_. liftO (Ok []))
      | InsertQuorumCert qc \<Rightarrow> bindO (insert_single_quorum_cert env qc) (\<lambda>_. liftO (Ok []))
      | InsertTimeoutCert tc \<Rightarrow> bindO (insert_timeout_certificate env tc) (\<lambda>_. liftO (Ok []))
      | Insert2ChainTimeoutCert tc \<Rightarrow> bindO (insert_2chain_timeout_certificate env tc) (\<lambda>_. liftO (Ok []))
      | Commit ls \<Rightarrow> commit env ls
      | CommitNotification \<Rightarrow> bindO (process_notification env) (\<lambda>_. liftO (Ok [])))"

text \<open>A run goes on after an error and stops at a panic; it collects the blocks handed to execution.\<close>

fun bs_run :: "'x bs_env \<Rightarrow> bs_input list \<Rightarrow> 'x block_store \<Rightarrow> (executed_block list \<times> 'x block_store) option" where
  "bs_run env [] s = Some ([], s)"
| "bs_run env (i # is) s =
     (case bs_step env i s of
        None \<Rightarrow> None
      | Some (Panic, s') \<Rightarrow> Some ([], s')
      | Some (out, s') \<Rightarrow>
          (case bs_run env is s' of
             None \<Rightarrow> None
           | Some (blocks, s'') \<Rightarrow> Some ((case out of Ok bs \<Rightarrow> bs | _ \<Rightarrow> []) @ blocks, s'')))"

definition bs_input_ok :: "block set \<Rightarrow> bs_input \<Rightarrow> bool" where
  "bs_input_ok U i \<longleftrightarrow> (\<forall>b. i = InsertBlock b \<longrightarrow> b \<in> U) \<and> (\<forall>ls. i = Commit ls \<longrightarrow> proof_ok U ls)"

lemma step_to_unit:
  assumes "m s = Some (out, s')" "bs_inv U s'" "tr_ordered_root_id (bs_inner s') = tr_ordered_root_id (bs_inner s)"
  shows "step_to U s (bindO m (\<lambda>_. liftO (Ok [])) s)"
  using assms by (cases out) (simp_all add: bindO_def liftO_def step_to_def)

lemma step_to_unit_same:
  assumes "\<exists>out s'. m s = Some (out, s') \<and> same_store s s'" "bs_inv U s"
  shows "step_to U s (bindO m (\<lambda>_. liftO (Ok [])) s)"
proof -
  obtain out s' where s': "m s = Some (out, s')" "same_store s s'" using assms(1) by blast
  show ?thesis by (rule step_to_unit [of m, OF s'(1) same_store_inv [OF s'(2) assms(2)] same_store_root [OF s'(2)]])
qed

lemma bs_step_to:
  assumes inv: "bs_inv U s" and U: "universe U" and it: "iterates (bse_iter env)" and i: "bs_input_ok U i"
  shows "step_to U s (bs_step env i s)"
proof (cases i)
  case (InsertBlock b)
  then show ?thesis
    using execute_and_insert_block_step [OF inv U, of b env] i step_to_unit [of "execute_and_insert_block env b"]
    by (auto simp: bs_step_def bs_input_ok_def)
next
  case (InsertQuorumCert qc)
  then show ?thesis
    using step_to_unit_same [of "insert_single_quorum_cert env qc", OF insert_single_quorum_cert_same inv] by (simp add: bs_step_def)
next
  case (InsertTimeoutCert tc)
  then show ?thesis
    using step_to_unit_same [of "insert_timeout_certificate env tc", OF insert_timeout_certificate_same inv] by (simp add: bs_step_def)
next
  case (Insert2ChainTimeoutCert tc)
  then show ?thesis
    using step_to_unit_same [of "insert_2chain_timeout_certificate env tc", OF insert_2chain_timeout_certificate_same inv] by (simp add: bs_step_def)
next
  case (Commit ls)
  then show ?thesis using commit_step [OF inv] i by (simp add: bs_step_def bs_input_ok_def)
next
  case CommitNotification
  then show ?thesis
    using process_notification_step [OF inv it] step_to_unit [of "process_notification env" s] by (auto simp: bs_step_def)
qed

lemma bs_run_linked:
  assumes U: "universe U" and it: "iterates (bse_iter env)"
  shows "bs_inv U s \<Longrightarrow> list_all (bs_input_ok U) is \<Longrightarrow>
    \<exists>blocks s'. bs_run env is s = Some (blocks, s') \<and> bs_inv U s' \<and>
      linked (tr_ordered_root_id (bs_inner s)) blocks (tr_ordered_root_id (bs_inner s'))"
proof (induction "is" arbitrary: s)
  case Nil
  then show ?case by simp
next
  case (Cons i "is")
  have "step_to U s (bs_step env i s)" using bs_step_to [OF Cons.prems(1) U it] Cons.prems(2) by simp
  then obtain out s1 where 1: "bs_step env i s = Some (out, s1)" "bs_inv U s1"
    "case out of Ok blocks \<Rightarrow> linked (tr_ordered_root_id (bs_inner s)) blocks (tr_ordered_root_id (bs_inner s1))
     | _ \<Rightarrow> tr_ordered_root_id (bs_inner s1) = tr_ordered_root_id (bs_inner s)"
    by (auto simp: step_to_def)
  obtain blocks s' where 2: "bs_run env is s1 = Some (blocks, s')" "bs_inv U s'"
    "linked (tr_ordered_root_id (bs_inner s1)) blocks (tr_ordered_root_id (bs_inner s'))"
    using Cons.IH [OF 1(2)] Cons.prems(2) by auto
  show ?case
  proof (cases out)
    case (Ok bs)
    then show ?thesis using 1 2 by (auto simp: linked_append)
  qed (use 1 2 in auto)
qed

section \<open>Start-up\<close>

lemma root_tree_inv:
  assumes U: "universe U" "ri_block root \<in> U" and t: "root_tree root md htc h2tc max_pruned = Ok t"
  shows "tree_inv U {} t" "tr_commit_root_id t = blk_id (ri_block root)" "tr_ordered_root_id t = blk_id (ri_block root)"
    "tr_highest_ledger_info t = ri_commit_ledger_info root"
    "round_of t (tr_commit_root_id t) = unat (blk_round (ri_block root))"
    "dom (tr_id_to_block t) = {blk_id (ri_block root)}"
proof -
  let ?b = "ri_block root"
  let ?lb = "linkable_new \<lparr>eb_block = ?b, eb_state_compute_result = root_compute_result md\<rparr>"
  have f: "tr_id_to_block t = [blk_id ?b \<mapsto> ?lb]" "tr_commit_root_id t = blk_id ?b" "tr_ordered_root_id t = blk_id ?b"
    "tr_highest_ledger_info t = ri_commit_ledger_info root" "tr_pruned_block_ids t = []"
    using t by (auto simp: root_tree_def block_tree_new_def Let_def bind_res_Ok_iff)
  then show "tr_commit_root_id t = blk_id ?b" "tr_ordered_root_id t = blk_id ?b"
    "tr_highest_ledger_info t = ri_commit_ledger_info root" by simp_all
  have ne: "blk_parent_id ?b \<noteq> blk_id ?b" using U unfolding universe_def by (metis less_irrefl)
  have child: "child t = {}" unfolding child_def f(1) by (auto simp: linkable_new_def split: if_splits)
  have par: "parent_of t (blk_id ?b) = blk_parent_id ?b" unfolding parent_of_def f(1) by (simp add: linkable_new_def)
  show "round_of t (tr_commit_root_id t) = unat (blk_round ?b)" unfolding round_of_def f(1,2) by (simp add: linkable_new_def)
  show dom: "dom (tr_id_to_block t) = {blk_id ?b}" unfolding f(1) by simp
  have "tree_links t"
    unfolding tree_links_def dom child using ne par by (auto simp: f(1) linkable_new_def split: if_splits)
  moreover have "\<And>h eb. tree_get_block t h = Some eb \<Longrightarrow> eb_block eb \<in> U"
    using U(2) by (auto simp: tree_get_block_def f(1) linkable_new_def split: if_splits)
  ultimately show "tree_inv U {} t"
    unfolding tree_inv_def dom child f(2,3,5) using par ne by simp
qed

lemma or_panic_eq: "m s = Some (out, s') \<Longrightarrow> \<exists>out'. or_panic m s = Some (out', s')"
  by (simp add: or_panic_def)

lemma bindO_inv:
  assumes "\<exists>out s'. m s = Some (out, s') \<and> P s'" "\<And>a s'. P s' \<Longrightarrow> \<exists>out s''. f a s' = Some (out, s'') \<and> P s''"
  shows "\<exists>out s'. bindO m f s = Some (out, s') \<and> P s'"
proof -
  obtain out s' where "m s = Some (out, s')" "P s'" using assms(1) by blast
  then show ?thesis using assms(2) by (cases out) (auto simp: bindO_def)
qed

lemma insert_recovered_inv:
  fixes s :: "'x block_store"
  assumes U: "universe U" and inv: "bs_inv U s" "tr_ordered_root_id (bs_inner s) = r"
  shows "set bs \<subseteq> U \<Longrightarrow> \<exists>out s'. bindO (insert_recovered_blocks env bs) (\<lambda>_. insert_recovered_certs env qcs) s = Some (out, s') \<and>
    (bs_inv U s' \<and> tr_ordered_root_id (bs_inner s') = r)"
proof (rule bindO_inv)
  show "set bs \<subseteq> U \<Longrightarrow> \<exists>out s'. insert_recovered_blocks env bs s = Some (out, s') \<and> (bs_inv U s' \<and> tr_ordered_root_id (bs_inner s') = r)"
    using inv
  proof (induction bs arbitrary: s)
    case (Cons b bs)
    then have b: "b \<in> U" "set bs \<subseteq> U" by simp_all
    from execute_and_insert_block_step [OF Cons.prems(2) U b(1), of env] obtain out s1 where
      1: "execute_and_insert_block env b s = Some (out, s1)" "bs_inv U s1" "tr_ordered_root_id (bs_inner s1) = r"
      using Cons.prems(3) by auto
    show ?case unfolding insert_recovered_blocks.simps
      by (rule bindO_inv) (use or_panic_eq [of "execute_and_insert_block env b", OF 1(1)] 1(2,3) Cons.IH [OF b(2)] in blast)+
  qed (simp add: liftO_def)
  show "\<exists>out s''. insert_recovered_certs env qcs s' = Some (out, s'') \<and> (bs_inv U s'' \<and> tr_ordered_root_id (bs_inner s'') = r)"
    if "bs_inv U s' \<and> tr_ordered_root_id (bs_inner s') = r" for a :: unit and s' :: "'x block_store"
    using that
  proof (induction qcs arbitrary: s')
    case (Cons qc qcs)
    from insert_single_quorum_cert_same [of env qc s'] obtain out s1 where
      1: "insert_single_quorum_cert env qc s' = Some (out, s1)" "same_store s' s1" by blast
    have 2: "bs_inv U s1 \<and> tr_ordered_root_id (bs_inner s1) = r"
      using same_store_inv [OF 1(2)] same_store_root [OF 1(2)] Cons.prems by simp
    show ?case unfolding insert_recovered_certs.simps
      by (rule bindO_inv) (use or_panic_eq [of "insert_single_quorum_cert env qc", OF 1(1)] 2 Cons.IH in blast)+
  qed (simp add: liftO_def)
qed

lemma block_store_build_inv:
  assumes U: "universe U" "ri_block root \<in> U" "set blocks \<subseteq> U"
    and li: "bi_round (proof_info (ri_commit_ledger_info root)) = blk_round (ri_block root)"
    and build: "block_store_build env root md blocks qcs htc h2tc max_pruned limit x = Some (Ok s)"
  shows "bs_inv U s \<and> tr_ordered_root_id (bs_inner s) = blk_id (ri_block root)"
proof -
  obtain t where t: "root_tree root md htc h2tc max_pruned = Ok t"
    using build by (auto simp: block_store_build_def split: result.splits)
  let ?s = "\<lparr>bs_inner = t, bs_executor = x, bs_notifications = [], bs_back_pressure_limit = limit\<rparr>"
  note r = root_tree_inv [OF U(1,2) t]
  have inv: "bs_inv U ?s" "tr_ordered_root_id (bs_inner ?s) = blk_id (ri_block root)"
    using r li by (auto simp: bs_inv_def)
  from insert_recovered_inv [OF U(1) this U(3), of env qcs] show ?thesis
    using build t by (auto simp: block_store_build_def split: option.splits result.splits prod.splits)
qed

lemma notifications_processed:
  assumes it: "iterates (bse_iter env)"
  shows "bs_inv U s \<Longrightarrow> \<exists>s'. bs_run env (replicate (length (bs_notifications s)) CommitNotification) s = Some ([], s') \<and>
    bs_inv U s' \<and> tr_ordered_root_id (bs_inner s') = tr_ordered_root_id (bs_inner s) \<and> bs_notifications s' = []"
proof (induction "length (bs_notifications s)" arbitrary: s)
  case 0
  then show ?case by simp
next
  case (Suc n)
  then obtain cn cns where cns: "bs_notifications s = cn # cns" "n = length cns" by (cases "bs_notifications s") auto
  obtain s1 where s1: "process_notification env s = Some (Ok (), s1)" "bs_inv U s1"
    "tr_ordered_root_id (bs_inner s1) = tr_ordered_root_id (bs_inner s)" "bs_notifications s1 = cns"
    using process_notification_step [OF Suc.prems it] cns(1) by auto
  have "bs_step env CommitNotification s = Some (Ok [], s1)"
    using s1(1) by (simp add: bs_step_def bindO_def liftO_def)
  then show ?case using Suc.hyps(1) [of s1] s1 cns by auto
qed

section \<open>Properties\<close>

text \<open>C8: The blocks handed to execution form one chain. Start a block store from recovered data and run
  any sequence of insertions, commits and commit notifications on it, in any order: every operation
  returns, and the blocks passed to the executor, over all commits together, are linked parent to
  child, beginning right after the root block and ending at the ordered root, without gaps, repeats
  or forks.\<close>

theorem ordered_blocks_form_chain:
  assumes "universe U" "iterates (bse_iter env)" "ri_block root \<in> U" "set blocks \<subseteq> U"
    and "bi_round (proof_info (ri_commit_ledger_info root)) = blk_round (ri_block root)"
    and "block_store_build env root md blocks qcs htc h2tc max_pruned limit x = Some (Ok s)"
    and "list_all (bs_input_ok U) is"
  shows "\<exists>delivered s'. bs_run env is s = Some (delivered, s') \<and>
    linked (blk_id (ri_block root)) delivered (tr_ordered_root_id (bs_inner s'))"
proof -
  have "bs_inv U s \<and> tr_ordered_root_id (bs_inner s) = blk_id (ri_block root)"
    by (rule block_store_build_inv [OF assms(1,3,4,5,6)])
  then show ?thesis using bs_run_linked [OF assms(1,2) _ assms(7), of s] by auto
qed

text \<open>A root block of round 0, a block of round 1 on top of it and its commit proof.\<close>

definition example_qc :: "hash_value \<Rightarrow> round_t \<Rightarrow> quorum_cert" where
  "example_qc h r =
     (let info = block_info_empty\<lparr>bi_id := h, bi_round := r\<rparr> in
      \<lparr>qc_vote_data = \<lparr>vd_proposed = info, vd_parent = info\<rparr>,
       qc_signed_ledger_info = \<lparr>ls_ledger_info = \<lparr>li_commit_info = info, li_consensus_data_hash = 0\<rparr>, ls_signatures = []\<rparr>\<rparr>)"

definition example_block :: "hash_value \<Rightarrow> round_t \<Rightarrow> hash_value \<Rightarrow> block" where
  "example_block h r p =
     \<lparr>blk_id = h, blk_block_data = \<lparr>bd_epoch = 1, bd_round = r, bd_timestamp_usecs = 0, bd_quorum_cert = example_qc p 0,
        bd_block_type = NilBlock\<rparr>, blk_signature = None\<rparr>"

definition example_root :: root_info where
  "example_root =
     \<lparr>ri_block = example_block 100 0 99, ri_quorum_cert = example_qc 100 0, ri_ordered_cert = example_qc 100 0,
      ri_commit_ledger_info = qc_signed_ledger_info (example_qc 100 0)\<rparr>"

definition example_metadata :: root_metadata where
  "example_metadata = \<lparr>rm_accu_hash = 0, rm_frozen_root_hashes = [], rm_num_leaves = 1\<rparr>"

definition example_env :: "unit bs_env" where
  "example_env =
     \<lparr>bse_iter = sorted_list_of_set,
      bse_execute_block = (\<lambda>b h x. (Ok (root_compute_result example_metadata), x)),
      bse_commit_blocks = (\<lambda>hs ls x. (Ok (), x)), bse_save_tree = (\<lambda>bs qcs. Ok ()),
      bse_save_highest_timeout_cert = (\<lambda>tc. Ok ()), bse_save_highest_2chain_timeout_cert = (\<lambda>tc. Ok ())\<rparr>"

definition example_inputs :: "bs_input list" where
  "example_inputs =
     [InsertBlock (example_block 101 1 100), Commit (qc_signed_ledger_info (example_qc 101 1)), CommitNotification]"

lemmas example_defs = example_qc_def example_block_def example_root_def example_metadata_def block_info_empty_def

lemma example_universe: "universe {example_block 100 0 99, example_block 101 1 100}"
  by (simp add: universe_def example_defs Let_def)

lemma example_start:
  obtains s where "block_store_build example_env example_root example_metadata [] [] None None 10 5 () = Some (Ok s)"
proof -
  obtain t where "root_tree example_root example_metadata None None 10 = Ok t"
    by (simp add: root_tree_def block_tree_new_def example_defs Let_def rm_version_def)
  then show thesis using that by (simp add: block_store_build_def bindO_def liftO_def)
qed

lemma example_inputs_ok: "list_all (bs_input_ok {example_block 100 0 99, example_block 101 1 100}) example_inputs"
  by (simp add: example_inputs_def bs_input_ok_def proof_ok_def example_defs Let_def)

lemma example_iterates: "iterates (bse_iter example_env)"
  by (simp add: iterates_def example_env_def)

theorem ordered_blocks_form_chain_witness:
  "\<exists>s delivered s'.
     block_store_build example_env example_root example_metadata [] [] None None 10 5 () = Some (Ok s) \<and>
     bs_run example_env example_inputs s = Some (delivered, s') \<and> linked 100 delivered (tr_ordered_root_id (bs_inner s'))"
proof -
  obtain s where s: "block_store_build example_env example_root example_metadata [] [] None None 10 5 () = Some (Ok s)"
    using example_start .
  have "ri_block example_root \<in> {example_block 100 0 99, example_block 101 1 100}" by (simp add: example_root_def)
  moreover have "bi_round (proof_info (ri_commit_ledger_info example_root)) = blk_round (ri_block example_root)"
    by (simp add: example_defs Let_def)
  ultimately have "\<exists>delivered s'. bs_run example_env example_inputs s = Some (delivered, s') \<and>
      linked (blk_id (ri_block example_root)) delivered (tr_ordered_root_id (bs_inner s'))"
    using ordered_blocks_form_chain [OF example_universe example_iterates _ _ _ s example_inputs_ok] by simp
  then show ?thesis using s by (auto simp: example_root_def example_block_def)
qed

text \<open>C9: The commit root catches up with the ordered root. In every state that a run of the store
  reaches, processing the queued commit notifications succeeds for each of them, with no panic and no
  further block handed out, and leaves the commit root equal to the ordered root.\<close>

theorem commit_root_catches_up:
  assumes "universe U" "iterates (bse_iter env)" "ri_block root \<in> U" "set blocks \<subseteq> U"
    and "bi_round (proof_info (ri_commit_ledger_info root)) = blk_round (ri_block root)"
    and "block_store_build env root md blocks qcs htc h2tc max_pruned limit x = Some (Ok s0)"
    and "list_all (bs_input_ok U) is" "bs_run env is s0 = Some (delivered, s)"
  shows "\<exists>s'. bs_run env (replicate (length (bs_notifications s)) CommitNotification) s = Some ([], s') \<and>
    tr_commit_root_id (bs_inner s') = tr_ordered_root_id (bs_inner s) \<and> bs_notifications s' = []"
proof -
  have "bs_inv U s0" using block_store_build_inv [OF assms(1,3,4,5,6)] by simp
  then have "bs_inv U s" using bs_run_linked [OF assms(1,2) _ assms(7), of s0] assms(8) by auto
  then show ?thesis using notifications_processed [OF assms(2)] by (force simp: bs_inv_def)
qed

theorem commit_root_catches_up_witness:
  "\<exists>s0 delivered s s'.
     block_store_build example_env example_root example_metadata [] [] None None 10 5 () = Some (Ok s0) \<and>
     bs_run example_env example_inputs s0 = Some (delivered, s) \<and>
     bs_run example_env (replicate (length (bs_notifications s)) CommitNotification) s = Some ([], s') \<and>
     tr_commit_root_id (bs_inner s') = tr_ordered_root_id (bs_inner s)"
proof -
  obtain s0 where s0: "block_store_build example_env example_root example_metadata [] [] None None 10 5 () = Some (Ok s0)"
    using example_start .
  have r: "ri_block example_root \<in> {example_block 100 0 99, example_block 101 1 100}"
    "bi_round (proof_info (ri_commit_ledger_info example_root)) = blk_round (ri_block example_root)"
    by (simp_all add: example_defs Let_def)
  obtain delivered s where s: "bs_run example_env example_inputs s0 = Some (delivered, s)"
    using bs_run_linked [OF example_universe example_iterates _ example_inputs_ok, of s0]
      block_store_build_inv [OF example_universe r(1) _ r(2) s0] by auto
  then show ?thesis
    using commit_root_catches_up [OF example_universe example_iterates r(1) _ r(2) s0 example_inputs_ok s] s0 by auto
qed

text \<open>C38: Inserting a timeout certificate can lower the highest one. The check compares the round of
  the new certificate with the highest 2-chain timeout certificate, so that with no 2-chain
  certificate in the store any certificate of a positive round replaces the stored one, also when
  that one has a higher round.\<close>

theorem timeout_certificate_can_be_lowered:
  assumes "tr_highest_timeout_cert (bs_inner s) = Some old" "tr_highest_2chain_timeout_cert (bs_inner s) = None"
    and "0 < to_round (tc_timeout tc)" "to_round (tc_timeout tc) < to_round (tc_timeout old)"
    and "bse_save_highest_timeout_cert env tc = Ok ()"
  shows "\<exists>s'. insert_timeout_certificate env tc s = Some (Ok (), s') \<and> tr_highest_timeout_cert (bs_inner s') = Some tc"
  using assms
  by (simp add: insert_timeout_certificate_def cur_2chain_tc_round_def bindO_liftO on_tree_def word_le_nat_alt word_less_nat_alt)

theorem timeout_certificate_can_be_lowered_witness:
  "\<exists>s s' :: unit block_store.
     tr_highest_timeout_cert (bs_inner s) = Some \<lparr>tc_timeout = \<lparr>to_epoch = 1, to_round = 9\<rparr>, tc_signatures = []\<rparr> \<and>
     insert_timeout_certificate example_env \<lparr>tc_timeout = \<lparr>to_epoch = 1, to_round = 3\<rparr>, tc_signatures = []\<rparr> s = Some (Ok (), s') \<and>
     tr_highest_timeout_cert (bs_inner s') = Some \<lparr>tc_timeout = \<lparr>to_epoch = 1, to_round = 3\<rparr>, tc_signatures = []\<rparr>"
proof -
  let ?old = "\<lparr>tc_timeout = \<lparr>to_epoch = 1, to_round = 9\<rparr>, tc_signatures = []\<rparr>"
  obtain s0 where "block_store_build example_env example_root example_metadata [] [] None None 10 5 () = Some (Ok s0)"
    using example_start .
  define s where "s = s0\<lparr>bs_inner := (bs_inner s0)\<lparr>tr_highest_timeout_cert := Some ?old, tr_highest_2chain_timeout_cert := None\<rparr>\<rparr>"
  have "\<exists>s'. insert_timeout_certificate example_env \<lparr>tc_timeout = \<lparr>to_epoch = 1, to_round = 3\<rparr>, tc_signatures = []\<rparr> s = Some (Ok (), s') \<and>
      tr_highest_timeout_cert (bs_inner s') = Some \<lparr>tc_timeout = \<lparr>to_epoch = 1, to_round = 3\<rparr>, tc_signatures = []\<rparr>"
    by (rule timeout_certificate_can_be_lowered [where old = ?old]) (simp_all add: s_def example_env_def)
  moreover have "tr_highest_timeout_cert (bs_inner s) = Some ?old" by (simp add: s_def)
  ultimately show ?thesis by blast
qed

text \<open>A tree with two blocks on top of the root, for the properties of the loops over the tree.\<close>

definition example_executed :: "hash_value \<Rightarrow> round_t \<Rightarrow> executed_block" where
  "example_executed h r = \<lparr>eb_block = example_block h r 100, eb_state_compute_result = root_compute_result example_metadata\<rparr>"

lemma example_fork:
  obtains t where "tree_inv {example_block 100 0 99, example_block 101 1 100, example_block 102 2 100} {} t"
    "tr_commit_root_id t = 100" "tr_ordered_root_id t = 100" "(100, 101) \<in> child t" "(100, 102) \<in> child t"
proof -
  let ?U = "{example_block 100 0 99, example_block 101 1 100, example_block 102 2 100}"
  have U: "universe ?U" by (simp add: universe_def example_defs Let_def)
  obtain t0 where t0: "root_tree example_root example_metadata None None 10 = Ok t0"
    by (simp add: root_tree_def block_tree_new_def example_defs Let_def rm_version_def)
  note r = root_tree_inv [OF U _ t0, simplified example_root_def, simplified]
  have dom: "dom (tr_id_to_block t0) = {100}" using r(6) by (simp add: example_block_def)
  define e1 where "e1 = example_executed 101 1"
  define e2 where "e2 = example_executed 102 2"
  have e: "eb_id e1 = 101" "eb_parent_id e1 = 100" "eb_id e2 = 102" "eb_parent_id e2 = 100"
    "eb_round e1 = 1" "eb_round e2 = 2" "eb_block e1 \<in> ?U" "eb_block e2 \<in> ?U"
    by (simp_all add: e1_def e2_def example_executed_def example_defs Let_def)
  have id: "tr_commit_root_id t0 = 100" "tr_ordered_root_id t0 = 100" "round_of t0 100 = 0" "tree_inv ?U {} t0"
    using r by (simp_all add: example_block_def)
  have can1: "can_insert e1 t0" using dom e by (simp add: can_insert_def)
  define t1 where "t1 = with_block e1 t0"
  have inv1: "tree_inv ?U {} t1"
    unfolding t1_def by (rule with_block_inv [OF id(4) U e(7) can1]) (simp add: id e)
  have can2: "can_insert e2 t1" using with_block_dom [OF can1] dom e by (simp add: can_insert_def t1_def)
  have "tree_inv ?U {} (with_block e2 t1)"
    by (rule with_block_inv [OF inv1 U e(8) can2]) (simp add: t1_def id e with_block_round [OF can1])
  moreover have "child (with_block e2 t1) = {(100, 102), (100, 101)} \<union> child t0"
    using with_block_child [OF can2] with_block_child [OF can1] e by (auto simp: t1_def)
  ultimately show thesis using that [of "with_block e2 t1"] id(1,2) by (simp add: t1_def)
qed

theorem path_from_ordered_root_terminates_witness:
  "\<exists>t path. path_from_ordered_root 102 t = Some (Ok (Some path)) \<and> chain_of t 100 path 102"
proof -
  obtain t where t: "tree_inv {example_block 100 0 99, example_block 101 1 100, example_block 102 2 100} {} t"
    "tr_ordered_root_id t = 100" "(100, 102) \<in> child t" using example_fork .
  from path_from_ordered_root_terminates [OF t(1), of 102] show ?thesis
    using t(2,3) by (auto split: option.splits)
qed

theorem find_blocks_to_prune_exact_witness:
  "\<exists>t l. find_blocks_to_prune sorted_list_of_set 101 t = Some (Ok l) \<and> 102 \<in> set l \<and> 101 \<notin> set l"
proof -
  obtain t where t: "tree_inv {example_block 100 0 99, example_block 101 1 100, example_block 102 2 100} {} t"
    "tr_commit_root_id t = 100" "(100, 101) \<in> child t" "(100, 102) \<in> child t" using example_fork .
  have it: "iterates sorted_list_of_set" by (simp add: iterates_def)
  have "(101, 102) \<notin> (child t)\<^sup>*"
    using siblings_disjoint [OF tree_invD(1) [OF t(1)] t(3,4), of 102] by auto
  moreover from find_blocks_to_prune_exact [OF t(1) it, of 101] obtain l where
    "find_blocks_to_prune sorted_list_of_set 101 t = Some (Ok l)"
    "set l = {x. (100, x) \<in> (child t)\<^sup>* \<and> (101, x) \<notin> (child t)\<^sup>*}"
    using t(2,3) by auto
  ultimately show ?thesis using t(4) by (intro exI [of _ t] exI [of _ l]) auto
qed

end
