(* ===== verification/Spec2Isabelle.thy ===== *)
theory Spec2Isabelle
  imports Trusted_State Merkle_Accumulator Consensus_Example Round_State Proposer_Election Block_Store_Runs
begin

text \<open>
  A verification library for Diem Core: validator sets and signatures, hash values, ledger infos,
  waypoints and epoch change proofs, the transaction accumulator, the trusted state of light
  clients, the consensus messages, and the safety rules with their storage.
\<close>

end
